(* ===== verification/Prelude.thy ===== *)
theory Prelude
  imports Main "HOL-Library.Word" "HOL-Library.List_Lexorder" "HOL-Library.Char_ord"
    "HOL-Library.Sublist"
begin

text \<open>
  The prelude of the atty-guard development: the names of the machine types, the shared
  collections of simplification rules, and the generic lemmas on lists, results and words that
  the component theories use.

  \<^item> \<open>u8\<close>, \<open>u32\<close> and \<open>u64\<close> are words. A \<open>usize\<close> that counts bytes or elements held in memory is a
    \<^typ>\<open>nat\<close>: it is bounded by the length of an existing list.
  \<^item> \<open>Result<T, E>\<close> is the sum \<open>'e + 'a\<close> with \<open>Inl\<close> for \<open>Err\<close>.
  \<^item> A \<open>HashSet\<close> is a list without repetitions. The order of the list stands for the iteration
    order of the set, which Rust leaves open; every theorem holds for every such list.
\<close>

named_theorems str_simps \<open>evaluation and normal forms of the byte-string functions\<close>
named_theorems codec_simps \<open>what reading back a rendered line gives\<close>
named_theorems frame_simps \<open>state components that an operation leaves alone\<close>
named_theorems gate_simps \<open>outcomes of the permission checks\<close>

type_synonym u8 = "8 word"
type_synonym u32 = "32 word"
type_synonym u64 = "64 word"
type_synonym ('e, 'a) result = "'e + 'a"
type_synonym 'a hashset = "'a list"

section \<open>Results\<close>

definition is_Ok :: "('e, 'a) result \<Rightarrow> bool" where
  "is_Ok r \<longleftrightarrow> (case r of Inl _ \<Rightarrow> False | Inr _ \<Rightarrow> True)"

lemma is_Ok_simps [simp]: "is_Ok (Inr a)" "\<not> is_Ok (Inl e)"
  by (simp_all add: is_Ok_def)

lemma is_Ok_conv: "is_Ok r \<longleftrightarrow> (\<exists>a. r = Inr a)"
  by (cases r) simp_all

section \<open>Hash sets as lists without repetitions\<close>

definition hs_insert :: "'a \<Rightarrow> 'a hashset \<Rightarrow> 'a hashset" where
  "hs_insert x xs = (if x \<in> set xs then xs else x # xs)"

definition hs_remove :: "'a \<Rightarrow> 'a hashset \<Rightarrow> 'a hashset" where
  "hs_remove x xs = filter (\<lambda>y. y \<noteq> x) xs"

lemma set_hs_insert [simp]: "set (hs_insert x xs) = insert x (set xs)"
  by (auto simp: hs_insert_def)

lemma distinct_hs_insert [simp]: "distinct xs \<Longrightarrow> distinct (hs_insert x xs)"
  by (simp add: hs_insert_def)

lemma length_hs_insert: "length (hs_insert x xs) = (if x \<in> set xs then length xs else Suc (length xs))"
  by (simp add: hs_insert_def)

lemma set_hs_remove [simp]: "set (hs_remove x xs) = set xs - {x}"
  by (auto simp: hs_remove_def)

lemma distinct_hs_remove [simp]: "distinct xs \<Longrightarrow> distinct (hs_remove x xs)"
  by (simp add: hs_remove_def)

lemma length_hs_remove_le [simp]: "length (hs_remove x xs) \<le> length xs"
  by (simp add: hs_remove_def)

definition sorted_vec :: "'a::linorder hashset \<Rightarrow> 'a list" where
  "sorted_vec xs = sort xs"

lemma set_sorted_vec [simp]: "set (sorted_vec xs) = set xs"
  by (simp add: sorted_vec_def)

lemma sorted_sorted_vec [simp]: "sorted (sorted_vec xs)"
  by (simp add: sorted_vec_def)

lemma length_sorted_vec [simp]: "length (sorted_vec xs) = length xs"
  by (simp add: sorted_vec_def)

lemma sorted_vec_unique:
  assumes "distinct xs" and "distinct ys" and "set xs = set ys"
  shows "sorted_vec xs = sorted_vec ys"
  using assms by (simp add: sorted_vec_def sorted_distinct_set_unique)

section \<open>A set with a bound on its size\<close>

text \<open>
  Several sets of the daemon refuse a new element once they are full and still accept one they
  already hold. The contract is shared by the session sets and the subscriber slots.
\<close>

definition capped_add :: "nat \<Rightarrow> 'a \<Rightarrow> 'a hashset \<Rightarrow> 'a hashset option" where
  "capped_add cap x xs = (if cap \<le> length xs \<and> x \<notin> set xs then None else Some (hs_insert x xs))"

lemma capped_add_bound:
  "capped_add cap x xs = Some ys \<Longrightarrow> length xs \<le> cap \<Longrightarrow> length ys \<le> cap"
  by (auto simp: capped_add_def length_hs_insert split: if_splits)

lemma capped_add_set: "capped_add cap x xs = Some ys \<Longrightarrow> set ys = insert x (set xs)"
  by (auto simp: capped_add_def split: if_splits)

lemma capped_add_distinct: "capped_add cap x xs = Some ys \<Longrightarrow> distinct xs \<Longrightarrow> distinct ys"
  by (auto simp: capped_add_def split: if_splits)

section \<open>Association lists as hash maps\<close>

definition am_upd :: "'k \<Rightarrow> 'v \<Rightarrow> ('k \<times> 'v) list \<Rightarrow> ('k \<times> 'v) list" where
  "am_upd k v m = (k, v) # filter (\<lambda>p. fst p \<noteq> k) m"

definition am_del :: "'k \<Rightarrow> ('k \<times> 'v) list \<Rightarrow> ('k \<times> 'v) list" where
  "am_del k m = filter (\<lambda>p. fst p \<noteq> k) m"

abbreviation am_ok :: "('k \<times> 'v) list \<Rightarrow> bool" where
  "am_ok m \<equiv> distinct (map fst m)"

lemma map_of_filter_key: "map_of (filter (\<lambda>p. fst p \<noteq> k) m) x = (if x = k then None else map_of m x)"
  by (induction m) auto

lemma map_of_am_upd [simp]: "map_of (am_upd k v m) = (map_of m)(k \<mapsto> v)"
  by (rule ext) (simp add: am_upd_def map_of_filter_key)

lemma map_of_am_del [simp]: "map_of (am_del k m) = (map_of m)(k := None)"
  by (rule ext) (simp add: am_del_def map_of_filter_key)

lemma am_ok_filter [simp]: "am_ok m \<Longrightarrow> am_ok (filter P m)"
  by (simp add: distinct_map_filter)

lemma am_ok_upd [simp]: "am_ok m \<Longrightarrow> am_ok (am_upd k v m)"
  by (auto simp: am_upd_def distinct_map_filter)

lemma am_ok_del [simp]: "am_ok m \<Longrightarrow> am_ok (am_del k m)"
  by (simp add: am_del_def distinct_map_filter)

lemma map_of_filter_val:
  "am_ok m \<Longrightarrow> map_of (filter (\<lambda>p. P (snd p)) m) x =
     (case map_of m x of None \<Rightarrow> None | Some v \<Rightarrow> if P v then Some v else None)"
  by (induction m) (auto split: option.splits simp: map_of_eq_None_iff image_iff)

section \<open>Saturating arithmetic\<close>

definition sat_sub :: "nat \<Rightarrow> nat \<Rightarrow> nat" where
  "sat_sub a b = (if b \<le> a then a - b else 0)"

lemma sat_sub_eq [simp]: "sat_sub a b = a - b"
  by (simp add: sat_sub_def)

definition sat_add64 :: "u64 \<Rightarrow> u64 \<Rightarrow> u64" where
  "sat_add64 a b = (if unat a + unat b < 2 ^ 64 then a + b else 0xFFFFFFFFFFFFFFFF)"

definition sat_add32 :: "u32 \<Rightarrow> u32 \<Rightarrow> u32" where
  "sat_add32 a b = (if unat a + unat b < 2 ^ 32 then a + b else 0xFFFFFFFF)"

definition sat_sub64 :: "u64 \<Rightarrow> u64 \<Rightarrow> u64" where
  "sat_sub64 a b = (if b \<le> a then a - b else 0)"

lemma unat_sat_add64: "unat (sat_add64 a b) = min (unat a + unat b) (2 ^ 64 - 1)"
  by (auto simp: sat_add64_def unat_word_ariths)

lemma unat_sat_add32: "unat (sat_add32 a b) = min (unat a + unat b) (2 ^ 32 - 1)"
  by (auto simp: sat_add32_def unat_word_ariths)

lemma unat_sat_sub64: "unat (sat_sub64 a b) = unat a - unat b"
  by (auto simp: sat_sub64_def unat_sub word_le_nat_alt)

lemma sat_add64_commute: "sat_add64 a b = sat_add64 b a"
  by (simp add: sat_add64_def add.commute)

lemma sat_add64_assoc: "sat_add64 (sat_add64 a b) c = sat_add64 a (sat_add64 b c)"
  by (rule word_unat_eq_iff [THEN iffD2]) (simp add: unat_sat_add64)

end
