(* ===== verification/F32.thy ===== *)
theory F32
  imports Complex_Main Prelude "HOL-Library.Log_Nat"
begin

text \<open>
  IEEE 754 binary32 (Rust's \<open>f32\<close>) as the classifier uses it: subtraction, multiplication,
  comparison and \<open>is_finite\<close>. A finite value is the rational it denotes; both zeros are the
  rational 0, which no operation used here tells apart. Every arithmetic operation rounds the exact
  result to nearest, ties to even, with gradual underflow at \<open>2^-149\<close>, and overflows to infinity at
  \<open>2^128\<close>. The locale \<open>rounding\<close> states the laws of a rounding function that the accumulator relies
  on; it is interpreted on binary32 rounding.
\<close>

section \<open>Round to nearest, ties to even\<close>

definition round_even :: "rat \<Rightarrow> int" where
  "round_even x =
     (let f = \<lfloor>x\<rfloor>; d = x - of_int f
      in if d < 1 / 2 then f else if 1 / 2 < d then f + 1 else if even f then f else f + 1)"

lemma round_even_bounds: "\<lfloor>x\<rfloor> \<le> round_even x" "round_even x \<le> \<lfloor>x\<rfloor> + 1"
  by (auto simp: round_even_def Let_def)

lemma round_even_of_int [simp]: "round_even (of_int k) = k"
  by (simp add: round_even_def)

lemma round_even_mono: "x \<le> y \<Longrightarrow> round_even x \<le> round_even y"
proof (cases "\<lfloor>x\<rfloor> = \<lfloor>y\<rfloor>")
  case True
  assume "x \<le> y"
  with True show ?thesis by (auto simp: round_even_def Let_def)
next
  case False
  assume "x \<le> y"
  with False have "\<lfloor>x\<rfloor> + 1 \<le> \<lfloor>y\<rfloor>" using floor_mono [of x y] by linarith
  then show ?thesis using round_even_bounds(2) [of x] round_even_bounds(1) [of y] by linarith
qed

lemma round_even_le_int: "x \<le> of_int k \<Longrightarrow> round_even x \<le> k"
  using round_even_mono [of x "of_int k"] by simp

lemma round_even_ge_int: "of_int k \<le> x \<Longrightarrow> k \<le> round_even x"
  using round_even_mono [of "of_int k" x] by simp

section \<open>Rounding to 24 significant bits\<close>

text \<open>
  On the scale of the least positive value (\<open>y = x * 2^149\<close>) the unit in the last place is
  \<open>2^n\<close>, where \<open>n\<close> is how many bits \<open>y\<close> has beyond 24.
\<close>

definition excess :: "rat \<Rightarrow> nat" where
  "excess y = floorlog 2 (nat \<lfloor>y\<rfloor>) - 24"

definition rnd_scaled :: "rat \<Rightarrow> rat" where
  "rnd_scaled y = of_int (round_even (y / 2 ^ excess y)) * 2 ^ excess y"

definition rnd32 :: "rat \<Rightarrow> rat" where
  "rnd32 x = (if x < 0 then - (rnd_scaled (- x * 2 ^ 149) / 2 ^ 149) else rnd_scaled (x * 2 ^ 149) / 2 ^ 149)"

lemma excess_upper:
  assumes "0 \<le> y" shows "y < 2 ^ (24 + excess y)"
proof (cases "nat \<lfloor>y\<rfloor> = 0")
  case True
  then have "y < 1" using assms by linarith
  also have "(1::rat) \<le> 2 ^ (24 + excess y)" by simp
  finally show ?thesis .
next
  case False
  let ?N = "nat \<lfloor>y\<rfloor>"
  have "?N < 2 ^ floorlog 2 ?N" using floorlog_bounds [of ?N 2] False by simp
  also have "(2::nat) ^ floorlog 2 ?N \<le> 2 ^ (24 + excess y)"
    by (rule power_increasing) (simp_all add: excess_def)
  finally have "int ?N + 1 \<le> 2 ^ (24 + excess y)" by (metis Suc_leI of_nat_Suc of_nat_le_iff of_nat_numeral of_nat_power add.commute)
  then have "\<lfloor>y\<rfloor> + 1 \<le> 2 ^ (24 + excess y)" using False by linarith
  then have "of_int (\<lfloor>y\<rfloor> + 1) \<le> (of_int (2 ^ (24 + excess y)) :: rat)" by (simp only: of_int_le_iff)
  then show ?thesis by (simp add: floor_less_iff) linarith
qed

lemma excess_lower:
  assumes "0 < excess y" shows "2 ^ (23 + excess y) \<le> y"
proof -
  let ?N = "nat \<lfloor>y\<rfloor>"
  have N: "0 < ?N" using assms by (auto simp: excess_def floorlog_def intro: ccontr)
  have "2 ^ (floorlog 2 ?N - 1) \<le> ?N" using floorlog_bounds [of ?N 2] N by simp
  moreover have "floorlog 2 ?N - 1 = 23 + excess y" using assms by (simp add: excess_def)
  ultimately have "2 ^ (23 + excess y) \<le> nat \<lfloor>y\<rfloor>" by simp
  then have "int (2 ^ (23 + excess y)) \<le> int (nat \<lfloor>y\<rfloor>)" by (simp only: of_nat_le_iff)
  then have "(2::int) ^ (23 + excess y) \<le> \<lfloor>y\<rfloor>" using N by simp
  then show ?thesis by (simp add: le_floor_iff)
qed

lemma excess_le: "0 \<le> y \<Longrightarrow> y < 2 ^ (24 + n) \<Longrightarrow> excess y \<le> n"
proof (rule ccontr)
  assume "0 \<le> y" and y: "y < 2 ^ (24 + n)" and "\<not> excess y \<le> n"
  then have n: "24 + n \<le> 23 + excess y" and pos: "0 < excess y" by simp_all
  have "(2::rat) ^ (24 + n) \<le> 2 ^ (23 + excess y)" using n by (rule power_increasing) simp
  with excess_lower [OF pos] y show False by linarith
qed

lemma excess_mono: "x \<le> y \<Longrightarrow> excess x \<le> excess y"
  by (auto simp: excess_def intro!: diff_le_mono floorlog_mono nat_mono floor_mono)

lemma rnd_scaled_upper:
  assumes "0 \<le> y" shows "rnd_scaled y \<le> 2 ^ (24 + excess y)"
proof -
  have "y / 2 ^ excess y \<le> of_int (2 ^ 24)"
    using excess_upper [OF assms] by (simp add: power_add divide_le_eq)
  then have "round_even (y / 2 ^ excess y) \<le> 2 ^ 24" by (rule round_even_le_int)
  then have "(of_int (round_even (y / 2 ^ excess y)) :: rat) \<le> of_int (2 ^ 24)" by (simp only: of_int_le_iff)
  then show ?thesis by (simp add: rnd_scaled_def power_add)
qed

lemma rnd_scaled_lower:
  assumes "0 < excess y" shows "2 ^ (23 + excess y) \<le> rnd_scaled y"
proof -
  have "of_int (2 ^ 23) \<le> y / 2 ^ excess y"
    using excess_lower [OF assms] by (simp add: power_add le_divide_eq)
  then have "2 ^ 23 \<le> round_even (y / 2 ^ excess y)" by (rule round_even_ge_int)
  then have "of_int (2 ^ 23) \<le> (of_int (round_even (y / 2 ^ excess y)) :: rat)" by (simp only: of_int_le_iff)
  then show ?thesis by (simp add: rnd_scaled_def power_add)
qed

lemma rnd_scaled_nonneg: "0 \<le> y \<Longrightarrow> 0 \<le> rnd_scaled y"
  using round_even_ge_int [of 0 "y / 2 ^ excess y"] by (simp add: rnd_scaled_def)

lemma rnd_scaled_mono:
  assumes "0 \<le> x" and "x \<le> y" shows "rnd_scaled x \<le> rnd_scaled y"
proof (cases "excess x = excess y")
  case True
  have "round_even (x / 2 ^ excess x) \<le> round_even (y / 2 ^ excess x)"
    using assms(2) by (intro round_even_mono divide_right_mono) simp_all
  with True show ?thesis by (simp add: rnd_scaled_def)
next
  case False
  with excess_mono [OF assms(2)] have less: "24 + excess x \<le> 23 + excess y" by simp
  have "rnd_scaled x \<le> 2 ^ (24 + excess x)" by (rule rnd_scaled_upper [OF assms(1)])
  also have "(2::rat) ^ (24 + excess x) \<le> 2 ^ (23 + excess y)" using less by (rule power_increasing) simp
  also have "\<dots> \<le> rnd_scaled y" using less by (intro rnd_scaled_lower) simp
  finally show ?thesis .
qed

text \<open>A whole number of at most 24 significant bits is not changed.\<close>

lemma rnd_scaled_exact:
  assumes "0 \<le> M" and "M \<le> 2 ^ 24"
  shows "rnd_scaled (of_int M * 2 ^ n) = of_int M * 2 ^ n"
proof -
  let ?z = "of_int M * 2 ^ n :: rat"
  have "\<exists>k :: int. ?z / 2 ^ excess ?z = of_int k"
  proof (cases "M = 2 ^ 24")
    case True
    have "?z < 2 ^ (24 + (n + 1))" using True by (simp add: power_add)
    then have "excess ?z \<le> n + 1" using assms by (intro excess_le) simp_all
    then have e: "excess ?z \<le> 24 + n" by simp
    have "?z = 2 ^ (24 + n)" using True by (simp add: power_add)
    then have "?z / 2 ^ excess ?z = 2 ^ (24 + n - excess ?z)"
      using power_diff [OF _ e, of "2::rat"] by simp
    also have "\<dots> = of_int (2 ^ (24 + n - excess ?z))" by (simp only: of_int_power of_int_numeral)
    finally show ?thesis by blast
  next
    case False
    then have "(of_int M :: rat) < of_int (2 ^ 24)" using assms by (simp only: of_int_less_iff)
    then have "?z < 2 ^ (24 + n)" by (simp add: power_add)
    then have "excess ?z \<le> n" using assms by (intro excess_le) simp_all
    then have "?z / 2 ^ excess ?z = of_int M * 2 ^ (n - excess ?z)"
      using power_diff [of "2::rat" "excess ?z" n] by simp
    also have "\<dots> = of_int (M * 2 ^ (n - excess ?z))"
      by (simp only: of_int_mult of_int_power of_int_numeral)
    finally show ?thesis by blast
  qed
  then show ?thesis by (auto simp: rnd_scaled_def simp flip: eq_divide_eq_1) (metis round_even_of_int nonzero_eq_divide_eq power_not_zero zero_neq_numeral)
qed

lemma rnd_scaled_form:
  assumes "0 \<le> y"
  shows "\<exists>M n. rnd_scaled y = of_int M * 2 ^ n \<and> 0 \<le> M \<and> M \<le> 2 ^ 24"
proof -
  let ?M = "round_even (y / 2 ^ excess y)"
  have "0 \<le> ?M" using assms by (intro round_even_ge_int) simp
  moreover have "?M \<le> 2 ^ 24"
    using excess_upper [OF assms] by (intro round_even_le_int) (simp add: power_add divide_le_eq)
  ultimately show ?thesis by (auto simp: rnd_scaled_def)
qed

lemma rnd_scaled_idem: "0 \<le> y \<Longrightarrow> rnd_scaled (rnd_scaled y) = rnd_scaled y"
  using rnd_scaled_form [of y] rnd_scaled_exact by force

lemma rnd32_nonneg: "0 \<le> x \<Longrightarrow> rnd32 x = rnd_scaled (x * 2 ^ 149) / 2 ^ 149"
  by (simp add: rnd32_def)

lemma rnd32_mono: "0 \<le> x \<Longrightarrow> x \<le> y \<Longrightarrow> rnd32 x \<le> rnd32 y"
  by (simp add: rnd32_nonneg divide_right_mono rnd_scaled_mono)

lemma rnd32_ge_0: "0 \<le> x \<Longrightarrow> 0 \<le> rnd32 x"
  by (simp add: rnd32_nonneg rnd_scaled_nonneg)

lemma rnd32_idem: "0 \<le> x \<Longrightarrow> rnd32 (rnd32 x) = rnd32 x"
  by (simp add: rnd32_nonneg rnd32_ge_0 rnd_scaled_idem rnd_scaled_nonneg)

lemma rnd32_exact:
  assumes "0 \<le> M" and "M \<le> 2 ^ 24" and "k \<le> 149"
  shows "rnd32 (of_int M / 2 ^ k) = of_int M / 2 ^ k"
proof -
  have "of_int M / 2 ^ k * 2 ^ 149 = (of_int M * 2 ^ (149 - k) :: rat)"
    using assms(3) by (simp add: power_diff)
  moreover have "0 \<le> (of_int M / 2 ^ k :: rat)" using assms(1) by simp
  ultimately show ?thesis
    using assms rnd_scaled_exact [OF assms(1,2), of "149 - k"]
    by (simp add: rnd32_nonneg power_diff)
qed

lemma rnd32_0 [simp]: "rnd32 0 = 0"
  using rnd32_exact [of 0 0] by simp

lemma rnd32_1 [simp]: "rnd32 1 = 1"
  using rnd32_exact [of 1 0] by simp

section \<open>The unit interval under a monotone rounding\<close>

locale rounding =
  fixes rnd :: "rat \<Rightarrow> rat"
  assumes mono: "0 \<le> x \<Longrightarrow> x \<le> y \<Longrightarrow> rnd x \<le> rnd y"
    and idem: "0 \<le> x \<Longrightarrow> rnd (rnd x) = rnd x"
    and zero: "rnd 0 = 0"
    and one: "rnd 1 = 1"
begin

lemma unit_interval:
  assumes "0 \<le> x" and "x \<le> 1" shows "0 \<le> rnd x" and "rnd x \<le> 1"
  using mono [of 0 x] mono [of x 1] assms zero one by simp_all

lemma survive_step:
  assumes "0 \<le> a" and "a \<le> 1" and "rnd a = a" and "0 \<le> c" and "c \<le> 1"
  shows "0 \<le> rnd (a * rnd (1 - c))" and "rnd (a * rnd (1 - c)) \<le> a"
    and "rnd (a * rnd (1 - c)) \<le> rnd (1 - c)" and "rnd (rnd (a * rnd (1 - c))) = rnd (a * rnd (1 - c))"
proof -
  have u: "0 \<le> rnd (1 - c)" "rnd (1 - c) \<le> 1" using unit_interval [of "1 - c"] assms by simp_all
  have p: "0 \<le> a * rnd (1 - c)" using assms(1) u(1) by simp
  have "a * rnd (1 - c) \<le> a" using assms(1) u(2) by (simp add: mult_left_le)
  then show "rnd (a * rnd (1 - c)) \<le> a" using mono [OF p] assms(3) by metis
  have "a * rnd (1 - c) \<le> rnd (1 - c)" using assms(2) u(1) by (simp add: mult_left_le_one_le assms(1))
  then show "rnd (a * rnd (1 - c)) \<le> rnd (1 - c)" using mono [OF p] idem [of "1 - c"] assms(5) by force
  show "0 \<le> rnd (a * rnd (1 - c))" using mono [of 0 "a * rnd (1 - c)"] p zero by simp
  show "rnd (rnd (a * rnd (1 - c))) = rnd (a * rnd (1 - c))" using p by (rule idem)
qed

lemma survive_fold:
  assumes "0 \<le> a" and "a \<le> 1" and "rnd a = a" and "\<forall>c\<in>set cs. 0 \<le> c \<and> c \<le> 1"
  shows "0 \<le> foldl (\<lambda>a c. rnd (a * rnd (1 - c))) a cs \<and> foldl (\<lambda>a c. rnd (a * rnd (1 - c))) a cs \<le> a
    \<and> rnd (foldl (\<lambda>a c. rnd (a * rnd (1 - c))) a cs) = foldl (\<lambda>a c. rnd (a * rnd (1 - c))) a cs
    \<and> (\<forall>c\<in>set cs. foldl (\<lambda>a c. rnd (a * rnd (1 - c))) a cs \<le> rnd (1 - c))"
  using assms
proof (induction cs arbitrary: a)
  case Nil
  then show ?case by simp
next
  case (Cons c cs)
  have c: "0 \<le> c" "c \<le> 1" using Cons.prems(4) by auto
  note step = survive_step [OF Cons.prems(1,2,3) c]
  have le1: "rnd (a * rnd (1 - c)) \<le> 1" using step(2) Cons.prems(2) by linarith
  have rest: "\<forall>c\<in>set cs. 0 \<le> c \<and> c \<le> 1" using Cons.prems(4) by simp
  show ?case
    using Cons.IH [OF step(1) le1 step(4) rest] step(2,3) by (auto intro: order_trans)
qed

end

interpretation f32r: rounding rnd32
  by unfold_locales (simp_all add: rnd32_mono rnd32_idem)

text \<open>Evaluation: in the binade \<open>[2^-(k+1), 2^-k)\<close> the grid is \<open>2^-(24+k)\<close>.\<close>

lemma rnd32_binade:
  assumes "1 / 2 ^ (k + 1) \<le> x" and "x < 1 / 2 ^ k" and "k \<le> 125"
  shows "rnd32 x = of_int (round_even (x * 2 ^ (24 + k))) / 2 ^ (24 + k)"
proof -
  let ?y = "x * 2 ^ 149"
  have x0: "0 \<le> x" using assms(1) by (rule order_trans [rotated]) simp
  have split: "(2::rat) ^ 149 = 2 ^ (24 + k) * 2 ^ (125 - k)"
    using assms(3) by (simp flip: power_add)
  have up: "?y < 2 ^ (24 + (125 - k))"
  proof -
    have "x * 2 ^ k < 1" using assms(2) by (simp add: pos_less_divide_eq)
    then have "x * 2 ^ k * 2 ^ (24 + (125 - k)) < 1 * 2 ^ (24 + (125 - k))"
      by (rule mult_strict_right_mono) simp
    moreover have "?y = x * 2 ^ k * 2 ^ (24 + (125 - k))"
      using assms(3) by (simp add: mult.assoc flip: power_add)
    ultimately show ?thesis by (simp only: mult_1)
  qed
  have lo: "2 ^ (23 + (125 - k)) \<le> ?y"
  proof -
    have "1 \<le> x * 2 ^ (k + 1)" using assms(1) by (simp add: pos_divide_le_eq)
    then have "1 * 2 ^ (23 + (125 - k)) \<le> x * 2 ^ (k + 1) * 2 ^ (23 + (125 - k))"
      by (rule mult_right_mono) simp
    moreover have "?y = x * 2 ^ (k + 1) * 2 ^ (23 + (125 - k))"
      using assms(3) by (simp add: mult.assoc flip: power_add)
    ultimately show ?thesis by (simp only: mult_1)
  qed
  have le: "excess ?y \<le> 125 - k" using x0 up by (intro excess_le) simp_all
  have "(2::rat) ^ (23 + (125 - k)) < 2 ^ (24 + excess ?y)"
    using lo excess_upper [of ?y] x0 by (simp add: order_le_less_trans)
  then have "23 + (125 - k) < 24 + excess ?y"
    using power_strict_increasing_iff [of "2::rat"] by simp
  with le have e: "excess ?y = 125 - k" by simp
  have "rnd32 x = of_int (round_even (x * 2 ^ (24 + k) * 2 ^ (125 - k) / 2 ^ (125 - k))) * 2 ^ (125 - k) / 2 ^ 149"
    unfolding rnd32_nonneg [OF x0] rnd_scaled_def e by (simp only: split mult.assoc)
  also have "\<dots> = of_int (round_even (x * 2 ^ (24 + k))) / 2 ^ (24 + k)"
    unfolding split by simp
  finally show ?thesis .
qed

text \<open>For a representable \<open>c\<close> in the upper half of the interval, \<open>1 - c\<close> is exact.\<close>

lemma rnd32_upper_half:
  assumes "rnd32 c = c" and "1 / 2 \<le> c" and "c \<le> 1"
  shows "\<exists>M. c = of_int M / 2 ^ 24 \<and> 0 \<le> M \<and> M \<le> 2 ^ 24"
proof -
  let ?y = "c * 2 ^ 149"
  have c0: "0 \<le> c" using assms(2) by linarith
  have eq: "rnd_scaled ?y = ?y"
    using assms(1) c0 by (simp add: rnd32_nonneg field_simps)
  have "125 \<le> excess ?y"
  proof -
    have "(2::rat) ^ 148 = 1 / 2 * 2 ^ 149" by simp
    also have "\<dots> \<le> ?y" using assms(2) by (intro mult_right_mono) simp_all
    finally have lo: "2 ^ 148 \<le> ?y" .
    have "(2::rat) ^ 148 < 2 ^ (24 + excess ?y)" using lo excess_upper [of ?y] c0 by (simp add: order_le_less_trans)
    then have "148 < 24 + excess ?y" using power_strict_increasing_iff [of "2::rat" 148 "24 + excess ?y"] by simp
    then show ?thesis by simp
  qed
  then obtain d where d: "excess ?y = 125 + d" using le_Suc_ex by blast
  define R where "R = round_even (?y / 2 ^ excess ?y)"
  have "c * 2 ^ 149 = of_int R * 2 ^ d * 2 ^ 125"
    using eq [unfolded rnd_scaled_def, folded R_def] by (simp only: d power_add mult_ac)
  then have "c * (2 ^ 24 * 2 ^ 125) = of_int R * 2 ^ d * 2 ^ 125" by (simp flip: power_add)
  then have "c * 2 ^ 24 = of_int R * 2 ^ d" by simp
  then have c: "c * 2 ^ 24 = of_int (R * 2 ^ d)" by simp
  have "0 \<le> (of_int (R * 2 ^ d) :: rat)" using c0 unfolding c [symmetric] by simp
  moreover have "(of_int (R * 2 ^ d) :: rat) \<le> of_int (2 ^ 24)" using assms(3) unfolding c [symmetric] by simp
  ultimately have "0 \<le> R * 2 ^ d" "R * 2 ^ d \<le> 2 ^ 24" by (simp_all only: of_int_0_le_iff of_int_le_iff)
  with c show ?thesis by (intro exI [of _ "R * 2 ^ d"]) (simp add: eq_divide_eq)
qed

lemma rnd32_one_minus:
  assumes "rnd32 c = c" and "1 / 2 \<le> c" and "c \<le> 1"
  shows "rnd32 (1 - c) = 1 - c"
proof -
  obtain M where M: "c = of_int M / 2 ^ 24" "0 \<le> M" "M \<le> 2 ^ 24"
    using rnd32_upper_half [OF assms] by blast
  have "1 - c = of_int (2 ^ 24 - M) / 2 ^ 24" using M(1) by (simp add: field_simps)
  moreover have "rnd32 (of_int (2 ^ 24 - M) / 2 ^ 24) = of_int (2 ^ 24 - M) / 2 ^ 24"
    using M(2,3) by (intro rnd32_exact) simp_all
  ultimately show ?thesis by (simp only:)
qed

section \<open>Values and operations\<close>

datatype f32 = NaN | Inf bool | Fin rat \<comment> \<open>\<open>Inf True\<close> is negative infinity\<close>

definition f32_fit :: "rat \<Rightarrow> f32" where
  "f32_fit r = (if 2 ^ 128 \<le> r then Inf False else if r \<le> - (2 ^ 128) then Inf True else Fin r)"

definition f32_lit :: "rat \<Rightarrow> f32" where
  "f32_lit q = Fin (rnd32 q)"

fun f32_sub :: "f32 \<Rightarrow> f32 \<Rightarrow> f32" where
  "f32_sub (Fin a) (Fin b) = f32_fit (rnd32 (a - b))"
| "f32_sub (Inf s) (Fin b) = Inf s"
| "f32_sub (Fin a) (Inf t) = Inf (\<not> t)"
| "f32_sub (Inf s) (Inf t) = (if s = t then NaN else Inf s)"
| "f32_sub _ _ = NaN"

fun f32_mul :: "f32 \<Rightarrow> f32 \<Rightarrow> f32" where
  "f32_mul (Fin a) (Fin b) = f32_fit (rnd32 (a * b))"
| "f32_mul (Inf s) (Fin b) = (if b = 0 then NaN else Inf (s \<noteq> (b < 0)))"
| "f32_mul (Fin a) (Inf t) = (if a = 0 then NaN else Inf (t \<noteq> (a < 0)))"
| "f32_mul (Inf s) (Inf t) = Inf (s \<noteq> t)"
| "f32_mul _ _ = NaN"

fun f32_lt :: "f32 \<Rightarrow> f32 \<Rightarrow> bool" where
  "f32_lt (Fin a) (Fin b) = (a < b)"
| "f32_lt (Inf s) (Fin b) = s"
| "f32_lt (Fin a) (Inf t) = (\<not> t)"
| "f32_lt (Inf s) (Inf t) = (s \<and> \<not> t)"
| "f32_lt _ _ = False"

fun f32_le :: "f32 \<Rightarrow> f32 \<Rightarrow> bool" where
  "f32_le (Fin a) (Fin b) = (a \<le> b)"
| "f32_le (Inf s) (Fin b) = s"
| "f32_le (Fin a) (Inf t) = (\<not> t)"
| "f32_le (Inf s) (Inf t) = (s \<or> \<not> t)"
| "f32_le _ _ = False"

definition f32_is_finite :: "f32 \<Rightarrow> bool" where
  "f32_is_finite v \<longleftrightarrow> (case v of Fin _ \<Rightarrow> True | _ \<Rightarrow> False)"

text \<open>A value of the unit interval that \<open>f32\<close> can represent.\<close>

definition f32_unit :: "f32 \<Rightarrow> bool" where
  "f32_unit v \<longleftrightarrow> (case v of Fin q \<Rightarrow> 0 \<le> q \<and> q \<le> 1 \<and> rnd32 q = q | _ \<Rightarrow> False)"

lemma f32_unitE:
  assumes "f32_unit v" obtains q where "v = Fin q" "0 \<le> q" "q \<le> 1" "rnd32 q = q"
  using assms by (auto simp: f32_unit_def split: f32.splits)

lemma f32_unit_lit: "0 \<le> q \<Longrightarrow> q \<le> 1 \<Longrightarrow> f32_unit (f32_lit q)"
  using f32r.unit_interval [of q] rnd32_idem [of q] by (simp add: f32_unit_def f32_lit_def)

lemma f32_fit_unit [simp]: "0 \<le> r \<Longrightarrow> r \<le> 1 \<Longrightarrow> f32_fit r = Fin r"
  by (simp add: f32_fit_def)

lemma f32_sub_unit [simp]:
  "0 \<le> a - b \<Longrightarrow> a - b \<le> 1 \<Longrightarrow> f32_sub (Fin a) (Fin b) = Fin (rnd32 (a - b))"
  using f32r.unit_interval [of "a - b"] by simp

lemma f32_mul_unit [simp]:
  "0 \<le> a * b \<Longrightarrow> a * b \<le> 1 \<Longrightarrow> f32_mul (Fin a) (Fin b) = Fin (rnd32 (a * b))"
  using f32r.unit_interval [of "a * b"] by simp

lemma f32_lt_iff: "f32_lt (Fin a) v \<Longrightarrow> \<not> f32_le v (Fin a)"
  by (cases v) auto

end
