(* ===== verification/Rust_Str.thy ===== *)
theory Rust_Str
  imports Prelude
begin

text \<open>
  Rust's \<open>str\<close> and \<open>String\<close>, as the sources use them. A string is the list of its UTF-8 bytes
  (\<^typ>\<open>char\<close> is a byte), so \<open>len\<close> is \<^const>\<open>length\<close> and every offset is a byte offset, as in Rust.
  The theory defines \<open>find\<close>, \<open>contains\<close>, \<open>rfind\<close>, \<open>split_once\<close>, \<open>lines\<close>, \<open>trim\<close>,
  \<open>split_whitespace\<close>, \<open>is_char_boundary\<close>, decimal printing and \<open>parse\<close>, and proves the facts about them
  that the components rest on.
\<close>

abbreviation NL :: char where "NL \<equiv> CHR 0x0A"
abbreviation CR :: char where "CR \<equiv> CHR 0x0D"
abbreviation TAB :: char where "TAB \<equiv> CHR 0x09"
abbreviation byte_of :: "char \<Rightarrow> nat" where "byte_of c \<equiv> of_char c"

section \<open>Searching\<close>

fun str_find :: "string \<Rightarrow> string \<Rightarrow> nat option" where
  "str_find needle [] = (if needle = [] then Some 0 else None)"
| "str_find needle (c # cs) =
     (if prefix needle (c # cs) then Some 0 else map_option Suc (str_find needle cs))"

definition str_contains :: "string \<Rightarrow> string \<Rightarrow> bool" where
  "str_contains needle hay \<longleftrightarrow> str_find needle hay \<noteq> None"

definition starts_with :: "string \<Rightarrow> string \<Rightarrow> bool" where
  "starts_with p s \<longleftrightarrow> prefix p s"

definition ends_with :: "string \<Rightarrow> string \<Rightarrow> bool" where
  "ends_with p s \<longleftrightarrow> suffix p s"

definition split_once :: "string \<Rightarrow> string \<Rightarrow> (string \<times> string) option" where
  "split_once sep s =
     (case str_find sep s of None \<Rightarrow> None | Some i \<Rightarrow> Some (take i s, drop (i + length sep) s))"

fun find_char :: "(char \<Rightarrow> bool) \<Rightarrow> string \<Rightarrow> nat option" where
  "find_char P [] = None"
| "find_char P (c # cs) = (if P c then Some 0 else map_option Suc (find_char P cs))"

fun rfind_char :: "(char \<Rightarrow> bool) \<Rightarrow> string \<Rightarrow> nat option" where
  "rfind_char P [] = None"
| "rfind_char P (c # cs) =
     (case rfind_char P cs of Some i \<Rightarrow> Some (Suc i) | None \<Rightarrow> if P c then Some 0 else None)"

lemma str_find_Some:
  "str_find n s = Some i \<Longrightarrow> i + length n \<le> length s \<and> take (length n) (drop i s) = n"
proof (induction s arbitrary: i)
  case Nil
  then show ?case by (auto split: if_splits)
next
  case (Cons c cs)
  show ?case
  proof (cases "prefix n (c # cs)")
    case True
    then show ?thesis using Cons.prems prefix_length_le [OF True] by (auto simp: prefix_def)
  next
    case False
    then show ?thesis using Cons by auto
  qed
qed

lemma str_find_None: "str_find n s = None \<longleftrightarrow> \<not> sublist n s"
  by (induction s) (auto simp: sublist_Cons_right)

lemma str_contains_sublist: "str_contains n s \<longleftrightarrow> sublist n s"
  by (simp add: str_contains_def str_find_None)

lemma str_find_first:
  assumes "str_find n s = Some i" and "j < i"
  shows "\<not> prefix n (drop j s)"
  using assms
proof (induction s arbitrary: i j)
  case Nil
  then show ?case by (auto split: if_splits)
next
  case (Cons c cs)
  then show ?case by (cases j) (auto split: if_splits)
qed

lemma str_find_append:
  assumes "n \<noteq> []" and "\<And>j. j < length a \<Longrightarrow> \<not> prefix n (drop j (a @ n @ b))"
  shows "str_find n (a @ n @ b) = Some (length a)"
  using assms(2)
proof (induction a)
  case Nil
  then show ?case using assms(1) by (cases n) (auto simp: prefix_def)
next
  case (Cons c cs)
  have "\<not> prefix n ((c # cs) @ n @ b)" using Cons.prems[of 0] by simp
  moreover have "str_find n (cs @ n @ b) = Some (length cs)"
    by (rule Cons.IH) (use Cons.prems[of "Suc j" for j] in auto)
  ultimately show ?case by simp
qed

lemma str_contains_Cons:
  "str_contains n (c # cs) \<longleftrightarrow> prefix n (c # cs) \<or> str_contains n cs"
  by (simp add: str_contains_def)

lemma str_contains_prefix_free:
  "\<not> str_contains n s \<Longrightarrow> \<not> prefix n (drop j s)"
  unfolding str_contains_sublist
  by (meson prefix_imp_sublist sublist_drop sublist_order.order_trans)

lemma find_char_Some: "find_char P s = Some i \<Longrightarrow> i < length s \<and> P (s ! i) \<and> (\<forall>c\<in>set (take i s). \<not> P c)"
  by (induction s arbitrary: i) (auto split: if_splits)

lemma find_char_None: "find_char P s = None \<longleftrightarrow> (\<forall>c\<in>set s. \<not> P c)"
  by (induction s) auto

lemma rfind_char_Some: "rfind_char P s = Some i \<Longrightarrow> i < length s \<and> P (s ! i)"
  by (induction s arbitrary: i) (auto split: option.splits if_splits)

lemma rfind_char_None: "rfind_char P s = None \<longleftrightarrow> (\<forall>c\<in>set s. \<not> P c)"
  by (induction s) (auto split: option.splits)

lemma rfind_char_last: "rfind_char P s = Some i \<Longrightarrow> \<forall>c\<in>set (drop (Suc i) s). \<not> P c"
  by (induction s arbitrary: i) (auto split: option.splits if_splits simp: rfind_char_None)

section \<open>Lines\<close>

text \<open>
  \<open>str::lines\<close>: every line ends with a line feed, which is dropped together with a carriage return
  right before it; a last line without a line feed counts when it is not empty and keeps a final
  carriage return.
\<close>

definition strip_cr :: "string \<Rightarrow> string" where
  "strip_cr l = (if l \<noteq> [] \<and> last l = CR then butlast l else l)"

fun split_nl :: "string \<Rightarrow> string list" where
  "split_nl [] = [[]]"
| "split_nl (c # cs) =
     (if c = NL then [] # split_nl cs
      else (case split_nl cs of [] \<Rightarrow> [[c]] | l # ls \<Rightarrow> (c # l) # ls))"

definition str_lines :: "string \<Rightarrow> string list" where
  "str_lines s =
     (let parts = split_nl s
      in map strip_cr (butlast parts) @ (if last parts = [] then [] else [last parts]))"

lemma split_nl_not_Nil [simp]: "split_nl s \<noteq> []"
  by (cases s) (auto split: list.splits)

lemma split_nl_append_NL: "NL \<notin> set l \<Longrightarrow> split_nl (l @ NL # rest) = l # split_nl rest"
  by (induction l) auto

lemma str_lines_Nil [simp]: "str_lines [] = []"
  by (simp add: str_lines_def)

lemma str_lines_append_NL:
  assumes "NL \<notin> set l"
  shows "str_lines (l @ NL # rest) = strip_cr l # str_lines rest"
  by (simp add: str_lines_def split_nl_append_NL [OF assms] Let_def)

lemma str_lines_concat:
  assumes "\<And>l. l \<in> set ls \<Longrightarrow> NL \<notin> set l \<and> strip_cr l = l"
  shows "str_lines (concat (map (\<lambda>l. l @ [NL]) ls) @ rest) = ls @ str_lines rest"
  using assms by (induction ls) (auto simp: str_lines_append_NL)

lemma strip_cr_id: "l = [] \<or> last l \<noteq> CR \<Longrightarrow> strip_cr l = l"
  by (auto simp: strip_cr_def)

lemma split_nl_no_NL: "l \<in> set (split_nl s) \<Longrightarrow> NL \<notin> set l"
proof (induction s arbitrary: l)
  case Nil
  then show ?case by simp
next
  case (Cons c cs)
  then show ?case by (auto split: if_splits list.splits)
qed

lemma set_strip_cr: "set (strip_cr l) \<subseteq> set l"
  by (auto simp: strip_cr_def dest: in_set_butlastD)

lemma str_lines_no_NL:
  assumes "l \<in> set (str_lines s)"
  shows "NL \<notin> set l"
proof -
  from assms consider m where "m \<in> set (split_nl s)" "l = strip_cr m" | "l \<in> set (split_nl s)"
    by (auto simp: str_lines_def Let_def split: if_splits dest: in_set_butlastD)
  then show ?thesis
    using set_strip_cr split_nl_no_NL by cases blast+
qed

section \<open>White space\<close>

text \<open>
  The characters with Unicode's \<open>White_Space\<close> property as UTF-8. In valid UTF-8 a byte string
  starts (ends) with one of these encodings exactly when its first (last) character is white space.
\<close>

definition ws_chars :: "string list" where
  "ws_chars =
     [[CHR 0x09], [CHR 0x0A], [CHR 0x0B], [CHR 0x0C], [CHR 0x0D], [CHR 0x20],
      [CHR 0xC2, CHR 0x85], [CHR 0xC2, CHR 0xA0], [CHR 0xE1, CHR 0x9A, CHR 0x80],
      [CHR 0xE2, CHR 0x80, CHR 0x80], [CHR 0xE2, CHR 0x80, CHR 0x81], [CHR 0xE2, CHR 0x80, CHR 0x82],
      [CHR 0xE2, CHR 0x80, CHR 0x83], [CHR 0xE2, CHR 0x80, CHR 0x84], [CHR 0xE2, CHR 0x80, CHR 0x85],
      [CHR 0xE2, CHR 0x80, CHR 0x86], [CHR 0xE2, CHR 0x80, CHR 0x87], [CHR 0xE2, CHR 0x80, CHR 0x88],
      [CHR 0xE2, CHR 0x80, CHR 0x89], [CHR 0xE2, CHR 0x80, CHR 0x8A], [CHR 0xE2, CHR 0x80, CHR 0xA8],
      [CHR 0xE2, CHR 0x80, CHR 0xA9], [CHR 0xE2, CHR 0x80, CHR 0xAF], [CHR 0xE2, CHR 0x81, CHR 0x9F],
      [CHR 0xE3, CHR 0x80, CHR 0x80]]"

definition ws_prefix :: "string \<Rightarrow> nat" where
  "ws_prefix s = (case find (\<lambda>w. prefix w s) ws_chars of None \<Rightarrow> 0 | Some w \<Rightarrow> length w)"

definition ws_suffix :: "string \<Rightarrow> nat" where
  "ws_suffix s = (case find (\<lambda>w. suffix w s) ws_chars of None \<Rightarrow> 0 | Some w \<Rightarrow> length w)"

lemma ws_chars_nonempty: "w \<in> set ws_chars \<Longrightarrow> w \<noteq> []"
  by (auto simp: ws_chars_def)

lemma ws_prefix_le: "ws_prefix s \<le> length s"
  by (auto simp: ws_prefix_def find_Some_iff prefix_length_le split: option.splits)

lemma ws_suffix_le: "ws_suffix s \<le> length s"
  by (auto simp: ws_suffix_def find_Some_iff suffix_length_le split: option.splits)

lemma ws_prefix_0: "ws_prefix s = 0 \<longleftrightarrow> (\<forall>w\<in>set ws_chars. \<not> prefix w s)"
  by (auto simp: ws_prefix_def find_None_iff find_Some_iff split: option.splits)
     (metis length_0_conv nth_mem ws_chars_nonempty)+

lemma ws_suffix_0: "ws_suffix s = 0 \<longleftrightarrow> (\<forall>w\<in>set ws_chars. \<not> suffix w s)"
  by (auto simp: ws_suffix_def find_None_iff find_Some_iff split: option.splits)
     (metis length_0_conv nth_mem ws_chars_nonempty)+

lemma ws_prefix_less: "0 < ws_prefix s \<Longrightarrow> length s - ws_prefix s < length s"
  using ws_prefix_le [of s] by simp

lemma ws_suffix_less: "0 < ws_suffix s \<Longrightarrow> length s - ws_suffix s < length s"
  using ws_suffix_le [of s] by simp

function trim_start :: "string \<Rightarrow> string" where
  "trim_start s = (if ws_prefix s = 0 then s else trim_start (drop (ws_prefix s) s))"
  by pat_completeness auto
termination
  by (relation "measure length") (auto intro: ws_prefix_less)

function trim_end :: "string \<Rightarrow> string" where
  "trim_end s = (if ws_suffix s = 0 then s else trim_end (take (length s - ws_suffix s) s))"
  by pat_completeness auto
termination
  by (relation "measure length") (auto intro: ws_suffix_less)

declare trim_start.simps [simp del] trim_end.simps [simp del]

definition str_trim :: "string \<Rightarrow> string" where
  "str_trim s = trim_end (trim_start s)"

lemma trim_start_suffix: "suffix (trim_start s) s"
proof (induction s rule: trim_start.induct)
  case (1 s)
  then show ?case
    by (subst trim_start.simps) (auto intro: suffix_order.trans suffix_drop)
qed

lemma trim_end_prefix: "prefix (trim_end s) s"
proof (induction s rule: trim_end.induct)
  case (1 s)
  then show ?case
    by (subst trim_end.simps) (auto intro: prefix_order.trans take_is_prefix)
qed

lemma ws_prefix_trim_start: "ws_prefix (trim_start s) = 0"
proof (induction s rule: trim_start.induct)
  case (1 s)
  then show ?case by (cases "ws_prefix s = 0") (simp_all add: trim_start.simps [of s])
qed

lemma ws_suffix_trim_end: "ws_suffix (trim_end s) = 0"
proof (induction s rule: trim_end.induct)
  case (1 s)
  then show ?case by (cases "ws_suffix s = 0") (simp_all add: trim_end.simps [of s])
qed

lemma ws_prefix_mono: "prefix a b \<Longrightarrow> ws_prefix b = 0 \<Longrightarrow> ws_prefix a = 0"
  unfolding ws_prefix_0 by (meson prefix_order.trans)

lemma trim_start_id: "ws_prefix s = 0 \<Longrightarrow> trim_start s = s"
  by (simp add: trim_start.simps)

lemma trim_end_id: "ws_suffix s = 0 \<Longrightarrow> trim_end s = s"
  by (simp add: trim_end.simps)

lemma str_trim_ws: "ws_prefix (str_trim s) = 0" "ws_suffix (str_trim s) = 0"
  using ws_prefix_mono [OF trim_end_prefix ws_prefix_trim_start] ws_suffix_trim_end
  by (simp_all add: str_trim_def)

lemma str_trim_id_iff: "str_trim s = s \<longleftrightarrow> ws_prefix s = 0 \<and> ws_suffix s = 0"
  by (metis str_trim_def str_trim_ws trim_end_id trim_start_id)

lemma str_trim_idem [simp]: "str_trim (str_trim s) = str_trim s"
  by (simp add: str_trim_id_iff str_trim_ws)

lemma str_trim_Nil [simp]: "str_trim [] = []"
  by (simp add: str_trim_id_iff ws_prefix_0 ws_suffix_0 ws_chars_def)

lemma str_trim_sublist: "sublist (str_trim s) s"
  by (metis str_trim_def trim_start_suffix trim_end_prefix prefix_imp_sublist suffix_imp_sublist
      sublist_order.order_trans)

lemma set_str_trim: "set (str_trim s) \<subseteq> set s"
  using str_trim_sublist set_mono_sublist by blast

lemma str_trim_length: "length (str_trim s) \<le> length s"
  using str_trim_sublist sublist_length_le by blast

function split_ws :: "string \<Rightarrow> string \<Rightarrow> string list" where
  "split_ws cur [] = (if cur = [] then [] else [cur])"
| "split_ws cur (c # cs) =
     (if ws_prefix (c # cs) = 0 then split_ws (cur @ [c]) cs
      else (if cur = [] then [] else [cur]) @ split_ws [] (drop (ws_prefix (c # cs)) (c # cs)))"
  by pat_completeness auto
termination
  by (relation "measure (length \<circ> snd)") (use ws_prefix_le in \<open>auto simp: Suc_le_eq\<close>)

definition split_whitespace :: "string \<Rightarrow> string list" where
  "split_whitespace s = split_ws [] s"

lemma split_ws_nonempty: "t \<in> set (split_ws cur s) \<Longrightarrow> t \<noteq> []"
  by (induction cur s rule: split_ws.induct) (auto split: if_splits)

lemma split_whitespace_nonempty: "t \<in> set (split_whitespace s) \<Longrightarrow> t \<noteq> []"
  by (simp add: split_whitespace_def split_ws_nonempty)

section \<open>Decimal numbers\<close>

definition digit_char :: "nat \<Rightarrow> char" where
  "digit_char d = char_of (48 + d)"

definition is_digit :: "char \<Rightarrow> bool" where
  "is_digit c \<longleftrightarrow> 48 \<le> byte_of c \<and> byte_of c \<le> (57::nat)"

fun show_nat :: "nat \<Rightarrow> string" where
  "show_nat n = (if n < 10 then [digit_char n] else show_nat (n div 10) @ [digit_char (n mod 10)])"

declare show_nat.simps [simp del]

fun digits_val :: "nat \<Rightarrow> string \<Rightarrow> nat option" where
  "digits_val acc [] = Some acc"
| "digits_val acc (c # cs) = (if is_digit c then digits_val (10 * acc + (byte_of c - 48)) cs else None)"

text \<open>
  \<open>str::parse\<close> at an unsigned type of \<open>w\<close> bits: an optional plus sign, then at least one digit,
  and the value must fit.
\<close>

definition parse_uint :: "nat \<Rightarrow> string \<Rightarrow> nat option" where
  "parse_uint w s =
     (let ds = (case s of [] \<Rightarrow> [] | c # cs \<Rightarrow> if c = CHR ''+'' then cs else s)
      in if ds = [] then None
         else (case digits_val 0 ds of None \<Rightarrow> None | Some n \<Rightarrow> if n < 2 ^ w then Some n else None))"

lemma byte_of_digit_char: "d < 10 \<Longrightarrow> byte_of (digit_char d) = 48 + d"
  by (simp add: digit_char_def)

lemma is_digit_digit_char: "d < 10 \<Longrightarrow> is_digit (digit_char d)"
  by (simp add: is_digit_def byte_of_digit_char)

lemma digits_val_append:
  "digits_val acc (xs @ ys) = (case digits_val acc xs of None \<Rightarrow> None | Some a \<Rightarrow> digits_val a ys)"
  by (induction xs arbitrary: acc) auto

lemma digits_val_show_nat: "digits_val 0 (show_nat n) = Some n"
proof (induction n rule: show_nat.induct)
  case (1 n)
  show ?case
  proof (cases "n < 10")
    case True
    then show ?thesis by (simp add: show_nat.simps is_digit_digit_char byte_of_digit_char)
  next
    case False
    with 1 show ?thesis
      by (simp add: show_nat.simps [of n] digits_val_append is_digit_digit_char byte_of_digit_char)
  qed
qed

lemma show_nat_digits: "c \<in> set (show_nat n) \<Longrightarrow> is_digit c"
proof (induction n rule: show_nat.induct)
  case (1 n)
  then show ?case
    by (cases "n < 10") (auto simp: show_nat.simps [of n] is_digit_digit_char)
qed

lemma show_nat_not_Nil [simp]: "show_nat n \<noteq> []"
  by (subst show_nat.simps) simp

lemma show_nat_inj: "show_nat m = show_nat n \<longleftrightarrow> m = n"
  by (metis digits_val_show_nat option.inject)

lemma not_digits: "\<not> is_digit CHR ''+''" "\<not> is_digit CHR ''.''" "\<not> is_digit CHR '' ''" "\<not> is_digit NL"
  "\<not> is_digit CHR ''#''"
  by (simp_all add: is_digit_def)

lemma parse_uint_show_nat: "n < 2 ^ w \<Longrightarrow> parse_uint w (show_nat n) = Some n"
proof -
  assume n: "n < 2 ^ w"
  obtain c cs where s: "show_nat n = c # cs" using show_nat_not_Nil by (cases "show_nat n") auto
  then have "c \<noteq> CHR ''+''" using show_nat_digits [of c n] not_digits(1) by auto
  with s n show ?thesis
    using digits_val_show_nat [of n] by (simp add: parse_uint_def)
qed

definition show_u32 :: "u32 \<Rightarrow> string" where
  "show_u32 w = show_nat (unat w)"

lemma show_u32_inj: "show_u32 a = show_u32 b \<longleftrightarrow> a = b"
  by (simp add: show_u32_def show_nat_inj word_unat_eq_iff)

lemma parse_uint_show_u32: "parse_uint 32 (show_u32 a) = Some (unat a)"
  using unsigned_less [where 'a = nat, of a] by (simp add: show_u32_def parse_uint_show_nat)

section \<open>UTF-8\<close>

definition cont :: "char \<Rightarrow> bool" where
  "cont c \<longleftrightarrow> 0x80 \<le> byte_of c \<and> byte_of c < (0xC0::nat)"

text \<open>The length of the well-formed character a byte string starts with, 0 if there is none.\<close>

definition utf8_len :: "string \<Rightarrow> nat" where
  "utf8_len s =
     (case s of [] \<Rightarrow> 0
      | a # r \<Rightarrow>
        (let b = byte_of a in
         if b < (0x80::nat) then 1
         else if 0xC2 \<le> b \<and> b \<le> 0xDF then
           (case r of c1 # _ \<Rightarrow> if cont c1 then 2 else 0 | _ \<Rightarrow> 0)
         else if 0xE0 \<le> b \<and> b \<le> 0xEF then
           (case r of c1 # c2 # _ \<Rightarrow>
              if cont c1 \<and> cont c2 \<and> (b = 0xE0 \<longrightarrow> (0xA0::nat) \<le> byte_of c1)
                 \<and> (b = 0xED \<longrightarrow> byte_of c1 \<le> (0x9F::nat)) then 3 else 0
            | _ \<Rightarrow> 0)
         else if 0xF0 \<le> b \<and> b \<le> 0xF4 then
           (case r of c1 # c2 # c3 # _ \<Rightarrow>
              if cont c1 \<and> cont c2 \<and> cont c3 \<and> (b = 0xF0 \<longrightarrow> (0x90::nat) \<le> byte_of c1)
                 \<and> (b = 0xF4 \<longrightarrow> byte_of c1 \<le> (0x8F::nat)) then 4 else 0
            | _ \<Rightarrow> 0)
         else 0))"

lemma utf8_len_le: "utf8_len s \<le> length s"
  by (auto simp: utf8_len_def Let_def split: list.splits)

lemma utf8_len_less: "0 < utf8_len s \<Longrightarrow> length s - utf8_len s < length s"
  using utf8_len_le [of s] by simp

function utf8_valid :: "string \<Rightarrow> bool" where
  "utf8_valid s =
     (if s = [] then True else if utf8_len s = 0 then False else utf8_valid (drop (utf8_len s) s))"
  by pat_completeness auto
termination
  by (relation "measure length") (auto intro: utf8_len_less)

declare utf8_valid.simps [simp del]

lemma utf8_valid_Nil [simp]: "utf8_valid []"
  by (subst utf8_valid.simps) simp

lemma utf8_len_Nil [simp]: "utf8_len [] = 0"
  by (simp add: utf8_len_def)

lemma utf8_len_le4: "utf8_len s \<le> 4"
  by (auto simp: utf8_len_def Let_def split: list.splits)

lemma utf8_len_cont123:
  "1 < utf8_len s \<Longrightarrow> cont (s ! 1)" "2 < utf8_len s \<Longrightarrow> cont (s ! 2)" "3 < utf8_len s \<Longrightarrow> cont (s ! 3)"
  by (auto simp: utf8_len_def Let_def split: list.splits if_splits)

lemma utf8_len_cont:
  assumes "j < utf8_len s" and "0 < j"
  shows "cont (s ! j)"
proof -
  from assms utf8_len_le4 [of s] have "j = 1 \<or> j = 2 \<or> j = 3" by linarith
  with assms utf8_len_cont123 show ?thesis by auto
qed

lemma utf8_len_take:
  assumes "0 < utf8_len s"
  shows "utf8_len (take (utf8_len s) s @ t) = utf8_len s"
proof -
  from assms obtain a r where s: "s = a # r" by (cases s) auto
  from assms utf8_len_le4 [of s] consider "utf8_len s = 1" | "utf8_len s = 2" | "utf8_len s = 3" | "utf8_len s = 4"
    by linarith
  then show ?thesis
  proof cases
    case 1
    then show ?thesis using s by (auto simp: utf8_len_def Let_def split: list.splits if_splits)
  next
    case 2
    then obtain b r' where "s = a # b # r'"
      using s utf8_len_le [of s] by (cases r) auto
    with 2 show ?thesis by (simp add: utf8_len_def Let_def split: if_splits list.splits)
  next
    case 3
    then obtain b c r' where "s = a # b # c # r'"
      using s utf8_len_le [of s] by (cases r; cases "tl r") auto
    with 3 show ?thesis by (simp add: utf8_len_def Let_def split: if_splits list.splits)
  next
    case 4
    then obtain b c d r' where "s = a # b # c # d # r'"
      using s utf8_len_le [of s] by (cases r; cases "tl r"; cases "tl (tl r)") auto
    with 4 show ?thesis by (simp add: utf8_len_def Let_def split: if_splits list.splits)
  qed
qed

lemma utf8_len_ascii: "byte_of a < (0x80::nat) \<Longrightarrow> utf8_len (a # s) = 1"
  by (simp add: utf8_len_def)

lemma utf8_valid_ascii: "byte_of a < (0x80::nat) \<Longrightarrow> utf8_valid (a # s) \<longleftrightarrow> utf8_valid s"
  by (subst utf8_valid.simps) (simp add: utf8_len_ascii)

definition is_char_boundary :: "string \<Rightarrow> nat \<Rightarrow> bool" where
  "is_char_boundary s i \<longleftrightarrow> i = 0 \<or> i = length s \<or> (i < length s \<and> \<not> cont (s ! i))"

fun boundary_down :: "string \<Rightarrow> nat \<Rightarrow> nat" where
  "boundary_down s 0 = 0"
| "boundary_down s (Suc e) = (if is_char_boundary s (Suc e) then Suc e else boundary_down s e)"

lemma boundary_down_le: "boundary_down s e \<le> e"
  by (induction e) auto

lemma boundary_down_ok: "is_char_boundary s (boundary_down s e)"
  by (induction e) (auto simp: is_char_boundary_def)

lemma boundary_down_greatest:
  "i \<le> e \<Longrightarrow> is_char_boundary s i \<Longrightarrow> i \<le> boundary_down s e"
  by (induction e) (auto simp: le_Suc_eq)

lemma utf8_valid_split:
  "utf8_valid s \<Longrightarrow> is_char_boundary s i \<Longrightarrow> i \<le> length s \<Longrightarrow> utf8_valid (take i s) \<and> utf8_valid (drop i s)"
proof (induction s arbitrary: i rule: utf8_valid.induct)
  case (1 s)
  let ?k = "utf8_len s"
  show ?case
  proof (cases "s = [] \<or> i = 0")
    case True
    with 1 show ?thesis by auto
  next
    case False
    with "1.prems" have k: "0 < ?k" "utf8_valid (drop ?k s)" by (auto simp: utf8_valid.simps [of s] split: if_splits)
    have ge: "?k \<le> i"
      using "1.prems"(2,3) False utf8_len_cont [of i s] utf8_len_le [of s]
      by (auto simp: is_char_boundary_def not_less [symmetric])
    have "is_char_boundary (drop ?k s) (i - ?k)"
      using "1.prems"(2,3) ge by (auto simp: is_char_boundary_def)
    then have IH: "utf8_valid (take (i - ?k) (drop ?k s)) \<and> utf8_valid (drop (i - ?k) (drop ?k s))"
      using "1.IH" [of "i - ?k"] "1.prems"(3) k False ge by simp
    have split: "take i s = take ?k s @ take (i - ?k) (drop ?k s)"
      using ge by (metis le_add_diff_inverse take_add)
    have len: "length (take ?k s) = ?k" using utf8_len_le [of s] by simp
    have "utf8_valid (take i s)"
      unfolding split
      by (subst utf8_valid.simps) (use k(1) len IH in \<open>auto simp: utf8_len_take\<close>)
    moreover have "utf8_valid (drop i s)" using IH ge by simp
    ultimately show ?thesis by simp
  qed
qed

end
