(* ===== verification/Protocol.thy ===== *)
theory Protocol
  imports F32 Rust_Str
begin

text \<open>
  The data of the daemon's protocol (\<open>protocol.rs\<close>) and the types its components exchange:
  requests, responses, verdicts, threat levels and metrics counters. Text that only serves as an
  explanation in an error response is a value of \<open>message\<close>, one constructor per \<open>format!\<close> of the
  sources with its arguments; text that the daemon computes with (\<open>reason\<close>, \<open>matched\<close>, atoms, hosts)
  is a byte string.
\<close>

section \<open>Enumerations\<close>

datatype ThreatLevel = Low | High | Critical

datatype Verdict = Safe | Warn | Block

datatype Category = NoCategory | CurlPipeSh | NpmUnsafeInstall | BashCBase64 | PidHighThreat

datatype AtomScope = SystemScope | FetchedScope | UserScope | SessionScope

datatype ListScope = Persistent | SessionList

datatype UrlDecision = Allow | BlockUrl | SessionAllow | SessionBlock

datatype SecurityProfile = Prompt | Audit | Session | Strict | Lockdown | Smart

section \<open>Records\<close>

record classify_result =
  verdict :: Verdict
  category :: Category
  confidence :: f32
  reason :: string
  matched :: string

record classify_context =
  ctx_pid :: "u32 option"
  ctx_shell :: "string option"
  ctx_incognito :: bool

record metrics_counters =
  commands :: u64
  ghost_accepted :: u64
  ghost_shown :: u64
  keystrokes_saved :: u64
  llm_calls :: u64
  guard_warn :: u64
  guard_block :: u64
  guard_refused :: u64

record instance_info =
  ii_uid :: u32
  ii_pid :: u32
  ii_cwd :: string
  ii_shell :: string
  ii_incognito :: bool
  ii_last_seen_ms :: u64
  ii_counters :: metrics_counters

record guard_posture =
  gp_profile :: string
  gp_ebpf :: string
  gp_enforcement :: string
  gp_atoms_version :: string
  gp_deny_path :: u32
  gp_deny_basename :: u32
  gp_features :: "string list"

record drift_entry =
  de_name :: string
  de_pinned :: "string option"
  de_upstream :: "string option"
  de_behind_since :: "string option"

definition counters_default :: metrics_counters where
  "counters_default =
     \<lparr>commands = 0, ghost_accepted = 0, ghost_shown = 0, keystrokes_saved = 0, llm_calls = 0,
      guard_warn = 0, guard_block = 0, guard_refused = 0\<rparr>"

definition counters_add :: "metrics_counters \<Rightarrow> metrics_counters \<Rightarrow> metrics_counters" where
  "counters_add a b =
     \<lparr>commands = sat_add64 (commands a) (commands b),
      ghost_accepted = sat_add64 (ghost_accepted a) (ghost_accepted b),
      ghost_shown = sat_add64 (ghost_shown a) (ghost_shown b),
      keystrokes_saved = sat_add64 (keystrokes_saved a) (keystrokes_saved b),
      llm_calls = sat_add64 (llm_calls a) (llm_calls b),
      guard_warn = sat_add64 (guard_warn a) (guard_warn b),
      guard_block = sat_add64 (guard_block a) (guard_block b),
      guard_refused = sat_add64 (guard_refused a) (guard_refused b)\<rparr>"

section \<open>Errors\<close>

datatype entry_error =
    AtomTooShort nat
  | AtomTooLong nat
  | AtomNewline
  | AtomReserved
  | AtomPlaceholder
  | HashLength nat
  | HashNotHex
  | HostEmpty
  | HostTooLong
  | HostWhitespace
  | HostReserved
  | TrustFileFull

datatype os_error = ENotFound | EPermissionDenied | EAlreadyExists | EInvalidData | EOther nat

datatype io_error =
    Os os_error
  | InvalidInput entry_error
  | OwnerMismatch u32 u32
  | UnsafeMode u32

datatype message =
    MEntry entry_error
  | MIo io_error
  | MSessionTrustFull
  | MSessionUrlBlockFull
  | MRequiresRoot string
  | MOtherUid u32 u32
  | MPidGone u32
  | MPidVanished u32
  | MPidRecycled u32
  | MPidOwned u32 u32 u32
  | MProcRead string
  | MStatUnreadable u32
  | MWatchFailed u32
  | MProfileGlobal
  | MAtomNotPresent string
  | MSubscribeAllNeedsRoot
  | MSubscriberLimit
  | MLineTooLong
  | MInvalidJson
  | MInvalidRequest
  | MDriftUnreadable
  | MSessionWritePartial nat nat nat nat "(string \<times> entry_error) list" "(string \<times> entry_error) list"

section \<open>Requests and responses\<close>

datatype request =
    Health
  | Classify string classify_context
  | SetThreatLevel u32 ThreatLevel
  | SetWatch u32
  | GetThreatLevel u32
  | AtomsAdd string "u32 option"
  | AtomsRemove string "u32 option"
  | AtomsList AtomScope "u32 option"
  | AtomsDrift
  | UrlsAllow string "u32 option"
  | UrlsBlock string "u32 option"
  | UrlsList "u32 option"
  | SessionListReq "u32 option"
  | SessionClear "u32 option"
  | SessionWrite "u32 option"
  | SessionAddTrust string "u32 option"
  | SessionAddUrlBlock string "u32 option"
  | TrustAdd string "u32 option"
  | TrustList "u32 option" "u32 option"
  | SubscribeWarnEvents u32
  | ReportMetrics u32 string string bool metrics_counters u64
  | ListInstances
  | GetMetrics
  | GetProfile
  | SetProfile SecurityProfile

datatype response =
    ROk
  | RHealth string
  | RClassify classify_result
  | RThreatLevel ThreatLevel
  | RProfile SecurityProfile
  | RError message
  | RMetrics metrics_counters guard_posture nat
  | RInstances "instance_info list"
  | RAtomsList "string list"
  | RUrlsList "(string \<times> string) list"
  | RSessionList "string list" "string list" "string list" "string list"
  | RTrustList "string list"
  | RAtomsDrift bool "string option" "drift_entry list"
  | RSubscribed
  | RWarnEvent u32 u32 string string u64
  | RWarnDropped u32

fun is_behind :: "drift_entry \<Rightarrow> bool" where
  "is_behind e = (case (de_pinned e, de_upstream e) of (Some p, Some u) \<Rightarrow> p \<noteq> u | _ \<Rightarrow> False)"

section \<open>The order of verdicts\<close>

text \<open>
  \<open>verdict_strictly_worse\<close> of \<open>server.rs\<close> names the strict part of the order Safe, Warn, Block. The
  type is made a linear order, so that \<open>max\<close> and the order lemmas of the library apply to it.
\<close>

fun verdict_rank :: "Verdict \<Rightarrow> nat" where
  "verdict_rank Safe = 0"
| "verdict_rank Warn = 1"
| "verdict_rank Block = 2"

lemma verdict_rank_inj: "verdict_rank a = verdict_rank b \<longleftrightarrow> a = b"
  by (cases a; cases b) simp_all

instantiation Verdict :: linorder
begin

definition less_eq_Verdict :: "Verdict \<Rightarrow> Verdict \<Rightarrow> bool" where
  "less_eq_Verdict a b \<longleftrightarrow> verdict_rank a \<le> verdict_rank b"

definition less_Verdict :: "Verdict \<Rightarrow> Verdict \<Rightarrow> bool" where
  "less_Verdict a b \<longleftrightarrow> verdict_rank a < verdict_rank b"

instance
  by intro_classes (auto simp: less_eq_Verdict_def less_Verdict_def verdict_rank_inj)

end

fun verdict_strictly_worse :: "Verdict \<Rightarrow> Verdict \<Rightarrow> bool" where
  "verdict_strictly_worse Safe Warn = True"
| "verdict_strictly_worse Safe Block = True"
| "verdict_strictly_worse Warn Block = True"
| "verdict_strictly_worse _ _ = False"

lemma verdict_strictly_worse_less [simp]: "verdict_strictly_worse a b \<longleftrightarrow> a < b"
  by (cases a; cases b) (simp_all add: less_Verdict_def)

lemma Safe_least [simp]: "Safe \<le> v"
  by (simp add: less_eq_Verdict_def)

lemma Block_greatest [simp]: "v \<le> Block"
  by (cases v) (simp_all add: less_eq_Verdict_def)

lemma Safe_less_iff: "Safe < v \<longleftrightarrow> v \<noteq> Safe"
  by (cases v) (simp_all add: less_Verdict_def)

section \<open>Counters\<close>

lemma counters_add_assoc: "counters_add (counters_add a b) c = counters_add a (counters_add b c)"
  by (simp add: counters_add_def sat_add64_assoc)

lemma counters_add_commute: "counters_add a b = counters_add b a"
  by (simp add: counters_add_def sat_add64_commute)

end
