(* ===== verification/Profile.thy ===== *)
theory Profile
  imports Protocol
begin

text \<open>
  Security profiles and the per-exec routing policy (\<open>profile.rs\<close>): the byte encoding of the live
  profile, its wire name, and the decision \<open>decide\<close> that maps the facts about one exec to a
  mechanism. The properties order the mechanisms by strength and compare the profiles.
\<close>

datatype Tier1Verdict = T1Safe | T1Unknown | T1Suspicious | T1KnownBad

datatype LoadPressure = NormalLoad | HighLoad

datatype Mechanism = AllowExec | WarnAsync | ClassifyAsyncThenKill | BlockInKernel | FreezeAndFrisk

record exec_context =
  tier1 :: Tier1Verdict
  is_interpreter :: bool
  parent_is_interactive_shell :: bool
  in_watch_scope :: bool
  load :: LoadPressure

record routing_policy =
  profile :: SecurityProfile
  smart_can_freeze :: bool

definition marks_watch_scope :: "SecurityProfile \<Rightarrow> bool" where
  "marks_watch_scope p \<longleftrightarrow> p \<noteq> Prompt"

fun profile_to_u8 :: "SecurityProfile \<Rightarrow> u8" where
  "profile_to_u8 Prompt = 0"
| "profile_to_u8 Audit = 1"
| "profile_to_u8 Session = 2"
| "profile_to_u8 Strict = 3"
| "profile_to_u8 Lockdown = 4"
| "profile_to_u8 Smart = 5"

definition profile_from_u8 :: "u8 \<Rightarrow> SecurityProfile" where
  "profile_from_u8 v =
     (if v = 1 then Audit else if v = 2 then Session else if v = 3 then Strict
      else if v = 4 then Lockdown else if v = 5 then Smart else Prompt)"

fun profile_as_str :: "SecurityProfile \<Rightarrow> string" where
  "profile_as_str Prompt = ''prompt''"
| "profile_as_str Audit = ''audit''"
| "profile_as_str Session = ''session''"
| "profile_as_str Strict = ''strict''"
| "profile_as_str Lockdown = ''lockdown''"
| "profile_as_str Smart = ''smart''"

definition decide_smart :: "routing_policy \<Rightarrow> exec_context \<Rightarrow> Mechanism" where
  "decide_smart pol ctx =
     (case tier1 ctx of
        T1KnownBad \<Rightarrow> BlockInKernel
      | T1Safe \<Rightarrow> AllowExec
      | _ \<Rightarrow>
        (let risky = is_interpreter ctx \<and> \<not> parent_is_interactive_shell ctx
         in if \<not> risky then AllowExec
            else (case load ctx of
                    HighLoad \<Rightarrow> WarnAsync
                  | NormalLoad \<Rightarrow> if smart_can_freeze pol then FreezeAndFrisk else ClassifyAsyncThenKill)))"

definition decide :: "routing_policy \<Rightarrow> exec_context \<Rightarrow> Mechanism" where
  "decide pol ctx =
     (if \<not> in_watch_scope ctx then AllowExec
      else (case profile pol of
              Prompt \<Rightarrow> AllowExec
            | Audit \<Rightarrow> (case tier1 ctx of T1Safe \<Rightarrow> AllowExec | _ \<Rightarrow> WarnAsync)
            | Session \<Rightarrow> (case tier1 ctx of T1Safe \<Rightarrow> AllowExec | _ \<Rightarrow> ClassifyAsyncThenKill)
            | Strict \<Rightarrow> (case tier1 ctx of T1Safe \<Rightarrow> AllowExec | _ \<Rightarrow> ClassifyAsyncThenKill)
            | Lockdown \<Rightarrow> (case tier1 ctx of T1Safe \<Rightarrow> AllowExec | T1KnownBad \<Rightarrow> BlockInKernel | _ \<Rightarrow> FreezeAndFrisk)
            | Smart \<Rightarrow> decide_smart pol ctx))"

section \<open>Strength of a mechanism\<close>

text \<open>
  How much a mechanism interferes with the exec: nothing, observe, kill after the start, stop
  before it does harm (in the kernel or frozen).
\<close>

fun strength :: "Mechanism \<Rightarrow> nat" where
  "strength AllowExec = 0"
| "strength WarnAsync = 1"
| "strength ClassifyAsyncThenKill = 2"
| "strength BlockInKernel = 3"
| "strength FreezeAndFrisk = 3"

lemmas decide_defs = decide_def decide_smart_def Let_def

lemmas decide_splits = SecurityProfile.splits Tier1Verdict.splits LoadPressure.splits if_splits

lemma decide_out_of_scope: "\<not> in_watch_scope ctx \<Longrightarrow> decide pol ctx = AllowExec"
  by (simp add: decide_def)

lemma decide_tier1_safe: "tier1 ctx = T1Safe \<Longrightarrow> decide pol ctx = AllowExec"
  by (auto simp: decide_defs split: decide_splits)

text \<open>
  The ladder of profiles: in every context the mechanism chosen under prompt, audit, session,
  strict and lockdown never gets weaker from one profile to the next, smart never exceeds lockdown,
  and nothing outside the marked session subtree and nothing Tier-1 calls safe is ever acted on.
\<close>

theorem profile_ladder:
  "strength (decide (pol\<lparr>profile := Prompt\<rparr>) ctx) \<le> strength (decide (pol\<lparr>profile := Audit\<rparr>) ctx)
   \<and> strength (decide (pol\<lparr>profile := Audit\<rparr>) ctx) \<le> strength (decide (pol\<lparr>profile := Session\<rparr>) ctx)
   \<and> decide (pol\<lparr>profile := Session\<rparr>) ctx = decide (pol\<lparr>profile := Strict\<rparr>) ctx
   \<and> strength (decide (pol\<lparr>profile := Strict\<rparr>) ctx) \<le> strength (decide (pol\<lparr>profile := Lockdown\<rparr>) ctx)
   \<and> strength (decide (pol\<lparr>profile := Smart\<rparr>) ctx) \<le> strength (decide (pol\<lparr>profile := Lockdown\<rparr>) ctx)
   \<and> decide pol (ctx\<lparr>in_watch_scope := False\<rparr>) = AllowExec
   \<and> decide pol (ctx\<lparr>tier1 := T1Safe\<rparr>) = AllowExec"
proof (intro conjI)
  show "decide pol (ctx\<lparr>in_watch_scope := False\<rparr>) = AllowExec" by (simp add: decide_out_of_scope)
  show "decide pol (ctx\<lparr>tier1 := T1Safe\<rparr>) = AllowExec" by (simp add: decide_tier1_safe)
qed (auto simp: decide_defs split: Tier1Verdict.splits LoadPressure.splits)

text \<open>
  The consent ceiling: an exec is frozen only under lockdown, or under smart when the operator
  allowed smart to freeze and the load is normal; without that consent smart tops out at killing
  after an asynchronous classification, except for the synchronous refusal of a known-bad exec.
\<close>

theorem freeze_needs_consent:
  assumes "decide pol ctx = FreezeAndFrisk"
  shows "in_watch_scope ctx \<and> tier1 ctx \<in> {T1Unknown, T1Suspicious}
    \<and> (profile pol = Lockdown
        \<or> (profile pol = Smart \<and> smart_can_freeze pol \<and> load ctx = NormalLoad
           \<and> is_interpreter ctx \<and> \<not> parent_is_interactive_shell ctx))"
  using assms by (auto simp: decide_defs split: decide_splits)

theorem freeze_needs_consent_witness:
  "\<exists>pol ctx. decide pol ctx = FreezeAndFrisk \<and> smart_can_freeze pol \<and> load ctx = NormalLoad"
proof -
  let ?pol = "\<lparr>profile = Smart, smart_can_freeze = True\<rparr>"
  let ?ctx = "\<lparr>tier1 = T1Unknown, is_interpreter = True, parent_is_interactive_shell = False,
    in_watch_scope = True, load = NormalLoad\<rparr>"
  have d: "decide ?pol ?ctx = FreezeAndFrisk" by (simp add: decide_defs)
  from freeze_needs_consent [OF d] have "smart_can_freeze ?pol \<and> load ?ctx = NormalLoad" by simp
  with d show ?thesis by blast
qed

section \<open>Encodings\<close>

lemma profile_from_to_u8 [simp]: "profile_from_u8 (profile_to_u8 p) = p"
  by (cases p) (simp_all add: profile_from_u8_def)

lemma profile_to_u8_inj: "profile_to_u8 p = profile_to_u8 q \<longleftrightarrow> p = q"
  by (metis profile_from_to_u8)

lemma profile_as_str_inj: "profile_as_str p = profile_as_str q \<longleftrightarrow> p = q"
  by (cases p; cases q) simp_all

text \<open>
  The byte encoding of the live profile loses nothing, and a byte that encodes no profile reads
  as the inert profile \<open>prompt\<close>, under which no exec is acted on.
\<close>

theorem profile_encoding:
  "profile_from_u8 (profile_to_u8 p) = p
   \<and> (b \<notin> range profile_to_u8 \<longrightarrow>
        profile_from_u8 b = Prompt \<and> decide \<lparr>profile = profile_from_u8 b, smart_can_freeze = f\<rparr> ctx = AllowExec)"
proof -
  have "profile_from_u8 b = Prompt" if "b \<notin> range profile_to_u8"
  proof -
    from that have "b \<noteq> profile_to_u8 q" for q by blast
    from this [of Audit] this [of Session] this [of Strict] this [of Lockdown] this [of Smart]
    show ?thesis by (simp add: profile_from_u8_def)
  qed
  then show ?thesis by (simp add: decide_def)
qed

theorem profile_encoding_witness:
  "(200 :: u8) \<notin> range profile_to_u8 \<and> profile_from_u8 200 = Prompt"
proof -
  have n: "(200 :: u8) \<notin> range profile_to_u8"
  proof
    assume "(200 :: u8) \<in> range profile_to_u8"
    then obtain p where "200 = profile_to_u8 p" by blast
    then show False by (cases p) simp_all
  qed
  with profile_encoding [of Prompt 200] show ?thesis by blast
qed

end
