(* ===== verification/Rust_Slice.thy ===== *)
theory Rust_Slice
  imports Rust_Str "HOL-Library.Monad_Syntax"
begin

text \<open>
  Slices \<open>&s[a..b]\<close> of a Rust string. A slice panics when its ends are out of order, out of range or
  not on a character boundary; a computation that may panic returns an option, and \<^const>\<open>None\<close> is the
  panic. The lemmas show the offsets that \<open>find\<close> returns are always fit to slice at, so that the
  components' panic freedom needs no look at bytes.
\<close>

definition str_slice :: "string \<Rightarrow> nat \<Rightarrow> nat \<Rightarrow> string option" where
  "str_slice s a b =
     (if a \<le> b \<and> b \<le> length s \<and> is_char_boundary s a \<and> is_char_boundary s b
      then Some (take (b - a) (drop a s)) else None)"

text \<open>The text of a match that an engine reports, which the engine slices without a check.\<close>

definition span_text :: "string \<Rightarrow> nat \<times> nat \<Rightarrow> string" where
  "span_text s m = take (snd m - fst m) (drop (fst m) s)"

lemma str_slice_Some:
  "a \<le> b \<Longrightarrow> b \<le> length s \<Longrightarrow> is_char_boundary s a \<Longrightarrow> is_char_boundary s b
   \<Longrightarrow> str_slice s a b = Some (take (b - a) (drop a s))"
  by (simp add: str_slice_def)

lemma str_slice_from:
  "a \<le> length s \<Longrightarrow> is_char_boundary s a \<Longrightarrow> str_slice s a (length s) = Some (drop a s)"
  by (simp add: str_slice_def is_char_boundary_def)

section \<open>Character boundaries\<close>

definition ascii :: "string \<Rightarrow> bool" where
  "ascii s \<longleftrightarrow> (\<forall>c\<in>set s. byte_of c < (0x80::nat))"

lemma ascii_boundary: "ascii s \<Longrightarrow> i \<le> length s \<Longrightarrow> is_char_boundary s i"
  by (auto simp: ascii_def is_char_boundary_def cont_def not_le)

lemma utf8_len_hd: "0 < utf8_len s \<Longrightarrow> \<not> cont (hd s)"
  by (cases s) (auto simp: utf8_len_def cont_def Let_def split: if_splits)

lemma utf8_valid_hd: "utf8_valid s \<Longrightarrow> s \<noteq> [] \<Longrightarrow> \<not> cont (hd s)"
  by (subst (asm) utf8_valid.simps) (auto dest: utf8_len_hd split: if_splits)

lemma utf8_valid_append: "utf8_valid a \<Longrightarrow> utf8_valid b \<Longrightarrow> utf8_valid (a @ b)"
proof (induction a rule: utf8_valid.induct)
  case (1 a)
  show ?case
  proof (cases "a = []")
    case False
    let ?k = "utf8_len a"
    from False "1.prems"(1) have k: "0 < ?k" "utf8_valid (drop ?k a)"
      by (auto simp: utf8_valid.simps [of a] split: if_splits)
    have "utf8_len (a @ b) = ?k"
      using utf8_len_take [OF k(1), of "drop ?k a @ b"] by (metis append_assoc append_take_drop_id)
    moreover have "utf8_valid (drop ?k a @ b)" using "1.IH" "1.prems"(2) False k by auto
    ultimately show ?thesis
      using k(1) utf8_len_le [of a] by (subst utf8_valid.simps) simp
  qed (use 1 in simp)
qed

lemma utf8_valid_appendD: "utf8_valid (a @ b) \<Longrightarrow> utf8_valid a \<Longrightarrow> utf8_valid b"
proof (induction a rule: utf8_valid.induct)
  case (1 a)
  show ?case
  proof (cases "a = []")
    case True
    with 1 show ?thesis by simp
  next
    case False
    let ?k = "utf8_len a"
    from False "1.prems"(2) have k: "0 < ?k" "utf8_valid (drop ?k a)"
      by (auto simp: utf8_valid.simps [of a] split: if_splits)
    have "utf8_len (a @ b) = ?k"
      using utf8_len_take [OF k(1), of "drop ?k a @ b"] by (metis append_assoc append_take_drop_id)
    then have "utf8_valid (drop ?k a @ b)"
      using "1.prems"(1) k(1) False utf8_len_le [of a]
      by (auto simp: utf8_valid.simps [of "a @ b"] split: if_splits)
    with 1 False k show ?thesis by auto
  qed
qed

lemma boundary_drop:
  "utf8_valid (drop i s) \<Longrightarrow> i \<le> length s \<Longrightarrow> is_char_boundary s i"
  using utf8_valid_hd [of "drop i s"] by (auto simp: is_char_boundary_def hd_drop_conv_nth)

text \<open>An occurrence of a well-formed needle in a well-formed string lies on character boundaries.\<close>

lemma occurrence_boundary:
  assumes "utf8_valid s" and "utf8_valid n" and "n \<noteq> []"
    and "i + length n \<le> length s" and "take (length n) (drop i s) = n"
  shows "is_char_boundary s i" and "is_char_boundary s (i + length n)"
proof -
  have split: "drop i s = n @ drop (i + length n) s"
    using assms(5) by (metis append_take_drop_id drop_drop add.commute)
  have "s ! i = hd n" using assms(3,4) split by (metis add_leE hd_append2 hd_drop_conv_nth add_gr_0
        le_eq_less_or_eq length_greater_0_conv less_add_same_cancel1 nat_neq_iff order_less_le_trans)
  then show b: "is_char_boundary s i"
    using utf8_valid_hd [OF assms(2,3)] assms(3,4) by (cases n) (auto simp: is_char_boundary_def)
  have "utf8_valid (n @ drop (i + length n) s)"
    using utf8_valid_split [OF assms(1) b] assms(4) split by simp
  then have "utf8_valid (drop (i + length n) s)" using assms(2) by (rule utf8_valid_appendD)
  then show "is_char_boundary s (i + length n)" using assms(4) by (rule boundary_drop)
qed

lemma str_find_boundary:
  assumes "utf8_valid s" and "utf8_valid n" and "n \<noteq> []" and "str_find n s = Some i"
  shows "i + length n \<le> length s" and "is_char_boundary s i" and "is_char_boundary s (i + length n)"
  using str_find_Some [OF assms(4)] occurrence_boundary [OF assms(1,2,3), of i] by simp_all

lemma ascii_valid: "ascii s \<Longrightarrow> utf8_valid s"
  by (induction s) (auto simp: ascii_def utf8_valid_ascii)

end
