(* ===== verification/Atom_Matcher.thy ===== *)
theory Atom_Matcher
  imports Protocol Rust_Slice
begin

text \<open>
  The first tier's atom scan (\<open>atom_matcher.rs\<close>). The automaton is the \<open>aho-corasick\<close> crate, a
  parameter: a function from the pattern list and the text to the list of matches, each a pattern id
  with its span. The locale \<open>multi_pattern\<close> states what the crate documents of the
  leftmost-longest, non-overlapping iteration, and the executable scan \<open>ll_scan\<close> satisfies it.
\<close>

type_synonym match_iter = "string list \<Rightarrow> string \<Rightarrow> (nat \<times> nat \<times> nat) list"

record atom_matcher =
  ac_find_iter :: "string \<Rightarrow> (nat \<times> nat \<times> nat) list"
  am_atoms :: "string list"

record atom_hit =
  hit_atom :: string
  byte_offset :: nat
  byte_end :: nat

definition parse_atoms :: "string \<Rightarrow> string list" where
  "parse_atoms corpus = filter (\<lambda>l. l \<noteq> [] \<and> \<not> starts_with ''#'' l) (map str_trim (str_lines corpus))"

definition with_atoms :: "match_iter \<Rightarrow> string list \<Rightarrow> atom_matcher" where
  "with_atoms engine atoms = \<lparr>ac_find_iter = engine atoms, am_atoms = atoms\<rparr>"

definition atom_matcher_new :: "match_iter \<Rightarrow> string \<Rightarrow> atom_matcher" where
  "atom_matcher_new engine corpus = with_atoms engine (parse_atoms corpus)"

definition to_hit :: "atom_matcher \<Rightarrow> nat \<times> nat \<times> nat \<Rightarrow> atom_hit option" where
  "to_hit m k = (case k of (i, a, b) \<Rightarrow>
     if i < length (am_atoms m)
     then Some \<lparr>hit_atom = am_atoms m ! i, byte_offset = a, byte_end = b\<rparr> else None)"

text \<open>\<open>find\<close> is the first element of \<open>find_iter\<close>. The outer option of the two is the panic of \<open>expect\<close>.\<close>

definition find_first :: "atom_matcher \<Rightarrow> string \<Rightarrow> atom_hit option option" where
  "find_first m input =
     (case ac_find_iter m input of [] \<Rightarrow> Some None | k # _ \<Rightarrow> map_option Some (to_hit m k))"

definition find_all :: "atom_matcher \<Rightarrow> string \<Rightarrow> atom_hit list option" where
  "find_all m input = those (map (to_hit m) (ac_find_iter m input))"

definition hit_to_result :: "atom_hit \<Rightarrow> classify_result" where
  "hit_to_result h =
     \<lparr>verdict = Warn, category = CurlPipeSh, confidence = f32_lit (6 / 10),
      reason = ''AtomMatcher flagged `'' @ hit_atom h @ ''`'', matched = hit_atom h\<rparr>"

definition atom_count :: "atom_matcher \<Rightarrow> nat" where
  "atom_count m = length (am_atoms m)"

definition atoms_snapshot :: "atom_matcher \<Rightarrow> string list" where
  "atoms_snapshot m = sort (am_atoms m)"

section \<open>What the engine promises\<close>

definition occurs_at :: "string \<Rightarrow> string \<Rightarrow> nat \<Rightarrow> bool" where
  "occurs_at p s i \<longleftrightarrow> i + length p \<le> length s \<and> take (length p) (drop i s) = p"

locale multi_pattern =
  fixes engine :: match_iter
  assumes in_text: "[] \<notin> set ps \<Longrightarrow> (k, a, b) \<in> set (engine ps s)
      \<Longrightarrow> k < length ps \<and> b = a + length (ps ! k) \<and> occurs_at (ps ! k) s a"
    and disjoint: "[] \<notin> set ps \<Longrightarrow> sorted_wrt (\<lambda>m n. snd (snd m) \<le> fst (snd n)) (engine ps s)"
    and covers: "[] \<notin> set ps \<Longrightarrow> p \<in> set ps \<Longrightarrow> occurs_at p s i
      \<Longrightarrow> \<exists>(k, a, b)\<in>set (engine ps s). a \<le> i \<and> i < b \<and> (a = i \<longrightarrow> length p \<le> b - a)"
begin

lemma find_all_total:
  assumes "[] \<notin> set ps"
  shows "find_all (with_atoms engine ps) s
    = Some (map (\<lambda>(k, a, b). \<lparr>hit_atom = ps ! k, byte_offset = a, byte_end = b\<rparr>) (engine ps s))"
proof -
  let ?m = "with_atoms engine ps"
  let ?g = "\<lambda>(k, a, b). \<lparr>hit_atom = ps ! k, byte_offset = a, byte_end = b\<rparr>"
  have "those (map (to_hit ?m) ks) = Some (map ?g ks)" if "set ks \<subseteq> set (engine ps s)" for ks
    using that
  proof (induction ks)
    case Nil
    then show ?case by simp
  next
    case (Cons k ks)
    then have "to_hit ?m k = Some (?g k)"
      using in_text [OF assms] by (cases k) (auto simp: to_hit_def with_atoms_def)
    with Cons show ?case by simp
  qed
  then show ?thesis by (simp add: find_all_def with_atoms_def)
qed

lemma find_all_hits:
  assumes "[] \<notin> set ps" and "find_all (with_atoms engine ps) s = Some hits" and "h \<in> set hits"
  shows "hit_atom h \<in> set ps" and "occurs_at (hit_atom h) s (byte_offset h)"
    and "byte_end h = byte_offset h + length (hit_atom h)"
  using assms(2,3) in_text [OF assms(1)] by (force simp: find_all_total [OF assms(1)])+

lemma find_all_disjoint:
  assumes "[] \<notin> set ps" and "find_all (with_atoms engine ps) s = Some hits"
  shows "sorted_wrt (\<lambda>g h. byte_end g \<le> byte_offset h) hits"
proof -
  let ?g = "\<lambda>(k, a, b). \<lparr>hit_atom = ps ! k, byte_offset = a, byte_end = b\<rparr>"
  have "sorted_wrt (\<lambda>m n. byte_end (?g m) \<le> byte_offset (?g n)) (engine ps s)"
    by (rule sorted_wrt_mono_rel [OF _ disjoint [OF assms(1)]]) (auto split: prod.splits)
  then show ?thesis using assms(2) by (auto simp: find_all_total [OF assms(1)] sorted_wrt_map)
qed

lemma find_all_covers:
  assumes "[] \<notin> set ps" and "find_all (with_atoms engine ps) s = Some hits"
    and "p \<in> set ps" and "occurs_at p s i"
  shows "\<exists>h\<in>set hits. byte_offset h \<le> i \<and> i < byte_end h \<and> (byte_offset h = i \<longrightarrow> length p \<le> length (hit_atom h))"
proof -
  obtain k a b where k: "(k, a, b) \<in> set (engine ps s)" "a \<le> i" "i < b" "a = i \<longrightarrow> length p \<le> b - a"
    using covers [OF assms(1,3,4)] by blast
  let ?h = "\<lparr>hit_atom = ps ! k, byte_offset = a, byte_end = b\<rparr>"
  have "?h \<in> set hits" using assms(2) k(1) by (force simp: find_all_total [OF assms(1)])
  moreover have "b - a = length (ps ! k)" using in_text [OF assms(1) k(1)] by simp
  ultimately show ?thesis using k by (intro bexI [of _ ?h]) auto
qed

end

section \<open>A leftmost-longest scan\<close>

definition longest_at :: "string list \<Rightarrow> string \<Rightarrow> nat option" where
  "longest_at ps s = find (\<lambda>k. ps ! k \<noteq> [] \<and> prefix (ps ! k) s
     \<and> (\<forall>q\<in>set ps. prefix q s \<longrightarrow> length q \<le> length (ps ! k))) [0..<length ps]"

lemma longest_at_Some:
  "longest_at ps s = Some k \<Longrightarrow> k < length ps \<and> ps ! k \<noteq> [] \<and> prefix (ps ! k) s
     \<and> (\<forall>q\<in>set ps. prefix q s \<longrightarrow> length q \<le> length (ps ! k))"
  by (auto simp: longest_at_def find_Some_iff)

lemma longest_at_None:
  assumes "longest_at ps s = None" and "p \<in> set ps" and "p \<noteq> []"
  shows "\<not> prefix p s"
proof
  assume "prefix p s"
  obtain q where q: "q \<in> set ps" "prefix q s" "\<forall>r\<in>set ps. prefix r s \<longrightarrow> length r \<le> length q"
    using ex_has_greatest_nat [of "\<lambda>q. q \<in> set ps \<and> prefix q s" p length "Suc (length s)"]
      \<open>prefix p s\<close> assms(2) by (auto simp: less_Suc_eq_le dest: prefix_length_le)
  then have "q \<noteq> []" using \<open>prefix p s\<close> assms(2,3) by fastforce
  obtain k where "k < length ps" "ps ! k = q" using q(1) by (auto simp: in_set_conv_nth)
  with q \<open>q \<noteq> []\<close> assms(1) show False by (auto simp: longest_at_def find_None_iff)
qed

function ll_scan_from :: "string list \<Rightarrow> nat \<Rightarrow> string \<Rightarrow> (nat \<times> nat \<times> nat) list" where
  "ll_scan_from ps i s =
     (if s = [] then []
      else (case longest_at ps s of
              None \<Rightarrow> ll_scan_from ps (i + 1) (tl s)
            | Some k \<Rightarrow> (k, i, i + length (ps ! k)) # ll_scan_from ps (i + length (ps ! k)) (drop (length (ps ! k)) s)))"
  by pat_completeness auto
termination
  by (relation "measure (\<lambda>(_, _, s). length s)") (auto dest: longest_at_Some)

declare ll_scan_from.simps [simp del]

definition ll_scan :: match_iter where
  "ll_scan ps s = ll_scan_from ps 0 s"

lemma ll_scan_from_in:
  "(k, a, b) \<in> set (ll_scan_from ps i s)
   \<Longrightarrow> i \<le> a \<and> k < length ps \<and> b = a + length (ps ! k) \<and> occurs_at (ps ! k) s (a - i)"
proof (induction ps i s rule: ll_scan_from.induct)
  case (1 ps i s)
  show ?case
  proof (cases "s = []")
    case True
    with "1.prems" show ?thesis by (simp add: ll_scan_from.simps)
  next
    case False
    show ?thesis
    proof (cases "longest_at ps s")
      case None
      with False "1.prems" have "(k, a, b) \<in> set (ll_scan_from ps (i + 1) (tl s))"
        by (simp add: ll_scan_from.simps [of ps i s])
      from "1.IH"(1) [OF False None this] False show ?thesis
        by (cases s) (auto simp: occurs_at_def Suc_diff_le le_Suc_eq Suc_le_eq drop_Suc simp flip: Suc_diff_Suc)
    next
      case (Some j)
      note l = longest_at_Some [OF Some]
      from False Some "1.prems" consider "k = j" "a = i" "b = i + length (ps ! j)"
        | "(k, a, b) \<in> set (ll_scan_from ps (i + length (ps ! j)) (drop (length (ps ! j)) s))"
        by (auto simp: ll_scan_from.simps [of ps i s])
      then show ?thesis
      proof cases
        case 1
        then show ?thesis using l by (auto simp: occurs_at_def prefix_def)
      next
        case 2
        from "1.IH"(2) [OF False Some this] l show ?thesis
          by (auto simp: occurs_at_def prefix_def)
      qed
    qed
  qed
qed

lemma ll_scan_from_sorted: "sorted_wrt (\<lambda>m n. snd (snd m) \<le> fst (snd n)) (ll_scan_from ps i s)"
proof (induction ps i s rule: ll_scan_from.induct)
  case (1 ps i s)
  show ?case
  proof (cases "s = []")
    case True
    then show ?thesis by (simp add: ll_scan_from.simps)
  next
    case False
    with 1 show ?thesis
      by (cases "longest_at ps s") (auto simp: ll_scan_from.simps [of ps i s] dest: ll_scan_from_in)
  qed
qed

lemma occurs_at_shift: "occurs_at p s d \<Longrightarrow> n \<le> d \<Longrightarrow> occurs_at p (drop n s) (d - n)"
  by (auto simp: occurs_at_def)

lemma occurs_at_prefix: "occurs_at p s 0 \<longleftrightarrow> prefix p s"
  by (auto simp: occurs_at_def prefix_def) (metis append_take_drop_id)

lemma ll_scan_from_covers:
  assumes "p \<in> set ps" and "p \<noteq> []" and "occurs_at p s d"
  shows "\<exists>(k, a, b)\<in>set (ll_scan_from ps i s). a \<le> i + d \<and> i + d < b \<and> (a = i + d \<longrightarrow> length p \<le> b - a)"
  using assms(1,3)
proof (induction ps i s arbitrary: d rule: ll_scan_from.induct)
  case (1 ps i s)
  from "1.prems" assms(2) have ne: "s \<noteq> []" by (auto simp: occurs_at_def)
  show ?case
  proof (cases "longest_at ps s")
    case None
    have "\<not> prefix p s" by (rule longest_at_None [OF None "1.prems"(1) assms(2)])
    then have "d \<noteq> 0" using "1.prems"(2) by (cases d) (simp_all add: occurs_at_prefix)
    then have "occurs_at p (tl s) (d - 1)" using occurs_at_shift [OF "1.prems"(2), of 1] by (simp add: drop_Suc)
    from "1.IH"(1) [OF ne None "1.prems"(1) this] ne None \<open>d \<noteq> 0\<close> show ?thesis
      by (simp add: ll_scan_from.simps [of ps i s])
  next
    case (Some j)
    note l = longest_at_Some [OF Some]
    show ?thesis
    proof (cases "d < length (ps ! j)")
      case True
      moreover have "d = 0 \<longrightarrow> length p \<le> length (ps ! j)"
        using l "1.prems" occurs_at_prefix by blast
      ultimately show ?thesis using ne Some by (auto simp: ll_scan_from.simps [of ps i s])
    next
      case False
      then have "occurs_at p (drop (length (ps ! j)) s) (d - length (ps ! j))"
        using occurs_at_shift "1.prems"(2) by simp
      from "1.IH"(2) [OF ne Some "1.prems"(1) this] ne Some False show ?thesis
        by (auto simp: ll_scan_from.simps [of ps i s])
    qed
  qed
qed

interpretation leftmost_longest: multi_pattern ll_scan
proof
  fix ps k a b s
  assume "(k, a, b) \<in> set (ll_scan ps s)"
  then show "k < length ps \<and> b = a + length (ps ! k) \<and> occurs_at (ps ! k) s a"
    using ll_scan_from_in by (fastforce simp: ll_scan_def)
next
  fix ps s
  show "sorted_wrt (\<lambda>m n. snd (snd m) \<le> fst (snd n)) (ll_scan ps s)"
    by (simp add: ll_scan_def ll_scan_from_sorted)
next
  fix ps p s i
  assume "[] \<notin> set ps" "p \<in> set ps" "occurs_at p s i"
  then show "\<exists>(k, a, b)\<in>set (ll_scan ps s). a \<le> i \<and> i < b \<and> (a = i \<longrightarrow> length p \<le> b - a)"
    using ll_scan_from_covers [of p ps s i 0] by (auto simp: ll_scan_def)
qed

section \<open>The corpus and the scan\<close>

lemma parse_atoms_nonempty: "[] \<notin> set (parse_atoms corpus)"
  by (simp add: parse_atoms_def)

lemma atoms_snapshot_set: "set (atoms_snapshot m) = set (am_atoms m)"
  by (simp add: atoms_snapshot_def)

lemma find_first_find_all: "find_all m s = Some hits \<Longrightarrow> find_first m s = Some (case hits of [] \<Rightarrow> None | h # _ \<Rightarrow> Some h)"
  by (cases "ac_find_iter m s") (auto simp: find_all_def find_first_def split: option.splits)

lemma occurs_at_sublist: "sublist p s \<longleftrightarrow> (\<exists>i. occurs_at p s i)"
proof
  assume "sublist p s"
  then obtain u v where "s = u @ p @ v" by (auto simp: sublist_def)
  then show "\<exists>i. occurs_at p s i" by (intro exI [of _ "length u"]) (simp add: occurs_at_def)
next
  assume "\<exists>i. occurs_at p s i"
  then obtain i where "take (length p) (drop i s) = p" by (auto simp: occurs_at_def)
  then show "sublist p s" by (metis sublist_drop sublist_take sublist_order.order_trans)
qed



end
