(* ===== verification/Classifier.thy ===== *)
theory Classifier
  imports Atom_Matcher
begin

text \<open>
  The two-tier classifier (\<open>classifier.rs\<close>): the first tier's signals, the accumulator that combines
  them, the second tier behind its trait, and the dispatch between the tiers. The regular expressions
  are compiled by the \<open>regex\<close> crate: \<open>find\<close> and \<open>captures\<close> are parameters, functions from the text to
  the spans they report, and the locale \<open>span_finder\<close> states that a span lies in the text on character
  boundaries. Confidences are \<open>f32\<close> values with their rounding (theory \<open>F32\<close>). A slice that Rust
  would refuse makes the result \<^const>\<open>None\<close>, the panic.
\<close>

section \<open>Backends and their selection\<close>

datatype BackendKind = StubKind | HeuristicKind | OnnxKind

datatype BackendSource = Cli | Config | DefaultSource

definition backend_parse :: "string \<Rightarrow> BackendKind option" where
  "backend_parse s =
     (if s = ''stub'' then Some StubKind
      else if s = ''heuristic'' then Some HeuristicKind
      else if s = ''onnx'' then Some OnnxKind
      else None)"

fun backend_source_str :: "BackendSource \<Rightarrow> string" where
  "backend_source_str Cli = ''cli''"
| "backend_source_str Config = ''config''"
| "backend_source_str DefaultSource = ''default''"

definition resolve_backend ::
    "string option \<Rightarrow> string option \<Rightarrow> (string \<times> BackendSource, BackendKind \<times> BackendSource) result" where
  "resolve_backend cli config =
     (let (raw, source) = (case cli of Some t \<Rightarrow> (t, Cli)
                           | None \<Rightarrow> (case config of Some t \<Rightarrow> (t, Config) | None \<Rightarrow> (''stub'', DefaultSource)))
      in case backend_parse raw of Some k \<Rightarrow> Inr (k, source) | None \<Rightarrow> Inl (raw, source))"

text \<open>\<open>Tier2Backend\<close>: the label, and \<open>classify\<close> on the command and the hint offset. The outer option of
  the classification is a panic of the backend.\<close>

record tier2_backend =
  t2_name :: string
  t2_classify :: "string \<Rightarrow> nat option \<Rightarrow> classify_result option option"

definition stub_backend :: tier2_backend where
  "stub_backend = \<lparr>t2_name = ''stub'', t2_classify = (\<lambda>_ _. Some None)\<rparr>"

section \<open>The accumulator\<close>

type_synonym hit = "classify_result \<times> nat \<times> nat"

definition WARN_THRESHOLD :: f32 where "WARN_THRESHOLD = f32_lit (1 / 2)"
definition SLM_CONFIRM_THRESHOLD :: f32 where "SLM_CONFIRM_THRESHOLD = f32_lit (9 / 10)"

definition combined_confidence :: "hit list \<Rightarrow> f32" where
  "combined_confidence hits =
     (if hits = [] then Fin 0
      else f32_sub (Fin 1)
             (foldl (\<lambda>acc h. f32_mul acc (f32_sub (Fin 1) (confidence (fst h)))) (Fin 1) hits))"

fun span_groups :: "nat \<Rightarrow> nat \<Rightarrow> (nat \<times> nat) list \<Rightarrow> nat" where
  "span_groups groups cur_end [] = groups"
| "span_groups groups cur_end ((s, e) # spans) =
     (if s < cur_end then span_groups groups (max cur_end e) spans
      else span_groups (groups + 1) e spans)"

definition distinct_span_groups :: "hit list \<Rightarrow> nat" where
  "distinct_span_groups hits =
     (case sort_key fst (map snd hits) of [] \<Rightarrow> 0 | first # rest \<Rightarrow> span_groups 1 (snd first) rest)"

text \<open>\<open>Iterator::max_by\<close> keeps the later of two elements unless the earlier one is greater.\<close>

fun primary_hit :: "hit list \<Rightarrow> hit option" where
  "primary_hit [] = None"
| "primary_hit (h # hits) =
     Some (foldl (\<lambda>a b. if f32_lt (confidence (fst b)) (confidence (fst a)) then a else b) h hits)"

fun join_with :: "string \<Rightarrow> string list \<Rightarrow> string" where
  "join_with sep [] = []"
| "join_with sep [x] = x"
| "join_with sep (x # y # xs) = x @ sep @ join_with sep (y # xs)"

definition combined_reason :: "hit list \<Rightarrow> classify_result \<Rightarrow> nat \<Rightarrow> string" where
  "combined_reason hits primary distinct_signals =
     (if length hits = 1 then reason primary
      else let parts = join_with ''; '' (map (reason \<circ> fst) hits)
           in if distinct_signals = length hits
              then show_nat distinct_signals @ '' signals fired: '' @ parts
              else show_nat distinct_signals @ '' signals fired ('' @ show_nat (length hits)
                   @ '' detector hits): '' @ parts)"

definition combine_hits :: "hit list \<Rightarrow> f32 option \<Rightarrow> nat \<Rightarrow> classify_result option" where
  "combine_hits hits block_threshold distinct_signals =
     (if hits = [] then None
      else let conf = combined_confidence hits
           in if f32_lt conf WARN_THRESHOLD then None
              else case primary_hit hits of
                None \<Rightarrow> None
              | Some (primary, _) \<Rightarrow>
                  Some \<lparr>verdict = (case block_threshold of
                                    Some t \<Rightarrow> if 2 \<le> distinct_signals \<and> f32_le t conf then Block else verdict primary
                                  | None \<Rightarrow> verdict primary),
                        category = category primary,
                        confidence = conf,
                        reason = combined_reason hits primary distinct_signals,
                        matched = matched primary\<rparr>)"

section \<open>The first tier\<close>

record tier1 =
  curl_pipe_sh :: "string \<Rightarrow> (nat \<times> nat) option"
  npm_unsafe :: "string \<Rightarrow> (nat \<times> nat) option"
  bash_c :: "string \<Rightarrow> ((nat \<times> nat) \<times> (nat \<times> nat) option list) option"
  flagged_npm_packages :: "string list"
  flagged_urls :: "string list"
  t1_atoms :: atom_matcher

definition parse_flagged_urls :: "string \<Rightarrow> string list" where
  "parse_flagged_urls corpus = filter (\<lambda>l. l \<noteq> [] \<and> \<not> starts_with ''#'' l) (map str_trim (str_lines corpus))"

definition parse_flagged_npm :: "string \<Rightarrow> string list" where
  "parse_flagged_npm corpus = filter (\<lambda>l. l \<noteq> [] \<and> \<not> starts_with ''#'' l) (map str_trim (str_lines corpus))"

definition is_base64_char :: "char \<Rightarrow> bool" where
  "is_base64_char c \<longleftrightarrow>
     (65 \<le> byte_of c \<and> byte_of c \<le> (90::nat)) \<or> (97 \<le> byte_of c \<and> byte_of c \<le> (122::nat))
     \<or> (48 \<le> byte_of c \<and> byte_of c \<le> (57::nat)) \<or> c \<in> {CHR ''+'', CHR ''/'', CHR ''=''}"

fun f32_div :: "f32 \<Rightarrow> f32 \<Rightarrow> f32" where
  "f32_div (Fin a) (Fin b) = (if b \<noteq> 0 then f32_fit (rnd32 (a / b)) else if a = 0 then NaN else Inf (a < 0))"
| "f32_div (Inf s) (Fin b) = Inf (s \<noteq> (b < 0))"
| "f32_div (Fin a) (Inf t) = Fin 0"
| "f32_div _ _ = NaN"

definition f32_of_nat :: "nat \<Rightarrow> f32" where
  "f32_of_nat n = f32_fit (rnd32 (of_nat n))"

text \<open>A base64 character is one ASCII byte, and no byte of a longer character is one: the count over
  the characters is the count over the bytes.\<close>

definition base64_ratio :: "string \<Rightarrow> f32" where
  "base64_ratio s =
     (if s = [] then Fin 0
      else f32_div (f32_of_nat (length (filter is_base64_char s))) (f32_of_nat (length s)))"

abbreviation ellipsis :: string where "ellipsis \<equiv> [CHR 0xE2, CHR 0x80, CHR 0xA6]"
abbreviation arrow :: string where "arrow \<equiv> [CHR 0xE2, CHR 0x86, CHR 0x92]"

definition curl_hits :: "tier1 \<Rightarrow> string \<Rightarrow> hit list" where
  "curl_hits t line =
     (case curl_pipe_sh t line of
        None \<Rightarrow> []
      | Some (a, b) \<Rightarrow>
          [(\<lparr>verdict = Warn, category = CurlPipeSh, confidence = Fin 1,
             reason = ''remote-fetch-and-execute (`curl '' @ ellipsis @ '' | sh`)'',
             matched = str_trim (span_text line (a, b))\<rparr>, a, b)])"

fun url_hits :: "string list \<Rightarrow> string \<Rightarrow> hit list option" where
  "url_hits [] line = Some []"
| "url_hits (needle # needles) line =
     (case str_find needle line of
        None \<Rightarrow> url_hits needles line
      | Some pos \<Rightarrow> do {
          text \<leftarrow> str_slice line pos (pos + length needle);
          rest \<leftarrow> url_hits needles line;
          Some ((\<lparr>verdict = Warn, category = CurlPipeSh, confidence = f32_lit (9 / 10),
                 reason = ''`'' @ needle @ ''` is on the flagged-URLs list (known IOC / exploit-PoC host)'',
                 matched = text\<rparr>, pos, pos + length needle) # rest)
        })"

definition npm_token_name :: "string \<Rightarrow> string" where
  "npm_token_name tok =
     (case rfind_char (\<lambda>c. c = CHR ''@'') tok of
        None \<Rightarrow> tok | Some i \<Rightarrow> if i = 0 then tok else take i tok)"

fun first_flagged :: "string list \<Rightarrow> string list \<Rightarrow> string option" where
  "first_flagged packages [] = None"
| "first_flagged packages (tok # toks) =
     (if starts_with ''-'' tok then first_flagged packages toks
      else if npm_token_name tok \<in> set packages then Some (npm_token_name tok)
      else first_flagged packages toks)"

definition npm_hits :: "tier1 \<Rightarrow> string \<Rightarrow> hit list option" where
  "npm_hits t line =
     (case npm_unsafe t line of
        None \<Rightarrow> Some []
      | Some (a, b) \<Rightarrow> do {
          tail \<leftarrow> str_slice line b (length line);
          Some (case first_flagged (flagged_npm_packages t) (split_whitespace tail) of
                  None \<Rightarrow> []
                | Some name \<Rightarrow>
                    [(\<lparr>verdict = Warn, category = NpmUnsafeInstall, confidence = Fin 1,
                       reason = ''`'' @ name @ ''` is on the security_guard flagged-packages list'',
                       matched = str_trim (str_trim (span_text line (a, b)) @ tail)\<rparr>, a, b)])
        })"

fun first_group :: "(nat \<times> nat) option list \<Rightarrow> string \<Rightarrow> string" where
  "first_group [] line = []"
| "first_group (Some m # gs) line = span_text line m"
| "first_group (None # gs) line = first_group gs line"

definition bash_hits :: "tier1 \<Rightarrow> string \<Rightarrow> hit list" where
  "bash_hits t line =
     (case bash_c t line of
        None \<Rightarrow> []
      | Some ((a, b), groups) \<Rightarrow>
          let payload = first_group (take 3 groups) line
          in if 40 \<le> length payload \<and> f32_le (f32_lit (9 / 10)) (base64_ratio payload)
             then [(\<lparr>verdict = Warn, category = BashCBase64, confidence = Fin 1,
                     reason = ''`bash -c` with a long base64-shaped payload'',
                     matched = str_trim (span_text line (a, b))\<rparr>, a, b)]
             else [])"

definition atom_hits :: "tier1 \<Rightarrow> string \<Rightarrow> hit list option" where
  "atom_hits t line =
     map_option (map (\<lambda>h. (hit_to_result h, byte_offset h, byte_end h))) (find_all (t1_atoms t) line)"

definition classify_all :: "tier1 \<Rightarrow> string \<Rightarrow> hit list option" where
  "classify_all t line = do {
     urls \<leftarrow> url_hits (flagged_urls t) line;
     npm \<leftarrow> npm_hits t line;
     atoms \<leftarrow> atom_hits t line;
     Some (curl_hits t line @ urls @ npm @ bash_hits t line @ atoms)
   }"

section \<open>The heuristic backend\<close>

record heuristic_rules =
  ip_url_fetcher :: "string \<Rightarrow> (nat \<times> nat) option"
  insecure_tls_fetcher :: "string \<Rightarrow> (nat \<times> nat) option"
  chmod_then_exec :: "string \<Rightarrow> ((nat \<times> nat) \<times> (nat \<times> nat)) option"
  proc_subst_curl :: "string \<Rightarrow> (nat \<times> nat) option"

text \<open>The longest prefix without white space, \<open>;\<close>, \<open>|\<close> and \<open>&\<close>.\<close>

fun word_head :: "string \<Rightarrow> string" where
  "word_head [] = []"
| "word_head (c # cs) =
     (if ws_prefix (c # cs) \<noteq> 0 \<or> c \<in> {CHR '';'', CHR ''|'', CHR ''&''} then [] else c # word_head cs)"

text \<open>The loop over the separators; the outer option is the panic of a slice.\<close>

fun chmod_chain :: "string \<Rightarrow> nat \<times> nat \<Rightarrow> string \<Rightarrow> string \<Rightarrow> string list \<Rightarrow> classify_result option option" where
  "chmod_chain command m file tail [] = Some None"
| "chmod_chain command m file tail (sep # seps) =
     (case str_find sep tail of
        None \<Rightarrow> chmod_chain command m file tail seps
      | Some pos \<Rightarrow> do {
          after \<leftarrow> str_slice tail (pos + length sep) (length tail);
          let head = word_head (trim_start after);
          if head = file \<or> head = ''./'' @ file
          then do {
            text \<leftarrow> str_slice command (fst m) (snd m + pos + length sep + length head);
            Some (Some \<lparr>verdict = Warn, category = BashCBase64, confidence = f32_lit (75 / 100),
                        reason = ''`chmod +x` followed by execution of the same file'',
                        matched = str_trim text\<rparr>)
          }
          else chmod_chain command m file tail seps
        })"

definition heuristic_classify :: "heuristic_rules \<Rightarrow> string \<Rightarrow> nat option \<Rightarrow> classify_result option option" where
  "heuristic_classify r command hint =
     (case proc_subst_curl r command of
        Some m \<Rightarrow> Some (Some \<lparr>verdict = Warn, category = CurlPipeSh, confidence = f32_lit (85 / 100),
          reason = ''process-substitution wrapping of fetcher '' @ arrow @ '' shell (bypasses `|` check)'',
          matched = str_trim (span_text command m)\<rparr>)
      | None \<Rightarrow>
     (case insecure_tls_fetcher r command of
        Some m \<Rightarrow> Some (Some \<lparr>verdict = Warn, category = CurlPipeSh, confidence = f32_lit (7 / 10),
          reason = ''fetcher disables TLS cert validation (`--insecure` / `-k`)'',
          matched = str_trim (span_text command m)\<rparr>)
      | None \<Rightarrow>
     (case ip_url_fetcher r command of
        Some m \<Rightarrow> Some (Some \<lparr>verdict = Warn, category = CurlPipeSh, confidence = f32_lit (6 / 10),
          reason = ''fetcher targets a bare IP address (no domain)'',
          matched = str_trim (span_text command m)\<rparr>)
      | None \<Rightarrow>
     (case chmod_then_exec r command of
        Some (m, file) \<Rightarrow> do {
          tail \<leftarrow> str_slice command (snd m) (length command);
          chmod_chain command m (span_text command file) tail ['';'', ''&&'', ''||'', [NL]]
        }
      | None \<Rightarrow> Some None))))"

definition heuristic_backend :: "heuristic_rules \<Rightarrow> tier2_backend" where
  "heuristic_backend r = \<lparr>t2_name = ''heuristic'', t2_classify = heuristic_classify r\<rparr>"

section \<open>The classifier\<close>

record classifier =
  c_tier1 :: tier1
  c_tier2 :: tier2_backend
  block_threshold :: "f32 option"

text \<open>\<open>onnx\<close> stands for \<open>OnnxBackend::open\<close> on the configuration, which runs the \<open>ort\<close> crate.\<close>

definition try_new_with_backend ::
    "('e, tier2_backend) result \<Rightarrow> heuristic_rules \<Rightarrow> tier1 \<Rightarrow> BackendKind \<Rightarrow> ('e, classifier) result" where
  "try_new_with_backend onnx rules t kind =
     (case kind of
        StubKind \<Rightarrow> Inr \<lparr>c_tier1 = t, c_tier2 = stub_backend, block_threshold = None\<rparr>
      | HeuristicKind \<Rightarrow> Inr \<lparr>c_tier1 = t, c_tier2 = heuristic_backend rules, block_threshold = None\<rparr>
      | OnnxKind \<Rightarrow> (case onnx of
            Inr b \<Rightarrow> Inr \<lparr>c_tier1 = t, c_tier2 = b, block_threshold = None\<rparr>
          | Inl e \<Rightarrow> Inl e))"

definition new_with_backend ::
    "('e, tier2_backend) result \<Rightarrow> heuristic_rules \<Rightarrow> tier1 \<Rightarrow> BackendKind \<Rightarrow> classifier" where
  "new_with_backend onnx rules t kind =
     (case try_new_with_backend onnx rules t kind of
        Inr c \<Rightarrow> c
      | Inl e \<Rightarrow> \<lparr>c_tier1 = t, c_tier2 = stub_backend, block_threshold = None\<rparr>)"

definition with_block_threshold :: "f32 option \<Rightarrow> classifier \<Rightarrow> classifier" where
  "with_block_threshold t c =
     c\<lparr>block_threshold := (case t of
          Some v \<Rightarrow> if f32_is_finite v \<and> f32_lt WARN_THRESHOLD v \<and> f32_le v (Fin 1) then Some v else None
        | None \<Rightarrow> None)\<rparr>"

definition tier2_name :: "classifier \<Rightarrow> string" where
  "tier2_name c = t2_name (c_tier2 c)"

definition safe_result :: classify_result where
  "safe_result = \<lparr>verdict = Safe, category = NoCategory, confidence = Fin 0, reason = [], matched = []\<rparr>"

definition hint_of :: "hit list \<Rightarrow> nat option" where
  "hint_of hits = (case map (fst \<circ> snd) hits of [] \<Rightarrow> None | off # offs \<Rightarrow> Some (foldl min off offs))"

definition consult_tier2 :: "tier2_backend \<Rightarrow> string \<Rightarrow> hit list \<Rightarrow> nat \<Rightarrow> (hit list \<times> nat) option" where
  "consult_tier2 backend command hits distinct_signals =
     (if f32_lt (combined_confidence hits) SLM_CONFIRM_THRESHOLD
      then do {
        slm \<leftarrow> t2_classify backend command (hint_of hits);
        Some (case slm of
                None \<Rightarrow> (hits, distinct_signals)
              | Some r \<Rightarrow>
                  let off = (case hint_of hits of Some o' \<Rightarrow> o' | None \<Rightarrow> 0)
                  in (hits @ [(r, off, off)], distinct_signals + 1))
      }
      else Some (hits, distinct_signals))"

definition classify :: "classifier \<Rightarrow> string \<Rightarrow> classify_result option" where
  "classify c command = do {
     tier1_hits \<leftarrow> classify_all (c_tier1 c) command;
     (hits, distinct_signals) \<leftarrow> consult_tier2 (c_tier2 c) command tier1_hits (distinct_span_groups tier1_hits);
     Some (case combine_hits hits (block_threshold c) distinct_signals of
             Some r \<Rightarrow> r | None \<Rightarrow> safe_result)
   }"

definition system_atoms_snapshot :: "classifier \<Rightarrow> string list" where
  "system_atoms_snapshot c = atoms_snapshot (t1_atoms (c_tier1 c))"

section \<open>Confidences\<close>

definition conf_ok :: "hit list \<Rightarrow> bool" where
  "conf_ok hits \<longleftrightarrow> (\<forall>h\<in>set hits. f32_unit (confidence (fst h)))"

definition conf_val :: "hit \<Rightarrow> rat" where
  "conf_val h = (case confidence (fst h) of Fin q \<Rightarrow> q | _ \<Rightarrow> 0)"

lemma conf_val_unit:
  "f32_unit (confidence (fst h)) \<Longrightarrow> confidence (fst h) = Fin (conf_val h)
     \<and> 0 \<le> conf_val h \<and> conf_val h \<le> 1 \<and> rnd32 (conf_val h) = conf_val h"
  by (auto simp: conf_val_def elim: f32_unitE)

text \<open>The probability that no signal is right, as the code rounds it.\<close>

definition survive :: "rat \<Rightarrow> rat list \<Rightarrow> rat" where
  "survive a cs = foldl (\<lambda>a c. rnd32 (a * rnd32 (1 - c))) a cs"

lemma f32_fit_rnd32 [simp]: "0 \<le> x \<Longrightarrow> x \<le> 1 \<Longrightarrow> f32_fit (rnd32 x) = Fin (rnd32 x)"
  using f32r.unit_interval [of x] by simp

lemma survive_f32:
  assumes "conf_ok hits" and "0 \<le> a" and "a \<le> 1" and "rnd32 a = a"
  shows "foldl (\<lambda>acc h. f32_mul acc (f32_sub (Fin 1) (confidence (fst h)))) (Fin a) hits
    = Fin (survive a (map conf_val hits))"
  using assms
proof (induction hits arbitrary: a)
  case Nil
  then show ?case by (simp add: survive_def)
next
  case (Cons h hits)
  have h: "confidence (fst h) = Fin (conf_val h)" "0 \<le> conf_val h" "conf_val h \<le> 1"
    using Cons.prems(1) conf_val_unit [of h] by (simp_all add: conf_ok_def)
  have u: "0 \<le> rnd32 (1 - conf_val h)" "rnd32 (1 - conf_val h) \<le> 1"
    using f32r.unit_interval [of "1 - conf_val h"] h by simp_all
  have prod: "0 \<le> a * rnd32 (1 - conf_val h)" "a * rnd32 (1 - conf_val h) \<le> 1"
    using u Cons.prems(2,3) by (simp_all add: mult_le_one)
  note step = f32r.survive_step [OF Cons.prems(2,3,4) h(2,3)]
  have le1: "rnd32 (a * rnd32 (1 - conf_val h)) \<le> 1" using step(2) Cons.prems(3) by linarith
  have "f32_mul (Fin a) (f32_sub (Fin 1) (confidence (fst h))) = Fin (rnd32 (a * rnd32 (1 - conf_val h)))"
    using h prod by simp
  then show ?case
    using Cons.IH [OF _ step(1) le1 step(4)] Cons.prems(1) by (simp add: survive_def conf_ok_def)
qed

lemma survive_bounds:
  assumes "\<forall>c\<in>set cs. 0 \<le> c \<and> c \<le> 1"
  shows "0 \<le> survive 1 cs" and "survive 1 cs \<le> 1"
    and "c \<in> set cs \<Longrightarrow> survive 1 cs \<le> rnd32 (1 - c)"
  using f32r.survive_fold [of 1 cs] assms by (auto simp: survive_def)

lemma conf_ok_vals: "conf_ok hits \<Longrightarrow> \<forall>c\<in>set (map conf_val hits). 0 \<le> c \<and> c \<le> 1"
  using conf_val_unit by (auto simp: conf_ok_def)

lemma combined_value:
  assumes "conf_ok hits" and "hits \<noteq> []"
  shows "combined_confidence hits = Fin (rnd32 (1 - survive 1 (map conf_val hits)))"
  using survive_f32 [OF assms(1), of 1] survive_bounds(1,2) [OF conf_ok_vals [OF assms(1)]] assms(2)
  by (simp add: combined_confidence_def)

lemma combined_unit: "conf_ok hits \<Longrightarrow> f32_unit (combined_confidence hits)"
proof (cases "hits = []")
  case True
  then show ?thesis by (simp add: combined_confidence_def f32_unit_def)
next
  case False
  assume ok: "conf_ok hits"
  let ?x = "1 - survive 1 (map conf_val hits)"
  have "0 \<le> ?x" "?x \<le> 1" using survive_bounds [OF conf_ok_vals [OF ok]] by simp_all
  then show ?thesis
    using f32r.unit_interval [of ?x] f32r.idem [of ?x] by (simp add: combined_value [OF ok False] f32_unit_def)
qed

lemma combined_dominates:
  assumes "conf_ok hits" and "h \<in> set hits" and "f32_le (Fin (1 / 2)) (confidence (fst h))"
  shows "f32_le (confidence (fst h)) (combined_confidence hits)"
proof -
  let ?c = "conf_val h"
  have h: "confidence (fst h) = Fin ?c" "0 \<le> ?c" "?c \<le> 1" "rnd32 ?c = ?c"
    using assms(1,2) conf_val_unit [of h] by (simp_all add: conf_ok_def)
  then have "1 / 2 \<le> ?c" using assms(3) by simp
  then have exact: "rnd32 (1 - ?c) = 1 - ?c" using rnd32_one_minus h by blast
  have "survive 1 (map conf_val hits) \<le> rnd32 (1 - ?c)"
    by (rule survive_bounds(3) [OF conf_ok_vals [OF assms(1)]]) (use assms(2) in simp)
  then have "?c \<le> 1 - survive 1 (map conf_val hits)" using exact by simp
  then have "rnd32 ?c \<le> rnd32 (1 - survive 1 (map conf_val hits))" using h(2) by (intro f32r.mono)
  moreover have "hits \<noteq> []" using assms(2) by auto
  ultimately show ?thesis using h(1,4) by (simp add: combined_value [OF assms(1)])
qed

lemma combined_mono:
  assumes "conf_ok (hits @ [h])"
  shows "f32_le (combined_confidence hits) (combined_confidence (hits @ [h]))"
proof -
  have ok: "conf_ok hits" "f32_unit (confidence (fst h))" using assms by (simp_all add: conf_ok_def)
  note bounds = survive_bounds [OF conf_ok_vals [OF assms]] survive_bounds [OF conf_ok_vals [OF ok(1)]]
  show ?thesis
  proof (cases "hits = []")
    case True
    then show ?thesis
      using combined_unit [OF assms] by (auto simp: combined_confidence_def elim!: f32_unitE)
  next
    case False
    let ?s = "survive 1 (map conf_val hits)"
    have c: "0 \<le> conf_val h" "conf_val h \<le> 1" using conf_val_unit [OF ok(2)] by simp_all
    have "rnd32 ?s = ?s" using f32r.survive_fold [of 1 "map conf_val hits"] conf_ok_vals [OF ok(1)]
      by (simp add: survive_def)
    then have "survive 1 (map conf_val (hits @ [h])) \<le> ?s"
      using f32r.survive_step(2) [of ?s, OF _ _ _ c] bounds by (simp add: survive_def)
    then have "rnd32 (1 - ?s) \<le> rnd32 (1 - survive 1 (map conf_val (hits @ [h])))"
      using bounds by (intro f32r.mono) simp_all
    then show ?thesis using False by (simp add: combined_value [OF ok(1)] combined_value [OF assms])
  qed
qed

section \<open>Groups of overlapping matches\<close>

text \<open>A group begins at a match start that lies strictly inside no match.\<close>

definition group_starts :: "(nat \<times> nat) set \<Rightarrow> nat set" where
  "group_starts S = {s \<in> fst ` S. \<forall>(a, b)\<in>S. \<not> (a < s \<and> s < b)}"

lemma span_groups_card:
  assumes "sorted (map fst xs)" and "\<forall>(a, b)\<in>set xs. a < b"
  shows "span_groups g ce xs = g + card {s \<in> group_starts (set xs). ce \<le> s}"
  using assms
proof (induction g ce xs rule: span_groups.induct)
  case (1 g ce)
  then show ?case by (simp add: group_starts_def)
next
  case (2 g ce s e xs)
  have later: "s \<le> a" if "(a, b) \<in> set xs" for a b using that "2.prems"(1) by force
  have IH: "sorted (map fst xs)" "\<forall>(a, b)\<in>set xs. a < b" and e: "s < e" using "2.prems" by auto
  show ?case
  proof (cases "s < ce")
    case True
    have "{x \<in> group_starts (set ((s, e) # xs)). ce \<le> x} = {x \<in> group_starts (set xs). max ce e \<le> x}"
      using True e later by (fastforce simp: group_starts_def)
    with "2.IH"(1) [OF True IH] True show ?thesis by simp
  next
    case False
    let ?G = "{x \<in> group_starts (set xs). e \<le> x}"
    have "{x \<in> group_starts (set ((s, e) # xs)). ce \<le> x} = insert s ?G"
      using False e later by (fastforce simp: group_starts_def)
    moreover have "s \<notin> ?G" using e by simp
    moreover have "finite ?G" by (simp add: group_starts_def)
    ultimately show ?thesis using "2.IH"(2) [OF False IH] False by simp
  qed
qed

definition spans_of :: "hit list \<Rightarrow> (nat \<times> nat) set" where
  "spans_of hits = set (map snd hits)"

lemma distinct_span_groups_starts:
  assumes "\<forall>(a, b)\<in>spans_of hits. a < b"
  shows "distinct_span_groups hits = card (group_starts (spans_of hits))"
proof -
  let ?xs = "sort_key fst (map snd hits)"
  have "distinct_span_groups hits = span_groups 0 0 ?xs"
    by (simp add: distinct_span_groups_def split: list.splits)
  also have "\<dots> = card {s \<in> group_starts (set ?xs). 0 \<le> s}"
    using span_groups_card [of ?xs 0 0] assms by (simp add: spans_of_def)
  finally show ?thesis by (simp add: spans_of_def)
qed

text \<open>Two matches overlap when they share a byte; a group is a class of the relation that chains of
  overlapping matches generate.\<close>

definition overlap :: "nat \<times> nat \<Rightarrow> nat \<times> nat \<Rightarrow> bool" where
  "overlap x y \<longleftrightarrow> fst x < snd y \<and> fst y < snd x"

definition linked :: "(nat \<times> nat) set \<Rightarrow> ((nat \<times> nat) \<times> (nat \<times> nat)) set" where
  "linked S = {(x, y). x \<in> S \<and> y \<in> S \<and> (x, y) \<in> {(u, v). u \<in> S \<and> v \<in> S \<and> overlap u v}\<^sup>*}"

definition group_root :: "(nat \<times> nat) set \<Rightarrow> nat \<times> nat \<Rightarrow> nat" where
  "group_root S x = Max {s \<in> group_starts S. s \<le> fst x}"

lemma linked_refl: "x \<in> S \<Longrightarrow> (x, x) \<in> linked S"
  by (simp add: linked_def)

lemma linked_sym: "(x, y) \<in> linked S \<Longrightarrow> (y, x) \<in> linked S"
proof -
  have "sym ({(u, v). u \<in> S \<and> v \<in> S \<and> overlap u v}\<^sup>*)"
    by (rule sym_rtrancl) (auto simp: sym_def overlap_def)
  then show "(x, y) \<in> linked S \<Longrightarrow> (y, x) \<in> linked S" by (auto simp: linked_def dest: symD)
qed

lemma linked_trans: "(x, y) \<in> linked S \<Longrightarrow> (y, z) \<in> linked S \<Longrightarrow> (x, z) \<in> linked S"
  by (auto simp: linked_def)

lemma linked_overlap: "x \<in> S \<Longrightarrow> y \<in> S \<Longrightarrow> overlap x y \<Longrightarrow> (x, y) \<in> linked S"
  by (auto simp: linked_def)

lemma group_leader:
  assumes "\<forall>(a, b)\<in>S. a < b" and "x \<in> S"
  shows "\<exists>y\<in>S. fst y \<in> group_starts S \<and> fst y \<le> fst x \<and> (x, y) \<in> linked S
    \<and> (\<forall>t\<in>group_starts S. t \<le> fst x \<longrightarrow> t \<le> fst y)"
  using assms(2)
proof (induction "fst x" arbitrary: x rule: less_induct)
  case less
  show ?case
  proof (cases "fst x \<in> group_starts S")
    case True
    then show ?thesis using less.prems linked_refl by blast
  next
    case False
    then obtain a b where ab: "(a, b) \<in> S" "a < fst x" "fst x < b"
      using less.prems by (auto simp: group_starts_def)
    obtain y where y: "y \<in> S" "fst y \<in> group_starts S" "fst y \<le> a" "((a, b), y) \<in> linked S"
      "\<forall>t\<in>group_starts S. t \<le> a \<longrightarrow> t \<le> fst y"
      using less.hyps [of "(a, b)"] ab by auto
    have "fst x < snd x" using assms(1) less.prems by auto
    then have "(x, (a, b)) \<in> linked S"
      using ab less.prems by (intro linked_overlap) (auto simp: overlap_def)
    then have "(x, y) \<in> linked S" using y(4) linked_trans by blast
    moreover have "t \<le> fst y" if "t \<in> group_starts S" "t \<le> fst x" for t
    proof -
      have "t \<le> a" using that ab by (fastforce simp: group_starts_def)
      with y(5) that show ?thesis by blast
    qed
    ultimately show ?thesis using y ab(2) by (intro bexI [of _ y]) auto
  qed
qed

lemma group_root_linked:
  assumes "(x, y) \<in> linked S" shows "group_root S x = group_root S y"
proof -
  have same: "{s \<in> group_starts S. s \<le> fst u} = {s \<in> group_starts S. s \<le> fst v}"
    if "u \<in> S" "v \<in> S" "overlap u v" for u v
    using that by (cases u; cases v) (fastforce simp: group_starts_def overlap_def)
  have root: "group_root S u = group_root S v" if "u \<in> S" "v \<in> S" "overlap u v" for u v
    unfolding group_root_def by (simp only: same [OF that])
  from assms have "(x, y) \<in> {(u, v). u \<in> S \<and> v \<in> S \<and> overlap u v}\<^sup>*" by (simp add: linked_def)
  then show ?thesis
    by (induction rule: rtrancl_induct) (auto dest: root)
qed

lemma group_root_leader:
  assumes "finite S" and "\<forall>(a, b)\<in>S. a < b" and "x \<in> S"
  shows "\<exists>y\<in>S. fst y = group_root S x \<and> fst y \<in> group_starts S \<and> (x, y) \<in> linked S"
proof -
  obtain y where y: "y \<in> S" "fst y \<in> group_starts S" "fst y \<le> fst x" "(x, y) \<in> linked S"
    "\<forall>t\<in>group_starts S. t \<le> fst x \<longrightarrow> t \<le> fst y" using group_leader [OF assms(2,3)] by blast
  have "group_root S x = fst y" unfolding group_root_def
    by (rule Max_eqI) (use y assms(1) in \<open>auto simp: group_starts_def\<close>)
  with y show ?thesis by auto
qed

lemma linked_iff_root:
  assumes "finite S" and "\<forall>(a, b)\<in>S. a < b" and "x \<in> S" and "y \<in> S"
  shows "(x, y) \<in> linked S \<longleftrightarrow> group_root S x = group_root S y"
proof
  assume eq: "group_root S x = group_root S y"
  obtain u where u: "u \<in> S" "fst u = group_root S x" "(x, u) \<in> linked S"
    using group_root_leader [OF assms(1,2,3)] by blast
  obtain v where v: "v \<in> S" "fst v = group_root S y" "(y, v) \<in> linked S"
    using group_root_leader [OF assms(1,2,4)] by blast
  have "overlap u v" using u v eq assms(2) by (cases u; cases v) (auto simp: overlap_def)
  then have "(u, v) \<in> linked S" using u v linked_overlap by blast
  then show "(x, y) \<in> linked S" using u(3) v(3) linked_sym linked_trans by blast
qed (rule group_root_linked)

lemma group_root_image:
  assumes "finite S" and "\<forall>(a, b)\<in>S. a < b"
  shows "group_root S ` S = group_starts S"
proof
  show "group_root S ` S \<subseteq> group_starts S"
    using group_root_leader [OF assms] by (metis image_subsetI)
  show "group_starts S \<subseteq> group_root S ` S"
  proof
    fix s assume s: "s \<in> group_starts S"
    then obtain x where x: "x \<in> S" "fst x = s" by (auto simp: group_starts_def)
    have "group_root S x = s" unfolding group_root_def
      by (rule Max_eqI) (use s x assms(1) in \<open>auto simp: group_starts_def\<close>)
    with x show "s \<in> group_root S ` S" by (metis imageI)
  qed
qed

lemma card_quotient_kernel:
  assumes "\<And>x y. x \<in> S \<Longrightarrow> y \<in> S \<Longrightarrow> (x, y) \<in> r \<longleftrightarrow> f x = f y" and "r \<subseteq> S \<times> S"
  shows "card (S // r) = card (f ` S)"
proof -
  have "S // r = (\<lambda>v. {y \<in> S. f y = v}) ` (f ` S)"
    using assms by (fastforce simp: quotient_def Image_def)
  moreover have "inj_on (\<lambda>v. {y \<in> S. f y = v}) (f ` S)" by (rule inj_onI) auto
  ultimately show ?thesis by (simp add: card_image)
qed

text \<open>
  The count of distinct signals that guards the auto-block is the number of groups of detectors
  that looked at the same text: for matches that are not empty, \<open>distinct_span_groups\<close> returns the number
  of classes of the matches under chains of overlaps, whatever the order the detectors reported them in.
  Its single pass over the sorted spans never counts one behaviour twice nor merges two.
\<close>

theorem span_groups_are_classes:
  assumes "\<forall>(a, b)\<in>spans_of hits. a < b"
  shows "distinct_span_groups hits = card (spans_of hits // linked (spans_of hits))"
proof -
  let ?S = "spans_of hits"
  have fin: "finite ?S" by (simp add: spans_of_def)
  have "card (?S // linked ?S) = card (group_root ?S ` ?S)"
    by (rule card_quotient_kernel) (use linked_iff_root [OF fin assms] in \<open>auto simp: linked_def\<close>)
  then show ?thesis
    by (simp add: group_root_image [OF fin assms] distinct_span_groups_starts [OF assms])
qed

theorem span_groups_are_classes_witness:
  "let r = hit_to_result \<lparr>hit_atom = ''a'', byte_offset = 0, byte_end = 1\<rparr>;
       hits = [(r, 9, 12), (r, 0, 5), (r, 3, 8), (r, 10, 14)]
   in distinct_span_groups hits = 2 \<and> card (spans_of hits // linked (spans_of hits)) = 2"
proof -
  let ?r = "hit_to_result \<lparr>hit_atom = ''a'', byte_offset = 0, byte_end = 1\<rparr>"
  let ?hits = "[(?r, 9, 12), (?r, 0, 5), (?r, 3, 8), (?r, 10, 14)]"
  have "distinct_span_groups ?hits = 2" by (simp add: distinct_span_groups_def)
  moreover have "distinct_span_groups ?hits = card (spans_of ?hits // linked (spans_of ?hits))"
    by (rule span_groups_are_classes) (simp add: spans_of_def)
  ultimately show ?thesis by (simp add: Let_def)
qed

section \<open>What the first tier reports\<close>

text \<open>What the regex crate promises of a match: it is a span of the text on character boundaries. None of
  the patterns matches the empty string.\<close>

definition in_text :: "(string \<Rightarrow> (nat \<times> nat) option) \<Rightarrow> bool" where
  "in_text rx \<longleftrightarrow> (\<forall>s a b. rx s = Some (a, b) \<longrightarrow> a < b \<and> b \<le> length s
     \<and> (utf8_valid s \<longrightarrow> is_char_boundary s a \<and> is_char_boundary s b))"

lemma in_textD:
  "in_text rx \<Longrightarrow> rx s = Some (a, b) \<Longrightarrow> a < b \<and> b \<le> length s"
  "in_text rx \<Longrightarrow> rx s = Some (a, b) \<Longrightarrow> utf8_valid s \<Longrightarrow> is_char_boundary s a \<and> is_char_boundary s b"
  by (auto simp: in_text_def)

definition tier1_ok :: "tier1 \<Rightarrow> bool" where
  "tier1_ok t \<longleftrightarrow> in_text (curl_pipe_sh t) \<and> in_text (npm_unsafe t)
     \<and> in_text (\<lambda>s. map_option fst (bash_c t s))
     \<and> (\<forall>u\<in>set (flagged_urls t). u \<noteq> [] \<and> utf8_valid u)
     \<and> (\<exists>engine corpus. multi_pattern engine \<and> t1_atoms t = atom_matcher_new engine corpus)"

definition signal_ok :: "string \<Rightarrow> hit \<Rightarrow> bool" where
  "signal_ok line h \<longleftrightarrow> (case h of (r, a, b) \<Rightarrow> verdict r = Warn \<and> f32_unit (confidence r)
     \<and> f32_le (f32_lit (6 / 10)) (confidence r) \<and> a < b \<and> b \<le> length line)"

lemma f32_lit_le: "0 \<le> p \<Longrightarrow> p \<le> q \<Longrightarrow> f32_le (f32_lit p) (f32_lit q)"
  by (simp add: f32_lit_def rnd32_mono)

lemma f32_one: "Fin 1 = f32_lit 1"
  by (simp add: f32_lit_def)

lemma signal_okI:
  "6 / 10 \<le> q \<Longrightarrow> q \<le> 1 \<Longrightarrow> a < b \<Longrightarrow> b \<le> length line
   \<Longrightarrow> signal_ok line (\<lparr>verdict = Warn, category = c, confidence = f32_lit q, reason = why, matched = m\<rparr>, a, b)"
  by (simp add: signal_ok_def f32_lit_le f32_unit_lit)

lemma curl_hits_ok:
  assumes "in_text (curl_pipe_sh t)" and "h \<in> set (curl_hits t line)"
  shows "signal_ok line h"
proof -
  obtain a b where ab: "curl_pipe_sh t line = Some (a, b)"
    using assms(2) by (cases "curl_pipe_sh t line") (auto simp: curl_hits_def)
  with in_textD(1) [OF assms(1) ab] assms(2) show ?thesis
    by (auto simp: curl_hits_def f32_one intro!: signal_okI)
qed

lemma url_hits_total:
  assumes "\<forall>u\<in>set urls. u \<noteq> [] \<and> utf8_valid u" and "utf8_valid line"
  shows "\<exists>hits. url_hits urls line = Some hits"
  using assms(1)
proof (induction urls)
  case Nil
  then show ?case by simp
next
  case (Cons u urls)
  then obtain hits where hits: "url_hits urls line = Some hits" by auto
  show ?case
  proof (cases "str_find u line")
    case None
    with hits show ?thesis by simp
  next
    case (Some i)
    with hits Cons.prems str_find_boundary [OF assms(2) _ _ Some] show ?thesis
      by (simp add: str_slice_Some)
  qed
qed

lemma url_hits_ok:
  assumes "\<forall>u\<in>set urls. u \<noteq> []" and "url_hits urls line = Some hits"
  shows "(\<forall>h\<in>set hits. signal_ok line h) \<and> (hits = [] \<longleftrightarrow> (\<forall>u\<in>set urls. \<not> sublist u line))"
  using assms
proof (induction urls arbitrary: hits)
  case Nil
  then show ?case by simp
next
  case (Cons u urls)
  show ?case
  proof (cases "str_find u line")
    case None
    moreover have "\<not> sublist u line" using None str_find_None [of u line] by simp
    ultimately show ?thesis using Cons by simp
  next
    case (Some i)
    have "i + length u \<le> length line" using str_find_Some [OF Some] by simp
    moreover have "sublist u line" using Some str_find_None [of u line] by auto
    ultimately show ?thesis using Some Cons
      by (auto simp: bind_eq_Some_conv intro!: signal_okI)
  qed
qed

lemma npm_hits_total:
  assumes "in_text (npm_unsafe t)" and "utf8_valid line"
  shows "\<exists>hits. npm_hits t line = Some hits"
proof (cases "npm_unsafe t line")
  case None
  then show ?thesis by (simp add: npm_hits_def)
next
  case (Some m)
  obtain a b where m: "m = (a, b)" by (cases m)
  note ab = in_textD [OF assms(1) Some [unfolded m]]
  show ?thesis using ab assms(2) Some m by (simp add: npm_hits_def str_slice_from)
qed

lemma npm_hits_ok:
  assumes "in_text (npm_unsafe t)" and "npm_hits t line = Some hits" and "h \<in> set hits"
  shows "signal_ok line h"
proof -
  obtain a b where ab: "npm_unsafe t line = Some (a, b)"
    using assms(2,3) by (cases "npm_unsafe t line") (auto simp: npm_hits_def)
  with in_textD(1) [OF assms(1) ab] assms(2,3) show ?thesis
    by (auto simp: npm_hits_def f32_one bind_eq_Some_conv intro!: signal_okI split: option.splits)
qed

lemma bash_hits_ok:
  assumes "in_text (\<lambda>s. map_option fst (bash_c t s))" and "h \<in> set (bash_hits t line)"
  shows "signal_ok line h"
proof -
  obtain a b gs where ab: "bash_c t line = Some ((a, b), gs)"
    using assms(2) by (cases "bash_c t line") (auto simp: bash_hits_def)
  then have "a < b \<and> b \<le> length line" using in_textD(1) [OF assms(1), of line a b] by simp
  with ab assms(2) show ?thesis
    by (auto simp: bash_hits_def Let_def f32_one intro!: signal_okI split: if_splits)
qed

lemma atom_hits_ok:
  assumes "multi_pattern engine" and "t1_atoms t = atom_matcher_new engine corpus"
  shows "\<exists>hits. atom_hits t line = Some hits \<and> (\<forall>h\<in>set hits. signal_ok line h)
    \<and> (hits = [] \<longleftrightarrow> (\<forall>p\<in>set (parse_atoms corpus). \<not> sublist p line))"
proof -
  note nonempty = parse_atoms_nonempty [of corpus]
  obtain hs where hs: "find_all (t1_atoms t) line = Some hs"
    using multi_pattern.find_all_total [OF assms(1) nonempty] by (auto simp: assms(2) atom_matcher_new_def)
  note all = multi_pattern.find_all_hits [OF assms(1) nonempty hs [unfolded assms(2) atom_matcher_new_def]]
  note cover = multi_pattern.find_all_covers [OF assms(1) nonempty hs [unfolded assms(2) atom_matcher_new_def]]
  have "signal_ok line (hit_to_result h, byte_offset h, byte_end h)" if "h \<in> set hs" for h
  proof -
    have "hit_atom h \<noteq> []" using all(1) [OF that] nonempty by auto
    then show ?thesis unfolding hit_to_result_def
      using all(2,3) [OF that] by (intro signal_okI) (simp_all add: occurs_at_def)
  qed
  moreover have "hs = [] \<longleftrightarrow> (\<forall>p\<in>set (parse_atoms corpus). \<not> sublist p line)"
    using cover all(1,2) by (cases hs) (auto simp: occurs_at_sublist, blast+)
  ultimately show ?thesis using hs by (auto simp: atom_hits_def)
qed

lemma classify_all_signals:
  assumes "tier1_ok t" and "classify_all t line = Some hits"
  shows "h \<in> set hits \<Longrightarrow> signal_ok line h"
proof -
  obtain engine corpus where e: "multi_pattern engine" "t1_atoms t = atom_matcher_new engine corpus"
    using assms(1) by (auto simp: tier1_ok_def)
  obtain urls npm atoms where parts: "url_hits (flagged_urls t) line = Some urls" "npm_hits t line = Some npm"
    "atom_hits t line = Some atoms" "hits = curl_hits t line @ urls @ npm @ bash_hits t line @ atoms"
    using assms(2) by (auto simp: classify_all_def bind_eq_Some_conv)
  have "\<forall>u\<in>set (flagged_urls t). u \<noteq> []" using assms(1) by (simp add: tier1_ok_def)
  note urls = url_hits_ok [OF this parts(1)]
  have atoms: "\<forall>h\<in>set atoms. signal_ok line h" using atom_hits_ok [OF e, of line] parts(3) by auto
  have regexes: "in_text (curl_pipe_sh t)" "in_text (npm_unsafe t)" "in_text (\<lambda>s. map_option fst (bash_c t s))"
    using assms(1) by (simp_all add: tier1_ok_def)
  assume "h \<in> set hits"
  then consider "h \<in> set (curl_hits t line)" | "h \<in> set urls" | "h \<in> set npm" | "h \<in> set (bash_hits t line)"
    | "h \<in> set atoms" using parts(4) by auto
  then show "signal_ok line h"
    using curl_hits_ok [OF regexes(1)] urls npm_hits_ok [OF regexes(2) parts(2)] bash_hits_ok [OF regexes(3)] atoms
    by cases blast+
qed

lemma classify_all_total:
  assumes "tier1_ok t" and "utf8_valid line"
  shows "\<exists>hits. classify_all t line = Some hits"
proof -
  obtain engine corpus where e: "multi_pattern engine" "t1_atoms t = atom_matcher_new engine corpus"
    using assms(1) by (auto simp: tier1_ok_def)
  show ?thesis
    using url_hits_total [OF _ assms(2), of "flagged_urls t"] npm_hits_total [OF _ assms(2), of t]
      atom_hits_ok [OF e, of line] assms(1)
    by (auto simp: classify_all_def tier1_ok_def)
qed

text \<open>What the first tier looks for, said without its machinery.\<close>

definition tier1_suspicious :: "tier1 \<Rightarrow> string \<Rightarrow> bool" where
  "tier1_suspicious t line \<longleftrightarrow> curl_pipe_sh t line \<noteq> None
     \<or> (\<exists>u\<in>set (flagged_urls t). sublist u line)
     \<or> (\<exists>a\<in>set (am_atoms (t1_atoms t)). sublist a line)
     \<or> npm_hits t line \<noteq> Some [] \<or> bash_hits t line \<noteq> []"

lemma classify_all_Nil:
  assumes "tier1_ok t" and "classify_all t line = Some hits"
  shows "hits = [] \<longleftrightarrow> \<not> tier1_suspicious t line"
proof -
  obtain engine corpus where e: "multi_pattern engine" "t1_atoms t = atom_matcher_new engine corpus"
    using assms(1) by (auto simp: tier1_ok_def)
  obtain urls npm atoms where parts: "url_hits (flagged_urls t) line = Some urls" "npm_hits t line = Some npm"
    "atom_hits t line = Some atoms" "hits = curl_hits t line @ urls @ npm @ bash_hits t line @ atoms"
    using assms(2) by (auto simp: classify_all_def bind_eq_Some_conv)
  have "\<forall>u\<in>set (flagged_urls t). u \<noteq> []" using assms(1) by (simp add: tier1_ok_def)
  note urls = url_hits_ok [OF this parts(1)]
  have "atoms = [] \<longleftrightarrow> (\<forall>p\<in>set (parse_atoms corpus). \<not> sublist p line)"
    using atom_hits_ok [OF e, of line] parts(3) by auto
  moreover have "am_atoms (t1_atoms t) = parse_atoms corpus"
    by (simp add: e(2) atom_matcher_new_def with_atoms_def)
  moreover have "curl_hits t line = [] \<longleftrightarrow> curl_pipe_sh t line = None"
    by (auto simp: curl_hits_def split: option.splits)
  ultimately show ?thesis using urls parts(2,4) by (auto simp: tier1_suspicious_def)
qed

lemma signals_conf_ok: "\<forall>h\<in>set hits. signal_ok line h \<Longrightarrow> conf_ok hits"
  by (auto simp: conf_ok_def signal_ok_def)

section \<open>The verdict\<close>

lemma half_le_lit: "f32_le (Fin (1 / 2)) (f32_lit (6 / 10))"
  using f32_lit_le [of "1 / 2" "6 / 10"] rnd32_exact [of 1 1] by (simp add: f32_lit_def)

lemma WARN_THRESHOLD_half: "WARN_THRESHOLD = Fin (1 / 2)"
  using rnd32_exact [of 1 1] by (simp add: WARN_THRESHOLD_def f32_lit_def)

lemma f32_le_trans_unit: "f32_unit a \<Longrightarrow> f32_unit b \<Longrightarrow> f32_unit c \<Longrightarrow> f32_le a b \<Longrightarrow> f32_le b c \<Longrightarrow> f32_le a c"
  by (auto elim!: f32_unitE)

lemma f32_not_lt_unit: "f32_unit a \<Longrightarrow> f32_unit b \<Longrightarrow> \<not> f32_lt a b \<longleftrightarrow> f32_le b a"
  by (auto elim!: f32_unitE)

lemma primary_hit_in: "hits \<noteq> [] \<Longrightarrow> \<exists>h\<in>set hits. primary_hit hits = Some h"
proof -
  have keep: "foldl (\<lambda>a b. if f32_lt (confidence (fst b)) (confidence (fst a)) then a else b) h hs \<in> set (h # hs)"
    for h :: hit and hs by (induction hs arbitrary: h) auto
  show "hits \<noteq> [] \<Longrightarrow> ?thesis" using keep by (cases hits) (simp_all del: set_simps)
qed

text \<open>What the second tier owes the dispatcher: a flagged result is not Safe and carries a probability.\<close>

locale tier2_contract =
  fixes backend :: tier2_backend
  assumes flags: "t2_classify backend cmd hint = Some (Some r) \<Longrightarrow> verdict r \<noteq> Safe \<and> f32_unit (confidence r)"
begin

lemma consulted:
  assumes "tier1_ok t" and "classify_all t cmd = Some hits"
    and "consult_tier2 backend cmd hits n = Some (hits', n')"
  shows "conf_ok hits'" and "\<forall>h\<in>set hits'. verdict (fst h) \<noteq> Safe"
    and "\<exists>more. hits' = hits @ more \<and> n' = n + length more
       \<and> (\<forall>h\<in>set more. \<exists>hint. t2_classify backend cmd hint = Some (Some (fst h)))"
proof -
  have t1: "conf_ok hits" "\<forall>h\<in>set hits. verdict (fst h) \<noteq> Safe"
    using classify_all_signals [OF assms(1,2)] by (auto simp: conf_ok_def signal_ok_def)
  from assms(3) consider "hits' = hits" "n' = n"
    | r off hint where "hits' = hits @ [(r, off, off)]" "n' = n + 1" "t2_classify backend cmd hint = Some (Some r)"
    by (auto simp: consult_tier2_def bind_eq_Some_conv Let_def split: if_splits option.splits)
  then show "conf_ok hits'" "\<forall>h\<in>set hits'. verdict (fst h) \<noteq> Safe"
    "\<exists>more. hits' = hits @ more \<and> n' = n + length more
       \<and> (\<forall>h\<in>set more. \<exists>hint. t2_classify backend cmd hint = Some (Some (fst h)))"
    using t1 by (cases; use flags in \<open>fastforce simp: conf_ok_def\<close>)+
qed

end

interpretation stub: tier2_contract stub_backend
  by unfold_locales (simp_all add: stub_backend_def)

lemma chmod_chain_result:
  "chmod_chain cmd m f rest seps = Some (Some r) \<Longrightarrow> verdict r = Warn \<and> f32_unit (confidence r)"
  by (induction seps)
     (auto simp: bind_eq_Some_conv Let_def f32_unit_lit split: option.splits if_splits)

declare chmod_chain.simps [simp del]

lemma heuristic_result:
  "heuristic_classify rules cmd hint = Some (Some r) \<Longrightarrow> verdict r = Warn \<and> f32_unit (confidence r)"
  by (auto simp: heuristic_classify_def bind_eq_Some_conv f32_unit_lit split: option.splits
      dest: chmod_chain_result)

interpretation heuristic: tier2_contract "heuristic_backend rules" for rules
  by unfold_locales (auto simp: heuristic_backend_def dest: heuristic_result)

lemma classify_cases:
  assumes "classify c cmd = Some r"
  obtains hits1 hits n where "classify_all (c_tier1 c) cmd = Some hits1"
    and "consult_tier2 (c_tier2 c) cmd hits1 (distinct_span_groups hits1) = Some (hits, n)"
    and "r = (case combine_hits hits (block_threshold c) n of Some r \<Rightarrow> r | None \<Rightarrow> safe_result)"
  using assms by (auto simp: classify_def bind_eq_Some_conv)

lemma combine_hits_cases:
  assumes "conf_ok hits"
  shows "(hits = [] \<or> f32_lt (combined_confidence hits) WARN_THRESHOLD) \<and> combine_hits hits bt n = None
    \<or> (\<exists>r h. combine_hits hits bt n = Some r \<and> h \<in> set hits \<and> confidence r = combined_confidence hits
         \<and> f32_le (Fin (1 / 2)) (confidence r)
         \<and> verdict r = (case bt of Some t \<Rightarrow> if 2 \<le> n \<and> f32_le t (confidence r) then Block else verdict (fst h)
                       | None \<Rightarrow> verdict (fst h)))"
proof (cases "hits = [] \<or> f32_lt (combined_confidence hits) WARN_THRESHOLD")
  case True
  then show ?thesis by (auto simp: combine_hits_def Let_def)
next
  case False
  then obtain h where h: "h \<in> set hits" "primary_hit hits = Some h" using primary_hit_in by blast
  have "f32_unit WARN_THRESHOLD" using rnd32_exact [of 1 1] by (simp add: WARN_THRESHOLD_half f32_unit_def)
  then have "f32_le (Fin (1 / 2)) (combined_confidence hits)"
    using False f32_not_lt_unit [OF combined_unit [OF assms]] by (simp add: WARN_THRESHOLD_half)
  then show ?thesis using False h
    by (intro disjI2 exI [where x = "the (combine_hits hits bt n)"] exI [where x = h])
       (auto simp: combine_hits_def Let_def split: prod.splits option.splits)
qed

text \<open>
  The first tier neither panics nor invents nor misses: on every well-formed command it returns a
  list of signals, each a Warn of confidence 0.6 to 1 over a non-empty span of the command, and the list
  is empty exactly when no regex layer fires, no flagged URL and no atom of the corpus occurs.
\<close>

theorem tier1_signals_exact:
  assumes "tier1_ok t" and "utf8_valid line"
  shows "\<exists>hits. classify_all t line = Some hits \<and> (\<forall>h\<in>set hits. signal_ok line h)
    \<and> (hits = [] \<longleftrightarrow> \<not> tier1_suspicious t line)"
  using classify_all_total [OF assms] classify_all_signals [OF assms(1)] classify_all_Nil [OF assms(1)] by blast

lemma suspicious_flagged:
  assumes "tier1_ok (c_tier1 c)" and "tier2_contract (c_tier2 c)"
    and "classify c cmd = Some r" and "tier1_suspicious (c_tier1 c) cmd"
  shows "verdict r \<noteq> Safe \<and> f32_le (f32_lit (6 / 10)) (confidence r) \<and> f32_unit (confidence r)"
proof -
  obtain hits1 hits n where parts: "classify_all (c_tier1 c) cmd = Some hits1"
    "consult_tier2 (c_tier2 c) cmd hits1 (distinct_span_groups hits1) = Some (hits, n)"
    "r = (case combine_hits hits (block_threshold c) n of Some r \<Rightarrow> r | None \<Rightarrow> safe_result)"
    using assms(3) by (rule classify_cases)
  note con = tier2_contract.consulted [OF assms(2,1) parts(1,2)]
  have "hits1 \<noteq> []" using classify_all_Nil [OF assms(1) parts(1)] assms(4) by simp
  then obtain h where "h \<in> set hits1" by (cases hits1) auto
  then have h: "h \<in> set hits" "signal_ok cmd h" using con(3) classify_all_signals [OF assms(1) parts(1)] by auto
  have unit: "f32_unit (confidence (fst h))" "f32_unit (combined_confidence hits)" "f32_unit (f32_lit (6 / 10))"
    "f32_unit (Fin (1 / 2))"
    using con(1) h(1) combined_unit [OF con(1)] rnd32_exact [of 1 1]
    by (simp_all add: conf_ok_def f32_unit_lit) (simp add: f32_unit_def)
  have six: "f32_le (f32_lit (6 / 10)) (confidence (fst h))" using h(2) by (cases h) (simp add: signal_ok_def)
  then have "f32_le (Fin (1 / 2)) (confidence (fst h))"
    using half_le_lit f32_le_trans_unit unit by blast
  then have "f32_le (confidence (fst h)) (combined_confidence hits)"
    using combined_dominates [OF con(1) h(1)] by blast
  then have lower: "f32_le (f32_lit (6 / 10)) (combined_confidence hits)"
    using six f32_le_trans_unit unit by blast
  then have "f32_le (Fin (1 / 2)) (combined_confidence hits)" using half_le_lit f32_le_trans_unit unit by blast
  then have "\<not> f32_lt (combined_confidence hits) WARN_THRESHOLD"
    using f32_lt_iff [of "1 / 2"] unit(2) by (auto simp: WARN_THRESHOLD_half elim!: f32_unitE)
  then obtain r' h' where r': "combine_hits hits (block_threshold c) n = Some r'" "h' \<in> set hits"
    "confidence r' = combined_confidence hits"
    "verdict r' = (case block_threshold c of Some t \<Rightarrow> if 2 \<le> n \<and> f32_le t (confidence r') then Block else verdict (fst h')
                   | None \<Rightarrow> verdict (fst h'))"
    using combine_hits_cases [OF con(1), of "block_threshold c" n] h(1) by fastforce
  have "r = r'" using parts(3) r'(1) by simp
  moreover have "verdict r' \<noteq> Safe" using r'(2,4) con(2) by (cases "block_threshold c") auto
  ultimately show ?thesis using r'(3) lower unit(2) by simp
qed

text \<open>
  C19. A command the first tier finds suspicious is never reported Safe, whatever the second tier says:
  the verdict is Warn or Block with a confidence of at least 0.6, under any backend that keeps its
  contract and any threshold.
\<close>

theorem suspicious_is_flagged:
  assumes "tier1_ok (c_tier1 c)" and "tier2_contract (c_tier2 c)"
    and "classify c cmd = Some r" and "tier1_suspicious (c_tier1 c) cmd"
  shows "verdict r \<noteq> Safe \<and> f32_le (f32_lit (6 / 10)) (confidence r) \<and> f32_unit (confidence r)"
  using suspicious_flagged [OF assms] .


section \<open>Concrete runs\<close>

text \<open>A finder of one literal, as a regular expression without operators is, and a classifier on it.\<close>

definition literal_finder :: "string \<Rightarrow> string \<Rightarrow> (nat \<times> nat) option" where
  "literal_finder lit s = map_option (\<lambda>i. (i, i + length lit)) (str_find lit s)"

lemma in_text_literal: "lit \<noteq> [] \<Longrightarrow> utf8_valid lit \<Longrightarrow> in_text (literal_finder lit)"
  using str_find_boundary str_find_Some by (auto simp: in_text_def literal_finder_def)

lemma in_text_none: "in_text (\<lambda>_. None)"
  by (simp add: in_text_def)

abbreviation demo_tier1 :: tier1 where
  "demo_tier1 \<equiv> \<lparr>curl_pipe_sh = literal_finder ''curl x|sh'', npm_unsafe = \<lambda>_. None, bash_c = \<lambda>_. None,
     flagged_npm_packages = [], flagged_urls = [''evil.example''], t1_atoms = atom_matcher_new ll_scan ''nc -e''\<rparr>"

abbreviation demo_classifier :: classifier where
  "demo_classifier \<equiv> \<lparr>c_tier1 = demo_tier1, c_tier2 = stub_backend, block_threshold = None\<rparr>"

lemma demo_tier1_ok: "tier1_ok demo_tier1"
  using leftmost_longest.multi_pattern_axioms
  by (auto simp: tier1_ok_def in_text_none intro!: in_text_literal ascii_valid) (simp_all add: ascii_def)

lemma combined_certain:
  assumes "conf_ok hits" and "h \<in> set hits" and "confidence (fst h) = Fin 1"
  shows "combined_confidence hits = Fin 1"
  using combined_dominates [OF assms(1,2)] combined_unit [OF assms(1)] assms(3)
  by (auto elim!: f32_unitE)

lemma consult_certain: "combined_confidence hits = Fin 1 \<Longrightarrow> consult_tier2 b cmd hits n = Some (hits, n)"
  using f32_unit_lit [of "9 / 10"] by (auto simp: consult_tier2_def SLM_CONFIRM_THRESHOLD_def elim!: f32_unitE)

lemma demo_suspicious: "tier1_suspicious demo_tier1 ''x; nc -e''"
proof -
  have "''nc -e'' \<in> set (am_atoms (atom_matcher_new ll_scan ''nc -e''))" "sublist ''nc -e'' ''x; nc -e''"
    by code_simp+
  then show ?thesis by (auto simp: tier1_suspicious_def)
qed

theorem tier1_signals_exact_witness:
  "\<exists>hits. classify_all demo_tier1 ''x; nc -e'' = Some hits \<and> (\<forall>h\<in>set hits. signal_ok ''x; nc -e'' h) \<and> hits \<noteq> []"
proof -
  have "utf8_valid ''x; nc -e''" by (rule ascii_valid) (simp add: ascii_def)
  moreover have "tier1_suspicious demo_tier1 ''x; nc -e''" by (rule demo_suspicious)
  ultimately show ?thesis using tier1_signals_exact [OF demo_tier1_ok] by blast
qed

theorem suspicious_is_flagged_witness:
  "\<exists>r. classify demo_classifier ''x; nc -e'' = Some r \<and> verdict r \<noteq> Safe \<and> f32_le (f32_lit (6 / 10)) (confidence r)"
proof -
  have "utf8_valid ''x; nc -e''" by (rule ascii_valid) (simp add: ascii_def)
  then obtain hits where "classify_all demo_tier1 ''x; nc -e'' = Some hits"
    using classify_all_total [OF demo_tier1_ok] by blast
  then obtain r where r: "classify demo_classifier ''x; nc -e'' = Some r"
    by (auto simp: classify_def consult_tier2_def stub_backend_def)
  have "tier1_suspicious demo_tier1 ''x; nc -e''" by (rule demo_suspicious)
  then show ?thesis
    using suspicious_is_flagged [of demo_classifier, OF _ _ r] r demo_tier1_ok stub.tier2_contract_axioms by simp
qed



text \<open>Below one half a single signal does not keep its confidence: \<open>1 - (1 - c)\<close> rounds twice.\<close>

lemma tiny_confidence_lost: "combined_confidence [(\<lparr>verdict = Warn, category = CurlPipeSh, confidence = Fin (1 / 2 ^ 30),
    reason = [], matched = []\<rparr>, 0, 1)] = Fin 0"
proof -
  have "rnd32 (1 - 1 / 2 ^ 30) = of_int (round_even ((1 - 1 / 2 ^ 30) * 2 ^ 24)) / 2 ^ 24"
    using rnd32_binade [of 0 "1 - 1 / 2 ^ 30"] by simp
  also have "round_even ((1 - 1 / 2 ^ 30) * 2 ^ 24) = 2 ^ 24" by code_simp
  finally have "rnd32 (1 - 1 / 2 ^ 30) = 1" by simp
  then show ?thesis by (simp add: combined_confidence_def)
qed


section \<open>The heuristic rules\<close>

definition rules_ok :: "heuristic_rules \<Rightarrow> bool" where
  "rules_ok r \<longleftrightarrow> in_text (\<lambda>s. map_option fst (chmod_then_exec r s))"

lemma word_head_length: "length (word_head s) \<le> length s"
  by (induction s) auto

lemma trim_start_length: "length (trim_start s) \<le> length s"
  using trim_start_suffix suffix_length_le by blast

lemma ascii_drop: "ascii s \<Longrightarrow> ascii (drop n s)"
  by (auto simp: ascii_def dest: in_set_dropD)

lemma chmod_chain_total:
  assumes "ascii cmd" and "fst m \<le> snd m" and "snd m \<le> length cmd"
  shows "chmod_chain cmd m f (drop (snd m) cmd) seps \<noteq> None"
proof (induction seps)
  case Nil
  then show ?case by (simp add: chmod_chain.simps)
next
  case (Cons sep seps)
  let ?tail = "drop (snd m) cmd"
  show ?case
  proof (cases "str_find sep ?tail")
    case None
    with Cons show ?thesis by (simp add: chmod_chain.simps)
  next
    case (Some i)
    let ?after = "drop (i + length sep) ?tail"
    let ?head = "word_head (trim_start ?after)"
    have len: "i + length sep \<le> length cmd - snd m" using str_find_Some [OF Some] by simp
    then have after: "str_slice ?tail (i + length sep) (length ?tail) = Some ?after"
      using ascii_boundary [OF ascii_drop [OF assms(1)]] by (intro str_slice_from) simp_all
    have "length ?head \<le> length ?after"
      using word_head_length trim_start_length le_trans by blast
    then have stop: "snd m + i + length sep + length ?head \<le> length cmd" using len assms(3) by simp
    then have "str_slice cmd (fst m) (snd m + i + length sep + length ?head) \<noteq> None"
      using ascii_boundary [OF assms(1)] assms(2,3) by (simp add: str_slice_def)
    then show ?thesis using Some Cons after by (auto simp: chmod_chain.simps Let_def)
  qed
qed

text \<open>
  On a command of ASCII characters the heuristic backend never panics: it returns None or a flagged
  result, and the daemon's classification is total with it. (The witness also shows the report of the
  chmod rule: the slice ends early by the white space that was trimmed, so the matched text is cut off.)
\<close>

theorem heuristics_total_on_ascii:
  assumes "tier1_ok (c_tier1 c)" and "c_tier2 c = heuristic_backend rules" and "rules_ok rules" and "ascii cmd"
  shows "\<exists>r. classify c cmd = Some r"
proof -
  obtain hits where hits: "classify_all (c_tier1 c) cmd = Some hits"
    using classify_all_total [OF assms(1) ascii_valid [OF assms(4)]] by blast
  have "heuristic_classify rules cmd hint \<noteq> None" for hint
  proof (cases "chmod_then_exec rules cmd")
    case None
    then show ?thesis by (auto simp: heuristic_classify_def split: option.splits)
  next
    case (Some mf)
    obtain a b f where mf: "mf = ((a, b), f)" by (cases mf) auto
    have ab: "a < b" "b \<le> length cmd"
      using assms(3) Some mf in_textD(1) [of "\<lambda>s. map_option fst (chmod_then_exec rules s)" cmd a b]
      by (auto simp: rules_ok_def)
    have "str_slice cmd b (length cmd) = Some (drop b cmd)"
      using ab ascii_boundary [OF assms(4)] by (intro str_slice_from) simp_all
    then show ?thesis
      using chmod_chain_total [OF assms(4), of "(a, b)"] ab Some mf
      by (auto simp: heuristic_classify_def split: option.splits)
  qed
  then obtain r where "heuristic_classify rules cmd (hint_of hits) = Some r" by blast
  then have "\<exists>x. consult_tier2 (c_tier2 c) cmd hits (distinct_span_groups hits) = Some x"
    by (simp add: consult_tier2_def assms(2) heuristic_backend_def)
  then show ?thesis by (auto simp: classify_def hits)
qed

abbreviation chmod_rules :: "string \<Rightarrow> (nat \<times> nat) \<times> (nat \<times> nat) \<Rightarrow> heuristic_rules" where
  "chmod_rules cmd m \<equiv> \<lparr>ip_url_fetcher = \<lambda>_. None, insecure_tls_fetcher = \<lambda>_. None,
     chmod_then_exec = \<lambda>s. if s = cmd then Some m else None, proc_subst_curl = \<lambda>_. None\<rparr>"

theorem heuristics_total_on_ascii_witness:
  "(\<exists>r. classify \<lparr>c_tier1 = demo_tier1, c_tier2 = heuristic_backend (chmod_rules ''chmod +x a ;   ./a'' ((0, 10), (9, 10))),
      block_threshold = None\<rparr> ''chmod +x a ;   ./a'' = Some r)
   \<and> map_option (map_option matched) (heuristic_classify (chmod_rules ''chmod +x a ;   ./a'' ((0, 10), (9, 10)))
      ''chmod +x a ;   ./a'' None) = Some (Some ''chmod +x a ;'')"
proof
  show "\<exists>r. classify \<lparr>c_tier1 = demo_tier1, c_tier2 = heuristic_backend (chmod_rules ''chmod +x a ;   ./a'' ((0, 10), (9, 10))),
      block_threshold = None\<rparr> ''chmod +x a ;   ./a'' = Some r"
  proof (rule heuristics_total_on_ascii)
    show "rules_ok (chmod_rules ''chmod +x a ;   ./a'' ((0, 10), (9, 10)))"
      by (auto simp: rules_ok_def in_text_def is_char_boundary_def cont_def)
    show "ascii ''chmod +x a ;   ./a''" by (simp add: ascii_def)
  qed (simp_all add: demo_tier1_ok)
  have cut: "chmod_chain ''chmod +x a ;   ./a'' (0, 10) ''a'' '' ;   ./a'' ('';'' # seps)
      = Some (Some \<lparr>verdict = Warn, category = BashCBase64, confidence = f32_lit (75 / 100),
          reason = ''`chmod +x` followed by execution of the same file'', matched = ''chmod +x a ;''\<rparr>)" for seps
  proof -
    have steps: "str_find '';'' '' ;   ./a'' = Some 1" "str_slice '' ;   ./a'' (1 + length '';'') (length '' ;   ./a'') = Some ''   ./a''"
      "word_head (trim_start ''   ./a'') = ''./a''" "''./'' @ ''a'' = ''./a''"
      "str_slice ''chmod +x a ;   ./a'' 0 (10 + 1 + length '';'' + length ''./a'') = Some ''chmod +x a ;   ''"
      "str_trim ''chmod +x a ;   '' = ''chmod +x a ;''"
      by code_simp+
    show ?thesis
      by (simp only: chmod_chain.simps steps option.case Option.bind.bind_lunit Let_def fst_conv snd_conv simp_thms if_True)
  qed
  have run: "str_slice ''chmod +x a ;   ./a'' 10 (length ''chmod +x a ;   ./a'') = Some '' ;   ./a''" "span_text ''chmod +x a ;   ./a'' (9, 10) = ''a''"
    by code_simp+
  show "map_option (map_option matched) (heuristic_classify (chmod_rules ''chmod +x a ;   ./a'' ((0, 10), (9, 10)))
      ''chmod +x a ;   ./a'' None) = Some (Some ''chmod +x a ;'')"
    by (simp only: heuristic_classify_def heuristic_rules.select_convs option.case if_True simp_thms prod.case
        fst_conv snd_conv run Option.bind.bind_lunit cut option.map classify_result.select_convs)
qed

lemma f32_lt_SLM: "f32_lt (Fin 0) SLM_CONFIRM_THRESHOLD"
proof -
  have "rnd32 (1 / 2) \<le> rnd32 (9 / 10)" by (simp add: rnd32_mono)
  then show ?thesis using rnd32_exact [of 1 1] by (simp add: SLM_CONFIRM_THRESHOLD_def f32_lit_def)
qed

text \<open>The command \<open>chmod +x e ; e\<close> with an e-acute for the e: valid UTF-8, but not ASCII.\<close>

abbreviation accent_cmd :: string where
  "accent_cmd \<equiv> ''chmod +x '' @ [CHR 0xC3, CHR 0xA9] @ '' ; '' @ [CHR 0xC3, CHR 0xA9]"

text \<open>
  Outside ASCII the chmod rule can panic: on the well-formed command \<open>chmod +x e ; e\<close> (e-acute), with the match
  the rule's regex has there, the end of the reported slice falls inside the last character, so with a silent
  first tier the classification of the command does not return a result.
\<close>

theorem chmod_rule_panics:
  assumes "chmod_then_exec rules accent_cmd = Some ((0, 11), (9, 11))"
    and "proc_subst_curl rules accent_cmd = None" and "insecure_tls_fetcher rules accent_cmd = None"
    and "ip_url_fetcher rules accent_cmd = None"
    and "classify_all (c_tier1 c) accent_cmd = Some []" and "c_tier2 c = heuristic_backend rules"
  shows "utf8_valid accent_cmd \<and> classify c accent_cmd = None"
proof
  show "utf8_valid accent_cmd" by code_simp
  have run: "str_slice accent_cmd 11 (length accent_cmd) = Some ('' ; '' @ [CHR 0xC3, CHR 0xA9])"
    "span_text accent_cmd (9, 11) = [CHR 0xC3, CHR 0xA9]"
    "chmod_chain accent_cmd (0, 11) [CHR 0xC3, CHR 0xA9] ('' ; '' @ [CHR 0xC3, CHR 0xA9]) ['';'', ''&&'', ''||'', [NL]] = None"
    by code_simp+
  have "heuristic_classify rules accent_cmd hint = None" for hint
    by (simp only: heuristic_classify_def assms(1-4) option.case prod.case fst_conv snd_conv run Option.bind.bind_lunit)
  then have "consult_tier2 (heuristic_backend rules) accent_cmd [] 0 = None"
    by (simp add: consult_tier2_def heuristic_backend_def combined_confidence_def f32_lt_SLM)
  then show "classify c accent_cmd = None"
    unfolding classify_def assms(5,6) by (simp add: distinct_span_groups_def)
qed

theorem chmod_rule_panics_witness:
  "classify \<lparr>c_tier1 = demo_tier1, c_tier2 = heuristic_backend (chmod_rules accent_cmd ((0, 11), (9, 11))), block_threshold = None\<rparr>
     accent_cmd = None \<and> in_text (\<lambda>s. map_option fst (chmod_then_exec (chmod_rules accent_cmd ((0, 11), (9, 11))) s))"
proof
  have "str_find ''evil.example'' accent_cmd = None" by code_simp
  then have urls: "url_hits (flagged_urls demo_tier1) accent_cmd = Some []"
    by (simp only: tier1.select_convs url_hits.simps option.case)
  have "curl_hits demo_tier1 accent_cmd = []" "npm_hits demo_tier1 accent_cmd = Some []"
    "bash_hits demo_tier1 accent_cmd = []" "find_all (t1_atoms demo_tier1) accent_cmd = Some []"
    by code_simp+
  then have "classify_all demo_tier1 accent_cmd = Some []" using urls by (simp add: classify_all_def atom_hits_def)
  then show "classify \<lparr>c_tier1 = demo_tier1, c_tier2 = heuristic_backend (chmod_rules accent_cmd ((0, 11), (9, 11))),
      block_threshold = None\<rparr> accent_cmd = None"
    using chmod_rule_panics [of "chmod_rules accent_cmd ((0, 11), (9, 11))"
        "\<lparr>c_tier1 = demo_tier1, c_tier2 = heuristic_backend (chmod_rules accent_cmd ((0, 11), (9, 11))), block_threshold = None\<rparr>"]
    by simp
  show "in_text (\<lambda>s. map_option fst (chmod_then_exec (chmod_rules accent_cmd ((0, 11), (9, 11))) s))"
    by (auto simp: in_text_def is_char_boundary_def cont_def)
qed

section \<open>Backend selection\<close>

text \<open>
  An explicitly chosen backend is never replaced silently: the flag wins over the configuration file and it
  over the default, an unknown name is an error that carries the name and its source, the fallible
  constructor yields the backend of the resolved kind or the load error, and only the best-effort constructor
  falls back to the stub, and only for a backend that failed to load.
\<close>

theorem backend_selection:
  "(case resolve_backend cli config of
      Inr (k, src) \<Rightarrow>
        backend_parse (case cli of Some t \<Rightarrow> t | None \<Rightarrow> case config of Some t \<Rightarrow> t | None \<Rightarrow> ''stub'') = Some k
        \<and> (src = Cli \<longleftrightarrow> cli \<noteq> None) \<and> (src = DefaultSource \<longleftrightarrow> cli = None \<and> config = None)
        \<and> (case try_new_with_backend onnx rules t k of
             Inr c \<Rightarrow> block_threshold c = None \<and> c_tier1 c = t \<and> new_with_backend onnx rules t k = c
               \<and> c_tier2 c = (case k of StubKind \<Rightarrow> stub_backend | HeuristicKind \<Rightarrow> heuristic_backend rules
                               | OnnxKind \<Rightarrow> (case onnx of Inr b \<Rightarrow> b | Inl _ \<Rightarrow> c_tier2 c))
           | Inl e \<Rightarrow> k = OnnxKind \<and> onnx = Inl e \<and> tier2_name (new_with_backend onnx rules t k) = ''stub'')
    | Inl (raw, src) \<Rightarrow>
        backend_parse raw = None \<and> (cli = Some raw \<and> src = Cli \<or> cli = None \<and> config = Some raw \<and> src = Config))"
proof -
  have parse: "backend_parse ''stub'' = Some StubKind" by (simp add: backend_parse_def)
  show ?thesis
    by (cases cli; cases config; cases onnx)
       (auto simp: resolve_backend_def try_new_with_backend_def new_with_backend_def tier2_name_def
          stub_backend_def parse split: option.splits BackendKind.splits)
qed

end
