(* ===== verification/Sanitize.thy ===== *)
theory Sanitize
  imports Rust_Slice
begin

text \<open>
  Preparing a command for the language model (\<open>sanitize.rs\<close>): the context window around a hint, and the
  removal of terminal control sequences. The byte loop of the sanitiser is a recursion on the bytes that
  are left.
\<close>

section \<open>The context window\<close>

function boundary_up :: "string \<Rightarrow> nat \<Rightarrow> nat" where
  "boundary_up s e = (if e < length s \<and> \<not> is_char_boundary s e then boundary_up s (e + 1) else e)"
  by pat_completeness auto
termination by (relation "measure (\<lambda>(s, e). length s - e)") auto

declare boundary_up.simps [simp del]

definition slice_context_window :: "string \<Rightarrow> nat \<Rightarrow> nat \<Rightarrow> nat \<Rightarrow> string option" where
  "slice_context_window s hint_offset back forward =
     (if s = [] then Some s
      else let safe_hint = min hint_offset (length s);
               start = boundary_down s (sat_sub safe_hint back);
               stop = boundary_up s (min (safe_hint + forward) (length s))
           in str_slice s start stop)"

lemma boundary_up_props:
  "e \<le> length s \<Longrightarrow> e \<le> boundary_up s e \<and> boundary_up s e \<le> length s \<and> is_char_boundary s (boundary_up s e)"
proof (induction s e rule: boundary_up.induct)
  case (1 s e)
  show ?case
  proof (cases "e < length s \<and> \<not> is_char_boundary s e")
    case True
    then show ?thesis using 1 by (subst (1 2 3) boundary_up.simps) auto
  next
    case False
    then show ?thesis using "1.prems" by (subst (1 2 3) boundary_up.simps) (auto simp: is_char_boundary_def)
  qed
qed

section \<open>Control sequences\<close>

definition byte_in :: "nat \<Rightarrow> nat \<Rightarrow> char \<Rightarrow> bool" where
  "byte_in lo hi c \<longleftrightarrow> lo \<le> byte_of c \<and> byte_of c \<le> hi"

text \<open>What follows a CSI introducer: parameter bytes and one final byte.\<close>

fun skip_csi :: "string \<Rightarrow> string" where
  "skip_csi [] = []"
| "skip_csi (c # cs) = (if byte_in 0x40 0x7E c then cs else skip_csi cs)"

text \<open>What follows an OSC introducer: everything up to BEL or ESC backslash.\<close>

fun skip_osc :: "string \<Rightarrow> string" where
  "skip_osc [] = []"
| "skip_osc (c # cs) =
     (if c = CHR 0x07 then cs
      else if c = CHR 0x1B \<and> cs \<noteq> [] \<and> hd cs = CHR 0x5C then tl cs
      else skip_osc cs)"

lemma skip_csi_length: "length (skip_csi s) \<le> length s"
  by (induction s) auto

lemma skip_osc_length: "length (skip_osc s) \<le> length s"
  by (induction s) auto

definition is_control :: "char \<Rightarrow> bool" where
  "is_control c \<longleftrightarrow> byte_of c < (0x20::nat) \<and> c \<noteq> TAB \<and> c \<noteq> NL \<and> c \<noteq> CR"

function strip_bytes :: "string \<Rightarrow> string" where
  "strip_bytes [] = []"
| "strip_bytes (b # bs) =
     (if b = CHR 0x1B \<and> bs \<noteq> [] then
        (if hd bs = CHR 0x5B then strip_bytes (skip_csi (tl bs))
         else if hd bs = CHR 0x5D then strip_bytes (skip_osc (tl bs))
         else if hd bs = CHR 0x28 \<or> hd bs = CHR 0x29 then strip_bytes (drop 2 bs)
         else strip_bytes (tl bs))
      else if is_control b then strip_bytes bs
      else b # strip_bytes bs)"
  by pat_completeness auto
termination
  by (relation "measure length")
     (auto simp: less_Suc_eq_le intro: le_trans [OF skip_csi_length] le_trans [OF skip_osc_length])

text \<open>\<open>String::from_utf8_lossy\<close>: each maximal ill-formed run becomes U+FFFD.\<close>

definition second_ok :: "char \<Rightarrow> char \<Rightarrow> bool" where
  "second_ok a c \<longleftrightarrow> cont c \<and> (byte_of a = (0xE0::nat) \<longrightarrow> (0xA0::nat) \<le> byte_of c)
     \<and> (byte_of a = (0xED::nat) \<longrightarrow> byte_of c \<le> (0x9F::nat))
     \<and> (byte_of a = (0xF0::nat) \<longrightarrow> (0x90::nat) \<le> byte_of c)
     \<and> (byte_of a = (0xF4::nat) \<longrightarrow> byte_of c \<le> (0x8F::nat))"

definition ill_len :: "string \<Rightarrow> nat" where
  "ill_len s =
     (case s of
        a # c # r \<Rightarrow>
          if byte_in 0xE0 0xEF a \<and> second_ok a c then 2
          else if byte_in 0xF0 0xF4 a \<and> second_ok a c
               then (case r of d # _ \<Rightarrow> if cont d then 3 else 2 | [] \<Rightarrow> 2)
          else 1
      | _ \<Rightarrow> 1)"

abbreviation replacement :: string where "replacement \<equiv> [CHR 0xEF, CHR 0xBF, CHR 0xBD]"

lemma ill_len_pos: "0 < ill_len s"
  by (auto simp: ill_len_def split: list.splits)

function from_utf8_lossy :: "string \<Rightarrow> string" where
  "from_utf8_lossy [] = []"
| "from_utf8_lossy (c # cs) =
     (if 0 < utf8_len (c # cs)
      then take (utf8_len (c # cs)) (c # cs) @ from_utf8_lossy (drop (utf8_len (c # cs)) (c # cs))
      else replacement @ from_utf8_lossy (drop (ill_len (c # cs)) (c # cs)))"
  by pat_completeness auto
termination
  by (relation "measure length") (auto simp: less_Suc_eq_le le_diff_conv Suc_le_eq ill_len_pos)

definition sanitize_for_classification :: "string \<Rightarrow> string" where
  "sanitize_for_classification s =
     (let out = strip_bytes s in if utf8_valid out then out else from_utf8_lossy out)"

declare from_utf8_lossy.simps(2) [simp del] strip_bytes.simps(2) [simp del]

section \<open>What comes out\<close>

lemma strip_bytes_no_control: "c \<in> set (strip_bytes s) \<Longrightarrow> \<not> is_control c"
proof (induction s rule: strip_bytes.induct)
  case (2 b bs)
  then show ?case by (auto simp: strip_bytes.simps(2) [of b bs] split: if_splits)
qed simp

lemma esc_control: "is_control (CHR 0x1B)"
  by (simp add: is_control_def)

lemma strip_bytes_clean: "\<forall>c\<in>set s. \<not> is_control c \<Longrightarrow> strip_bytes s = s"
  by (induction s) (use esc_control in \<open>auto simp: strip_bytes.simps(2)\<close>)

lemma utf8_valid_take_len:
  assumes "0 < utf8_len s" shows "utf8_valid (take (utf8_len s) s)"
proof -
  have "utf8_len (take (utf8_len s) s) = utf8_len s" using utf8_len_take [OF assms, of "[]"] by simp
  then show ?thesis using assms utf8_len_le [of s] by (subst utf8_valid.simps) simp
qed

lemma utf8_valid_lossy: "utf8_valid (from_utf8_lossy s)"
proof (induction s rule: from_utf8_lossy.induct)
  case (2 c cs)
  have "utf8_valid replacement" by code_simp
  with 2 show ?case
    by (cases "0 < utf8_len (c # cs)")
       (simp_all only: from_utf8_lossy.simps(2) if_True if_False utf8_valid_append utf8_valid_take_len not_False_eq_True)
qed simp

lemma set_from_utf8_lossy: "set (from_utf8_lossy s) \<subseteq> set s \<union> set replacement"
proof (induction s rule: from_utf8_lossy.induct)
  case (2 c cs)
  show ?case
  proof (cases "0 < utf8_len (c # cs)")
    case True
    with "2.IH"(1) [OF True] set_take_subset [of "utf8_len (c # cs)" "c # cs"]
      set_drop_subset [of "utf8_len (c # cs)" "c # cs"]
    show ?thesis by (simp only: from_utf8_lossy.simps(2) if_True set_append) blast
  next
    case False
    with "2.IH"(2) [OF False] set_drop_subset [of "ill_len (c # cs)" "c # cs"]
    show ?thesis by (simp only: from_utf8_lossy.simps(2) if_False set_append) blast
  qed
qed simp

lemma sanitize_no_control:
  assumes "c \<in> set (sanitize_for_classification s)"
  shows "\<not> is_control c"
proof -
  have "c \<in> set (strip_bytes s) \<union> set replacement"
    using assms set_from_utf8_lossy [of "strip_bytes s"]
    by (auto simp: sanitize_for_classification_def Let_def simp del: set_simps split: if_splits)
  moreover have "\<forall>d\<in>set replacement. \<not> is_control d" by (simp add: is_control_def)
  ultimately show ?thesis using strip_bytes_no_control by blast
qed

lemma sanitize_valid: "utf8_valid (sanitize_for_classification s)"
  by (simp add: sanitize_for_classification_def Let_def utf8_valid_lossy)

text \<open>
  C32. The sanitiser's output is always well-formed UTF-8 without control characters other than tab, line feed
  and carriage return, so no escape sequence survives; sanitising twice changes nothing more, and a
  well-formed command without control characters passes unchanged.
\<close>

theorem sanitizer_output:
  "utf8_valid (sanitize_for_classification s)
   \<and> (\<forall>c\<in>set (sanitize_for_classification s). \<not> is_control c)
   \<and> sanitize_for_classification (sanitize_for_classification s) = sanitize_for_classification s
   \<and> (utf8_valid s \<and> (\<forall>c\<in>set s. \<not> is_control c) \<longrightarrow> sanitize_for_classification s = s)"
proof (intro conjI ballI impI)
  show "utf8_valid (sanitize_for_classification s)" by (rule sanitize_valid)
  show "\<not> is_control c" if "c \<in> set (sanitize_for_classification s)" for c
    using that by (rule sanitize_no_control)
  show "sanitize_for_classification (sanitize_for_classification s) = sanitize_for_classification s"
    using strip_bytes_clean [of "sanitize_for_classification s"] sanitize_no_control sanitize_valid
    by (simp add: sanitize_for_classification_def [of "sanitize_for_classification s"])
  show "sanitize_for_classification s = s" if "utf8_valid s \<and> (\<forall>c\<in>set s. \<not> is_control c)"
    using that by (simp add: sanitize_for_classification_def strip_bytes_clean)
qed

text \<open>An escape before a two-byte character takes the first byte only: the rest is replaced, so the bytes that
  the loop drops are not always whole characters.\<close>

theorem sanitizer_output_witness:
  "sanitize_for_classification ''ls -la'' = ''ls -la''
   \<and> sanitize_for_classification [CHR 0x1B, CHR 0xC3, CHR 0xA9] = replacement"
proof
  have "utf8_valid ''ls -la''" "\<forall>c\<in>set ''ls -la''. \<not> is_control c" by code_simp+
  then show "sanitize_for_classification ''ls -la'' = ''ls -la''" using sanitizer_output [of "''ls -la''"] by blast
qed code_simp

lemma boundary_in_drop:
  "is_char_boundary s b \<Longrightarrow> a \<le> b \<Longrightarrow> b \<le> length s \<Longrightarrow> is_char_boundary (drop a s) (b - a)"
  by (auto simp: is_char_boundary_def)

lemma context_window_slice:
  assumes "utf8_valid s"
  shows "\<exists>start stop. slice_context_window s hint back forward = Some (take (stop - start) (drop start s))
    \<and> start \<le> min hint (length s) - back \<and> min (min hint (length s) + forward) (length s) \<le> stop \<and> stop \<le> length s
    \<and> utf8_valid (take (stop - start) (drop start s))"
proof (cases "s = []")
  case True
  then show ?thesis by (intro exI [of _ 0]) (simp add: slice_context_window_def)
next
  case False
  define h lo hi where "h = min hint (length s)" and "lo = h - back" and "hi = min (h + forward) (length s)"
  define start stop where "start = boundary_down s lo" and "stop = boundary_up s hi"
  have le1: "lo \<le> hi" "hi \<le> length s" unfolding h_def lo_def hi_def by linarith+
  have sub: "sat_sub h back = lo" by (simp add: sat_sub_def lo_def)
  have start: "start \<le> lo" "is_char_boundary s start"
    by (simp_all add: start_def boundary_down_le boundary_down_ok)
  have stop: "hi \<le> stop" "stop \<le> length s" "is_char_boundary s stop"
    using boundary_up_props [OF le1(2)] by (simp_all add: stop_def)
  have le: "start \<le> stop" using start(1) le1(1) stop(1) by linarith
  have "utf8_valid (drop start s)" using utf8_valid_split [OF assms start(2)] le stop(2) by simp
  then have "utf8_valid (take (stop - start) (drop start s))"
    using utf8_valid_split boundary_in_drop [OF stop(3) le stop(2)] stop(2) by simp
  moreover have "slice_context_window s hint back forward = Some (take (stop - start) (drop start s))"
    unfolding slice_context_window_def Let_def if_not_P [OF False]
      h_def [symmetric] sub hi_def [symmetric] start_def [symmetric] stop_def [symmetric]
    by (rule str_slice_Some [OF le stop(2) start(2) stop(3)])
  ultimately show ?thesis
    using start(1) stop(1,2) unfolding lo_def hi_def h_def by blast
qed

lemma context_window_total: "utf8_valid s \<Longrightarrow> \<exists>w. slice_context_window s hint back forward = Some w"
  using context_window_slice by blast

text \<open>
  The context window handed to the model is a well-formed slice of the command: for a well-formed
  command, any hint and any extents the slice does not panic, and it covers every byte within \<open>back\<close> before and
  \<open>forward\<close> after the hint (clamped to the command), growing to character boundaries only.
\<close>

theorem context_window_covers:
  assumes "utf8_valid s"
  shows "\<exists>start stop. slice_context_window s hint back forward = Some (take (stop - start) (drop start s))
    \<and> start \<le> min hint (length s) - back \<and> min (min hint (length s) + forward) (length s) \<le> stop \<and> stop \<le> length s
    \<and> utf8_valid (take (stop - start) (drop start s))"
  using assms by (rule context_window_slice)

theorem context_window_covers_witness:
  "slice_context_window ''abcdef'' 3 1 2 = Some ''cde''
   \<and> (\<exists>start stop. slice_context_window ''abcdef'' 3 1 2 = Some (take (stop - start) (drop start ''abcdef'')) \<and> start \<le> 2 \<and> 5 \<le> stop)"
proof
  have "utf8_valid ''abcdef''" by code_simp
  from context_window_covers [OF this, of 3 1 2] obtain start stop where
    w: "slice_context_window ''abcdef'' 3 1 2 = Some (take (stop - start) (drop start ''abcdef''))"
      "start \<le> min 3 (length ''abcdef'') - 1" "min (min 3 (length ''abcdef'') + 2) (length ''abcdef'') \<le> stop" by blast
  moreover have "min 3 (length ''abcdef'') - 1 = 2" "min (min 3 (length ''abcdef'') + 2) (length ''abcdef'') = 5" by code_simp+
  ultimately show "\<exists>start stop. slice_context_window ''abcdef'' 3 1 2 = Some (take (stop - start) (drop start ''abcdef'')) \<and> start \<le> 2 \<and> 5 \<le> stop"
    by (intro exI [of _ start] exI [of _ stop]) simp_all
qed code_simp

end
