(* ===== verification/Onnx_Backend.thy ===== *)
theory Onnx_Backend
  imports Classifier Sanitize
begin

text \<open>
  The language-model backend (\<open>onnx_backend.rs\<close>): which text the model sees, the truncation of the
  tokens, the softmax, the two thresholds and the checks at load time. The tokenizer, the model's plan and the
  platform's \<open>exp\<close> are parameters; the casts of the token ids to 64 bits keep their value and are
  not shown. The backend keeps the contract of the second tier.
\<close>

datatype load_error =
    FeatureNotBuilt
  | ModelMissing string
  | TokenizerMissing string
  | InitFailed string

record onnx_config =
  oc_model :: string
  oc_model_path :: string
  oc_tokenizer_path :: string
  oc_max_tokens :: nat
  oc_warn_threshold :: f32
  oc_block_threshold :: f32

text \<open>
  The two crates behind a loaded backend are fields: \<open>ob_encode\<close> is the tokenizer (ids and attention
  mask, or its error), \<open>ob_run\<close> the plan with the extraction of its first output (the logits, or any of
  its errors), and \<open>ob_exp\<close> the platform's \<open>exp\<close>. The backend's mutex is held for one run.
\<close>

record onnx_backend =
  ob_encode :: "string \<Rightarrow> (u32 list \<times> u32 list) option"
  ob_run :: "u32 list \<Rightarrow> u32 list \<Rightarrow> f32 list option"
  ob_exp :: "f32 \<Rightarrow> f32"
  ob_max_tokens :: nat
  ob_warn :: f32
  ob_block :: f32
  ob_name :: string

section \<open>Softmax\<close>

fun f32_add :: "f32 \<Rightarrow> f32 \<Rightarrow> f32" where
  "f32_add (Fin a) (Fin b) = f32_fit (rnd32 (a + b))"
| "f32_add (Inf s) (Fin b) = Inf s"
| "f32_add (Fin a) (Inf t) = Inf t"
| "f32_add (Inf s) (Inf t) = (if s = t then Inf s else NaN)"
| "f32_add _ _ = NaN"

text \<open>\<open>f32::max\<close> returns the other operand when one is NaN.\<close>

definition f32_max :: "f32 \<Rightarrow> f32 \<Rightarrow> f32" where
  "f32_max a b = (if a = NaN then b else if b = NaN then a else if f32_le a b then b else a)"

definition softmax3 :: "(f32 \<Rightarrow> f32) \<Rightarrow> f32 \<Rightarrow> f32 \<Rightarrow> f32 \<Rightarrow> f32 \<times> f32 \<times> f32" where
  "softmax3 exp_f a b c =
     (let m = foldl f32_max (Inf True) [a, b, c];
          e0 = exp_f (f32_sub a m); e1 = exp_f (f32_sub b m); e2 = exp_f (f32_sub c m);
          sum = f32_add (f32_add e0 e1) e2
      in (f32_div e0 sum, f32_div e1 sum, f32_div e2 sum))"

section \<open>One inference\<close>

text \<open>What the target text is: the window around the hint, or the whole command.\<close>

definition infer_target :: "string \<Rightarrow> nat option \<Rightarrow> string option" where
  "infer_target command hint =
     (case hint of Some offset \<Rightarrow> slice_context_window command offset 64 256 | None \<Rightarrow> Some command)"

fun class_probs :: "onnx_backend \<Rightarrow> f32 list option \<Rightarrow> (f32 \<times> f32 \<times> f32) option" where
  "class_probs b (Some (l0 # l1 # l2 # _)) = Some (softmax3 (ob_exp b) l0 l1 l2)"
| "class_probs b _ = None"

text \<open>
  The tokens beyond \<open>max_tokens\<close> are dropped on the left. \<open>Some None\<close> is an \<open>Err\<close> of any kind
  (the caller drops its text), \<open>None\<close> a panic: the mask is sliced at the ids' offset.
\<close>

definition infer_clean :: "onnx_backend \<Rightarrow> string \<Rightarrow> (f32 \<times> f32 \<times> f32) option option" where
  "infer_clean b cleaned =
     (case ob_encode b cleaned of
        None \<Rightarrow> Some None
      | Some (ids, att) \<Rightarrow>
          let start = sat_sub (length ids) (ob_max_tokens b)
          in if length att < start then None
             else if length (drop start att) \<noteq> length (drop start ids) then Some None
             else Some (class_probs b (ob_run b (drop start ids) (drop start att))))"

definition infer_with_hint :: "onnx_backend \<Rightarrow> string \<Rightarrow> nat option \<Rightarrow> (f32 \<times> f32 \<times> f32) option option" where
  "infer_with_hint b command hint =
     Option.bind (infer_target command hint) (\<lambda>target. infer_clean b (sanitize_for_classification target))"

text \<open>\<open>{:.2}\<close> prints two decimals, rounded half to even.\<close>

fun show_f32_2 :: "f32 \<Rightarrow> string" where
  "show_f32_2 NaN = ''NaN''"
| "show_f32_2 (Inf neg) = (if neg then ''-inf'' else ''inf'')"
| "show_f32_2 (Fin q) =
     (let n = nat (round_even (\<bar>q\<bar> * 100))
      in (if q < 0 then ''-'' else '''') @ show_nat (n div 100) @ ''.''
         @ [digit_char (n mod 100 div 10), digit_char (n mod 10)])"

definition onnx_result :: "onnx_backend \<Rightarrow> string \<Rightarrow> f32 \<times> f32 \<times> f32 \<Rightarrow> classify_result option" where
  "onnx_result b command probs =
     (case probs of (_, _, p_harmful) \<Rightarrow>
        let mk = (\<lambda>v. Some \<lparr>verdict = v, category = CurlPipeSh, confidence = p_harmful,
                    reason = ''Tier-2 '' @ ob_name b @ '' flagged this command (P(harmful) = '' @ show_f32_2 p_harmful @ '')'',
                    matched = command\<rparr>)
        in if f32_le (ob_block b) p_harmful then mk Block
           else if f32_le (ob_warn b) p_harmful then mk Warn
           else None)"

definition onnx_classify :: "onnx_backend \<Rightarrow> string \<Rightarrow> nat option \<Rightarrow> classify_result option option" where
  "onnx_classify b command hint =
     map_option (\<lambda>probs. case probs of None \<Rightarrow> None | Some p \<Rightarrow> onnx_result b command p)
       (infer_with_hint b command hint)"

definition onnx_tier2 :: "onnx_backend \<Rightarrow> tier2_backend" where
  "onnx_tier2 b = \<lparr>t2_name = ob_name b, t2_classify = onnx_classify b\<rparr>"

text \<open>
  \<open>exists\<close> is the file test; \<open>load_tokenizer\<close> and \<open>load_model\<close> are what the two crates make of
  their files (\<open>load_model\<close> covers parsing, optimising and planning, whose errors keep their prefix).
\<close>

definition onnx_open ::
    "bool \<Rightarrow> (string \<Rightarrow> bool) \<Rightarrow> (string \<Rightarrow> (string, string \<Rightarrow> (u32 list \<times> u32 list) option) result)
     \<Rightarrow> (string \<Rightarrow> (string, u32 list \<Rightarrow> u32 list \<Rightarrow> f32 list option) result) \<Rightarrow> (f32 \<Rightarrow> f32)
     \<Rightarrow> onnx_config \<Rightarrow> (load_error, onnx_backend) result" where
  "onnx_open feature exists load_tokenizer load_model exp_f cfg =
     (if \<not> feature then Inl FeatureNotBuilt
      else if oc_model_path cfg = [] \<or> \<not> exists (oc_model_path cfg) then Inl (ModelMissing (oc_model_path cfg))
      else if oc_tokenizer_path cfg = [] \<or> \<not> exists (oc_tokenizer_path cfg)
           then Inl (TokenizerMissing (oc_tokenizer_path cfg))
      else case load_tokenizer (oc_tokenizer_path cfg) of
             Inl e \<Rightarrow> Inl (InitFailed (''tokenizer: '' @ e))
           | Inr encode \<Rightarrow>
               case load_model (oc_model_path cfg) of
                 Inl e \<Rightarrow> Inl (InitFailed e)
               | Inr run \<Rightarrow> Inr \<lparr>ob_encode = encode, ob_run = run, ob_exp = exp_f, ob_max_tokens = oc_max_tokens cfg,
                   ob_warn = oc_warn_threshold cfg, ob_block = oc_block_threshold cfg,
                   ob_name = (if oc_model cfg = ''qwen-coder'' then ''qwen-coder'' else ''securebert2'')\<rparr>)"

section \<open>Probabilities\<close>

text \<open>
  What is assumed of \<open>exp\<close>: NaN stays NaN, minus infinity and everything below 0 land in the unit
  interval, and 0 is mapped to 1.
\<close>

definition exp_ok :: "(f32 \<Rightarrow> f32) \<Rightarrow> bool" where
  "exp_ok e \<longleftrightarrow> e NaN = NaN \<and> e (Inf True) = Fin 0 \<and> e (Fin 0) = Fin 1 \<and> (\<forall>q\<le>0. f32_unit (e (Fin q)))"

lemma rnd32_nonpos: "q \<le> 0 \<Longrightarrow> rnd32 q \<le> 0"
  using rnd32_ge_0 [of "- q"] rnd32_0 by (cases "q = 0") (auto simp: rnd32_def simp del: rnd32_0)

lemma f32_le_max: "f32_max a b \<noteq> NaN \<Longrightarrow> x \<in> {a, b} \<Longrightarrow> x \<noteq> NaN \<Longrightarrow> f32_le x (f32_max a b)"
  by (cases a; cases b) (auto simp: f32_max_def split: if_splits)

lemma f32_le_trans: "f32_le a b \<Longrightarrow> f32_le b c \<Longrightarrow> f32_le a c"
  by (cases a; cases b; cases c) auto

lemma exp_diff:
  assumes "exp_ok e" and "f32_le x m" and "f32_sub x m \<noteq> NaN" and "\<exists>q. m = Fin q"
  shows "f32_unit (e (f32_sub x m))" and "x = m \<Longrightarrow> e (f32_sub x m) = Fin 1"
proof -
  from assms(4) obtain q where m: "m = Fin q" by blast
  have fit: "(\<exists>d\<le>0. f32_fit (rnd32 (y - q)) = Fin d) \<or> f32_fit (rnd32 (y - q)) = Inf True" if "y \<le> q" for y
    using rnd32_nonpos [of "y - q"] that by (auto simp: f32_fit_def)
  show "f32_unit (e (f32_sub x m))"
  proof (cases x)
    case (Fin y)
    with assms(2) m fit [of y] assms(1) show ?thesis by (auto simp: exp_ok_def f32_unit_def)
  qed (use assms m in \<open>auto simp: exp_ok_def f32_unit_def\<close>)
  show "x = m \<Longrightarrow> e (f32_sub x m) = Fin 1" using assms(1) m by (simp add: exp_ok_def f32_fit_def)
qed

lemma onnx_result_Some:
  "onnx_result b command (x, y, p) = Some r \<Longrightarrow>
     (f32_le (ob_block b) p \<or> f32_le (ob_warn b) p) \<and> confidence r = p \<and> matched r = command
     \<and> verdict r = (if f32_le (ob_block b) p then Block else Warn)"
  by (auto simp: onnx_result_def Let_def split: if_splits)

lemma onnx_result_None:
  "onnx_result b command (x, y, p) = None \<longleftrightarrow> \<not> f32_le (ob_block b) p \<and> \<not> f32_le (ob_warn b) p"
  by (simp add: onnx_result_def Let_def)

lemma max3:
  assumes "a \<noteq> NaN" and "b \<noteq> NaN" and "c \<noteq> NaN"
  shows "f32_le a (foldl f32_max (Inf True) [a, b, c])" and "f32_le b (foldl f32_max (Inf True) [a, b, c])"
    and "f32_le c (foldl f32_max (Inf True) [a, b, c])" and "foldl f32_max (Inf True) [a, b, c] \<in> {a, b, c}"
  using assms by (cases a; cases b; cases c; auto simp: f32_max_def)+

lemma f32_add_NaN [simp]: "f32_add NaN v = NaN" "f32_add v NaN = NaN"
  by (cases v; simp)+

lemma f32_div_NaN [simp]: "f32_div NaN v = NaN" "f32_div v NaN = NaN"
  by (cases v; simp)+

lemma f32_sub_NaN [simp]: "f32_sub NaN v = NaN" "f32_sub v NaN = NaN"
  by (cases v; simp)+

lemma rnd32_small: "0 \<le> x \<Longrightarrow> x \<le> 4 \<Longrightarrow> 0 \<le> rnd32 x \<and> rnd32 x \<le> 4"
  using rnd32_mono [of x 4] rnd32_exact [of 4 0] by (auto simp: rnd32_ge_0)

lemma unit_share:
  assumes "f32_unit e0" and "f32_unit e1" and "f32_unit e2" and "Fin 1 \<in> {e0, e1, e2}"
  shows "f32_unit (f32_div e2 (f32_add (f32_add e0 e1) e2))"
proof -
  from assms(1-3) obtain x y z where e: "e0 = Fin x" "e1 = Fin y" "e2 = Fin z"
    and r: "0 \<le> x" "x \<le> 1" "rnd32 x = x" "0 \<le> y" "y \<le> 1" "rnd32 y = y" "0 \<le> z" "z \<le> 1" "rnd32 z = z"
    by (metis f32_unitE)
  have small: "f32_fit q = Fin q" if "0 \<le> q" "q \<le> 4" for q :: rat using that by (simp add: f32_fit_def)
  define u where "u = rnd32 (x + y)"
  have u: "x \<le> u" "y \<le> u" "0 \<le> u" "u \<le> 2"
    using rnd32_mono [of x "x + y"] rnd32_mono [of y "x + y"] rnd32_mono [of "x + y" 2] rnd32_exact [of 2 0] r
    by (simp_all add: u_def rnd32_ge_0)
  have uu: "rnd32 u = u" using r by (simp add: u_def rnd32_idem)
  define v where "v = rnd32 (u + z)"
  have v: "u \<le> v" "z \<le> v" "0 \<le> v" "v \<le> 4"
    using rnd32_mono [of u "u + z"] rnd32_mono [of z "u + z"] rnd32_small [of "u + z"] r u uu by (simp_all add: v_def)
  have one: "1 \<le> v" using assms(4) e r u v by auto
  have "f32_add (f32_add e0 e1) e2 = Fin v"
    using small [of u] small [of v] u v by (simp add: e u_def v_def)
  moreover have "0 \<le> z / v" "z / v \<le> 1" using one v r by simp_all
  ultimately show ?thesis
    using f32r.unit_interval [of "z / v"] rnd32_idem [of "z / v"] one by (simp add: e f32_unit_def)
qed

lemma softmax_harmful:
  assumes "exp_ok e" and "softmax3 e a b c = (x, y, p)"
  shows "p = NaN \<or> f32_unit p"
proof -
  let ?m = "foldl f32_max (Inf True) [a, b, c]"
  let ?e = "\<lambda>v. e (f32_sub v ?m)"
  have p: "p = f32_div (?e c) (f32_add (f32_add (?e a) (?e b)) (?e c))"
    using assms(2) by (simp add: softmax3_def Let_def)
  have nan: "e NaN = NaN" using assms(1) by (simp add: exp_ok_def)
  show ?thesis
  proof (cases "f32_sub a ?m = NaN \<or> f32_sub b ?m = NaN \<or> f32_sub c ?m = NaN")
    case True
    then show ?thesis using nan by (auto simp: p simp del: foldl.simps)
  next
    case False
    then have ne: "a \<noteq> NaN" "b \<noteq> NaN" "c \<noteq> NaN" by (auto simp del: foldl.simps)
    note m = max3 [OF ne]
    have fin: "\<exists>q. ?m = Fin q"
    proof (cases ?m)
      case (Inf s)
      then have "f32_sub (Inf s) ?m = NaN" by simp
      then show ?thesis using m(4) Inf False by (metis insertE singletonD)
    next
      case NaN
      then show ?thesis using m(4) ne by (metis insertE singletonD)
    qed blast
    have unit: "f32_unit (?e a)" "f32_unit (?e b)" "f32_unit (?e c)"
      using False exp_diff(1) [OF assms(1) m(1) _ fin] exp_diff(1) [OF assms(1) m(2) _ fin] exp_diff(1) [OF assms(1) m(3) _ fin]
      by blast+
    have "Fin 1 \<in> {?e a, ?e b, ?e c}"
      using m(4) False exp_diff(2) [OF assms(1) m(1) _ fin] exp_diff(2) [OF assms(1) m(2) _ fin] exp_diff(2) [OF assms(1) m(3) _ fin]
      by (metis insert_iff singletonD)
    from unit_share [OF unit this] show ?thesis by (simp only: p) simp
  qed
qed

lemma class_probs_Some: "class_probs b logits = Some ps \<Longrightarrow> \<exists>u v w. ps = softmax3 (ob_exp b) u v w"
  by (induction b logits rule: class_probs.induct) auto

lemma infer_clean_Some:
  assumes "infer_clean b t = Some (Some ps)" shows "\<exists>ids att. class_probs b (ob_run b ids att) = Some ps"
proof (cases "ob_encode b t")
  case None
  with assms show ?thesis by (simp add: infer_clean_def)
next
  case (Some enc)
  then show ?thesis
    using assms by (cases enc) (auto simp: infer_clean_def Let_def simp del: length_drop split: if_split_asm)
qed

lemma infer_with_hint_Some:
  "infer_with_hint b cmd hint = Some (Some ps) \<Longrightarrow> \<exists>u v w. ps = softmax3 (ob_exp b) u v w"
  by (auto simp: infer_with_hint_def bind_eq_Some_conv dest!: infer_clean_Some class_probs_Some)

lemma onnx_contract:
  assumes "exp_ok (ob_exp b)"
  shows "tier2_contract (onnx_tier2 b)"
proof
  fix cmd hint r
  assume "t2_classify (onnx_tier2 b) cmd hint = Some (Some r)"
  then obtain ps where run: "infer_with_hint b cmd hint = Some (Some ps)" and r: "onnx_result b cmd ps = Some r"
    by (auto simp: onnx_tier2_def onnx_classify_def split: option.splits)
  obtain x y p where ps: "ps = (x, y, p)" by (cases ps)
  obtain u v w where probs: "softmax3 (ob_exp b) u v w = (x, y, p)" using infer_with_hint_Some [OF run] ps by metis
  note r = r [unfolded ps]
  have "p \<noteq> NaN" using onnx_result_Some [OF r] by auto
  with softmax_harmful [OF assms probs] have "f32_unit p" by blast
  with onnx_result_Some [OF r] show "verdict r \<noteq> Safe \<and> f32_unit (confidence r)" by simp
qed

text \<open>The coarsest exponential that meets the assumptions.\<close>

definition step_exp :: "f32 \<Rightarrow> f32" where
  "step_exp v = (case v of NaN \<Rightarrow> NaN | Inf s \<Rightarrow> if s then Fin 0 else Inf False
                 | Fin q \<Rightarrow> if q < 0 then Fin 0 else Fin 1)"

lemma step_exp_ok: "exp_ok step_exp"
  by (simp add: exp_ok_def step_exp_def f32_unit_def)

interpretation onnx_model: tier2_contract "onnx_tier2 (b\<lparr>ob_exp := step_exp\<rparr>)" for b
  by (rule onnx_contract) (simp add: step_exp_ok)

definition same_shape :: "onnx_backend \<Rightarrow> bool" where
  "same_shape b \<longleftrightarrow> (\<forall>cleaned ids att. ob_encode b cleaned = Some (ids, att) \<longrightarrow> length att = length ids)"

lemma infer_clean_total: "same_shape b \<Longrightarrow> \<exists>probs. infer_clean b cleaned = Some probs"
  by (auto simp: infer_clean_def same_shape_def Let_def sat_sub_def split: option.splits list.splits)



end
