(* ===== verification/Ebpf.thy ===== *)
theory Ebpf
  imports Protocol
begin

text \<open>
  The user-space side of the kernel hook (\<open>ebpf.rs\<close>): the encoding of map keys and the operations on the
  BPF maps. The kernel is a set of named maps from byte strings to byte strings; \<open>bpf_fault\<close> says which
  system call fails, and deleting a key that is absent fails as the kernel does. A build without the
  feature has the same operations, all of which answer \<open>NotBuilt\<close>.
\<close>

datatype LoadedMode = Observe | WarnMode | BlockMode

datatype ebpf_error =
    NotBuilt
  | MapMissing string
  | UpdateFailed string
  | DeleteFailed string
  | BadDenyKey string

record bpf =
  bpf_maps :: "string \<Rightarrow> (string \<Rightarrow> string option) option"
  bpf_tick :: nat
  bpf_fault :: "nat \<Rightarrow> bool"

type_synonym 'a bop = "bpf \<Rightarrow> (ebpf_error, 'a) result \<times> bpf"

datatype ebpf_state = NoFeature | Attached LoadedMode

section \<open>Keys\<close>

definition DENY_PATH_LEN :: nat where "DENY_PATH_LEN = 256"
definition DENY_NAME_LEN :: nat where "DENY_NAME_LEN = 64"

abbreviation NUL :: char where "NUL \<equiv> CHR 0x00"

definition null_padded :: "nat \<Rightarrow> string \<Rightarrow> string" where
  "null_padded n s = s @ replicate (n - length s) NUL"

definition encode_deny_key :: "string \<Rightarrow> (ebpf_error, string) result" where
  "encode_deny_key p =
     (if p = [] \<or> DENY_PATH_LEN \<le> length p then Inl (BadDenyKey p)
      else if NUL \<in> set p then Inl (BadDenyKey p)
      else Inr (null_padded DENY_PATH_LEN p))"

definition encode_basename_key :: "string \<Rightarrow> (ebpf_error, string) result" where
  "encode_basename_key n =
     (if n = [] \<or> DENY_NAME_LEN \<le> length n then Inl (BadDenyKey n)
      else if NUL \<in> set n \<or> CHR ''/'' \<in> set n then Inl (BadDenyKey n)
      else Inr (null_padded DENY_NAME_LEN n))"

text \<open>\<open>u32::to_ne_bytes\<close> on a little-endian machine.\<close>

definition ne_bytes :: "u32 \<Rightarrow> string" where
  "ne_bytes w = map (\<lambda>i. char_of (unat w div 256 ^ i mod 256)) [0, 1, 2, 3]"

section \<open>Map operations\<close>

definition bpf_update :: "string \<Rightarrow> string \<Rightarrow> string \<Rightarrow> unit bop" where
  "bpf_update name key val k =
     (case bpf_maps k name of
        None \<Rightarrow> (Inl (MapMissing name), k)
      | Some m \<Rightarrow>
          let k1 = k\<lparr>bpf_tick := bpf_tick k + 1\<rparr>
          in if bpf_fault k (bpf_tick k) then (Inl (UpdateFailed name), k1)
             else (Inr (), k1\<lparr>bpf_maps := (bpf_maps k)(name \<mapsto> m(key \<mapsto> val))\<rparr>))"

definition bpf_delete :: "string \<Rightarrow> string \<Rightarrow> unit bop" where
  "bpf_delete name key k =
     (case bpf_maps k name of
        None \<Rightarrow> (Inl (MapMissing name), k)
      | Some m \<Rightarrow>
          let k1 = k\<lparr>bpf_tick := bpf_tick k + 1\<rparr>
          in if bpf_fault k (bpf_tick k) \<or> m key = None then (Inl (DeleteFailed name), k1)
             else (Inr (), k1\<lparr>bpf_maps := (bpf_maps k)(name \<mapsto> m(key := None))\<rparr>))"

text \<open>\<open>let _ = map.delete(key)\<close>: both deletions are tried and their errors are dropped.\<close>

definition clear_both :: "string \<Rightarrow> unit bop" where
  "clear_both key k =
     (let k1 = snd (bpf_delete ''threat_map'' key k);
          k2 = snd (bpf_delete ''warn_pids'' key k1)
      in (Inr (), k2))"

definition set_threat :: "ebpf_state \<Rightarrow> u32 \<Rightarrow> ThreatLevel \<Rightarrow> unit bop" where
  "set_threat st pid level k =
     (case st of
        NoFeature \<Rightarrow> (Inl NotBuilt, k)
      | Attached mode \<Rightarrow>
          let key = ne_bytes pid
          in if level = Low then clear_both key k
             else if mode = Observe then (Inr (), k)
             else if mode = WarnMode \<and> level = Critical then bpf_update ''warn_pids'' key [CHR 0x01] k
             else if mode = BlockMode \<and> level = Critical then bpf_update ''threat_map'' key [CHR 0x02] k
             else if level = High then bpf_update ''threat_map'' key [CHR 0x01] k
             else (Inr (), k))"

definition get_threat :: "ebpf_state \<Rightarrow> u32 \<Rightarrow> bpf \<Rightarrow> ThreatLevel" where
  "get_threat st pid k =
     (case st of
        NoFeature \<Rightarrow> Low
      | Attached _ \<Rightarrow>
          (case bpf_maps k ''threat_map'' of
             None \<Rightarrow> Low
           | Some m \<Rightarrow>
               (case m (ne_bytes pid) of
                  Some (b # _) \<Rightarrow> (if b = CHR 0x01 then High else if b = CHR 0x02 then Critical else Low)
                | _ \<Rightarrow> Low)))"

definition ebpf_set_watch :: "ebpf_state \<Rightarrow> u32 \<Rightarrow> unit bop" where
  "ebpf_set_watch st pid k =
     (case st of NoFeature \<Rightarrow> (Inl NotBuilt, k)
      | Attached _ \<Rightarrow> bpf_update ''watch_pids'' (ne_bytes pid) [CHR 0x01] k)"

definition set_deny_bin :: "ebpf_state \<Rightarrow> string \<Rightarrow> unit bop" where
  "set_deny_bin st p k =
     (case st of NoFeature \<Rightarrow> (Inl NotBuilt, k)
      | Attached _ \<Rightarrow>
          (case encode_deny_key p of Inl e \<Rightarrow> (Inl e, k) | Inr key \<Rightarrow> bpf_update ''deny_bins'' key [CHR 0x01] k))"

definition set_deny_basename :: "ebpf_state \<Rightarrow> string \<Rightarrow> unit bop" where
  "set_deny_basename st n k =
     (case st of NoFeature \<Rightarrow> (Inl NotBuilt, k)
      | Attached _ \<Rightarrow>
          (case encode_basename_key n of Inl e \<Rightarrow> (Inl e, k) | Inr key \<Rightarrow> bpf_update ''deny_basenames'' key [CHR 0x01] k))"

definition clear_deny_bin :: "ebpf_state \<Rightarrow> string \<Rightarrow> unit bop" where
  "clear_deny_bin st p k =
     (case st of NoFeature \<Rightarrow> (Inl NotBuilt, k)
      | Attached _ \<Rightarrow>
          (case encode_deny_key p of Inl e \<Rightarrow> (Inr (), k) | Inr key \<Rightarrow> bpf_delete ''deny_bins'' key k))"

definition clear_deny_basename :: "ebpf_state \<Rightarrow> string \<Rightarrow> unit bop" where
  "clear_deny_basename st n k =
     (case st of NoFeature \<Rightarrow> (Inl NotBuilt, k)
      | Attached _ \<Rightarrow>
          (case encode_basename_key n of Inl e \<Rightarrow> (Inr (), k) | Inr key \<Rightarrow> bpf_delete ''deny_basenames'' key k))"

definition set_basename_gate :: "ebpf_state \<Rightarrow> bool \<Rightarrow> unit bop" where
  "set_basename_gate st active k =
     (case st of NoFeature \<Rightarrow> (Inl NotBuilt, k)
      | Attached _ \<Rightarrow> bpf_update ''basename_gate'' (ne_bytes 0) [if active then CHR 0x01 else NUL] k)"

definition set_enforce_cfg :: "ebpf_state \<Rightarrow> u8 \<Rightarrow> u8 \<Rightarrow> unit bop" where
  "set_enforce_cfg st mode max_depth k =
     (case st of NoFeature \<Rightarrow> (Inl NotBuilt, k)
      | Attached _ \<Rightarrow> bpf_update ''enforce_cfg'' (ne_bytes 0)
          ([char_of (unat mode), char_of (unat max_depth)] @ replicate 6 NUL) k)"

text \<open>Where the object file is looked for: beside the binary, in the source tree, in the install path.\<close>

definition locate_bpf_object :: "(string \<Rightarrow> bool) \<Rightarrow> string option \<Rightarrow> string \<Rightarrow> (string list, string) result" where
  "locate_bpf_object exists exe_dir manifest_dir =
     (let beside = (case exe_dir of Some d \<Rightarrow> [d @ ''/atty_guard.bpf.o''] | None \<Rightarrow> []);
          tried = beside @ [manifest_dir @ ''/ebpf/atty_guard.bpf.o'', ''/usr/lib/atty-guard/atty_guard.bpf.o'']
      in case find exists tried of Some p \<Rightarrow> Inr p | None \<Rightarrow> Inl tried)"

end
