(* ===== verification/Tokens.thy ===== *)
theory Tokens
  imports Rust_Slice
begin

text \<open>
  Words separated by blanks: printable ASCII tokens, and that \<open>split_whitespace\<close> gives back the tokens a
  line was put together from.
\<close>

text \<open>A token of printable ASCII characters, as the fields of these files are.\<close>

definition token :: "string \<Rightarrow> bool" where
  "token s \<longleftrightarrow> s \<noteq> [] \<and> (\<forall>c\<in>set s. (33::nat) \<le> byte_of c \<and> byte_of c \<le> (126::nat))"

lemma graph_no_ws: "(33::nat) \<le> byte_of c \<Longrightarrow> byte_of c \<le> (126::nat) \<Longrightarrow> ws_prefix (c # s) = 0"
  by (auto simp: ws_prefix_0 ws_chars_def)

lemma space_ws: "ws_prefix (CHR '' '' # s) = 1"
  by (simp add: ws_prefix_def ws_chars_def)

lemma split_ws_token:
  "\<forall>c\<in>set s. (33::nat) \<le> byte_of c \<and> byte_of c \<le> (126::nat) \<Longrightarrow> split_ws cur (s @ r) = split_ws (cur @ s) r"
  by (induction s arbitrary: cur) (simp_all add: graph_no_ws)

fun spaced :: "string list \<Rightarrow> string" where
  "spaced [] = []"
| "spaced (t # ts) = CHR '' '' # t @ spaced ts"

lemma split_spaced_end:
  assumes "\<forall>t\<in>set ts. token t"
  shows "split_ws cur (spaced ts) = (if cur = [] then [] else [cur]) @ ts"
  using assms
proof (induction ts arbitrary: cur)
  case Nil
  then show ?case by simp
next
  case (Cons t ts)
  then have t: "token t" "\<forall>u\<in>set ts. token u" by auto
  have "split_ws cur (spaced (t # ts)) = (if cur = [] then [] else [cur]) @ split_ws [] (t @ spaced ts)"
    by (simp add: space_ws)
  also have "split_ws [] (t @ spaced ts) = split_ws t (spaced ts)"
    using split_ws_token [of t "[]"] t(1) by (simp add: token_def)
  also have "\<dots> = [t] @ ts" using Cons.IH [OF t(2), of t] t(1) by (simp add: token_def)
  finally show ?case by simp
qed

lemma split_spaced:
  assumes "\<forall>t\<in>set ts. token t"
  shows "split_ws cur (spaced ts @ [NL]) = (if cur = [] then [] else [cur]) @ ts"
  using assms
proof (induction ts arbitrary: cur)
  case Nil
  have "ws_prefix [NL] = 1" by (simp add: ws_prefix_def ws_chars_def)
  then show ?case by simp
next
  case (Cons t ts)
  then have t: "token t" "\<forall>u\<in>set ts. token u" by auto
  have "split_ws cur (spaced (t # ts) @ [NL]) = (if cur = [] then [] else [cur]) @ split_ws [] (t @ spaced ts @ [NL])"
    by (simp add: space_ws)
  also have "split_ws [] (t @ spaced ts @ [NL]) = split_ws t (spaced ts @ [NL])"
    using split_ws_token [of t "[]"] t(1) by (simp add: token_def)
  also have "\<dots> = [t] @ ts" using Cons.IH [OF t(2), of t] t(1) by (simp add: token_def)
  finally show ?case by simp
qed

end
