(* ===== verification/Proc_Fs.thy ===== *)
theory Proc_Fs
  imports Protocol Tokens
begin

text \<open>
  Reading \<open>/proc\<close> (\<open>threat_map.rs\<close>, \<open>server.rs\<close>, \<open>warn_consumer.rs\<close>): the start time of a process, its
  owner, its parent. The files are a parameter indexed by the number of reads before, so a process may
  exit or its number be reused between two reads. \<open>truthful\<close> states what \<open>/proc\<close> says of the processes
  that really run, and the parsers are shown to read it back.
\<close>

record procfs =
  stat_file :: "nat \<Rightarrow> u32 \<Rightarrow> (os_error, string) result"
  status_file :: "nat \<Rightarrow> u32 \<Rightarrow> (os_error, string) result"
  cmdline_file :: "nat \<Rightarrow> u32 \<Rightarrow> (os_error, string) result"

datatype 'a ProcRead = Found 'a | NotFound | ReadError string

datatype OwnerLookup = Owner u32 | OwnerNotFound | OwnerError string

definition proc_path :: "u32 \<Rightarrow> string \<Rightarrow> string" where
  "proc_path pid name = ''/proc/'' @ show_u32 pid @ ''/'' @ name"

text \<open>The messages keep the path and the reason; the text of the operating system's error is left out.\<close>

definition pid_starttime :: "procfs \<Rightarrow> nat \<Rightarrow> u32 \<Rightarrow> u64 ProcRead" where
  "pid_starttime pf t pid =
     (case stat_file pf t pid of
        Inl ENotFound \<Rightarrow> NotFound
      | Inl _ \<Rightarrow> ReadError (''cannot read '' @ proc_path pid ''stat'')
      | Inr content \<Rightarrow>
          (case rfind_char (\<lambda>c. c = CHR '')'') content of
             None \<Rightarrow> ReadError (proc_path pid ''stat'' @ '': no closing paren after comm'')
           | Some i \<Rightarrow>
               let flds = split_whitespace (drop (i + 1) content)
               in if length flds \<le> 19 then ReadError (proc_path pid ''stat'' @ '': missing starttime field'')
                  else (case parse_uint 64 (flds ! 19) of
                          Some n \<Rightarrow> Found (of_nat n)
                        | None \<Rightarrow> ReadError (proc_path pid ''stat'' @ '': parse starttime''))))"

fun uid_of_lines :: "u32 \<Rightarrow> string list \<Rightarrow> OwnerLookup" where
  "uid_of_lines pid [] = OwnerError (proc_path pid ''status'' @ '': no Uid line'')"
| "uid_of_lines pid (l # ls) =
     (if starts_with ''Uid:'' l
      then (case split_whitespace (drop 4 l) of
              [] \<Rightarrow> OwnerError (proc_path pid ''status'' @ '': malformed Uid line'')
            | ruid # _ \<Rightarrow> (case parse_uint 32 ruid of
                Some n \<Rightarrow> Owner (of_nat n)
              | None \<Rightarrow> OwnerError (proc_path pid ''status'' @ '': parse uid'')))
      else uid_of_lines pid ls)"

definition pid_owner_uid :: "procfs \<Rightarrow> nat \<Rightarrow> u32 \<Rightarrow> OwnerLookup" where
  "pid_owner_uid pf t pid =
     (case status_file pf t pid of
        Inl ENotFound \<Rightarrow> OwnerNotFound
      | Inl _ \<Rightarrow> OwnerError (''cannot read '' @ proc_path pid ''status'')
      | Inr content \<Rightarrow> uid_of_lines pid (str_lines content))"

lemma rfind_char_append_last: "\<forall>c\<in>set r. \<not> P c \<Longrightarrow> P d \<Longrightarrow> rfind_char P (a @ d # r) = Some (length a)"
  by (induction a) (auto simp: rfind_char_None split: option.splits)

lemma drop_past: "drop (length a + 1) (a @ d # r) = r"
  by simp

section \<open>What the files say\<close>

text \<open>The line of \<open>/proc/<pid>/stat\<close>: the number, the command name in parentheses, the fields from the third on,
  of which the twentieth is the start time.\<close>

definition stat_line :: "u32 \<Rightarrow> string \<Rightarrow> string list \<Rightarrow> string" where
  "stat_line pid comm flds = show_u32 pid @ '' ('' @ comm @ '')'' @ spaced flds @ [NL]"

definition show_u64 :: "u64 \<Rightarrow> string" where
  "show_u64 w = show_nat (unat w)"

lemma parse_uint_show_u64: "parse_uint 64 (show_u64 a) = Some (unat a)"
  using unsigned_less [where 'a = nat, of a] by (simp add: show_u64_def parse_uint_show_nat)

lemma stat_line_parsed:
  assumes "\<forall>f\<in>set flds. token f \<and> CHR '')'' \<notin> set f" and "19 < length flds" and "flds ! 19 = show_u64 start"
    and "stat_file pf t pid = Inr (stat_line pid comm flds)"
  shows "pid_starttime pf t pid = Found start"
proof -
  let ?P = "\<lambda>c. c = CHR '')''" and ?a = "show_u32 pid @ '' ('' @ comm" and ?r = "spaced flds @ [NL]"
  have no: "\<forall>c\<in>set ?r. \<not> ?P c"
  proof -
    have "set (spaced fs) \<subseteq> {CHR '' ''} \<union> \<Union> (set ` set fs)" for fs by (induction fs) auto
    then show ?thesis using assms(1) by fastforce
  qed
  have line: "stat_line pid comm flds = ?a @ CHR '')'' # ?r" by (simp add: stat_line_def)
  have "rfind_char ?P (stat_line pid comm flds) = Some (length ?a)"
    unfolding line by (rule rfind_char_append_last) (use no in auto)
  moreover have "drop (length ?a + 1) (stat_line pid comm flds) = ?r"
    unfolding line by (rule drop_past)
  moreover have "split_whitespace ?r = flds"
    using split_spaced [of flds "[]"] assms(1) by (simp add: split_whitespace_def)
  ultimately show ?thesis
    using assms(2,3,4) by (simp add: pid_starttime_def parse_uint_show_u64 Let_def)
qed

text \<open>
  The start time is read back whatever the process calls itself: for every command name, parentheses,
  spaces and digits included, parsing the stat line of a process returns its start time, so a process
  cannot forge the identity that the daemon checks by choosing its name.
\<close>

theorem starttime_unspoofable:
  assumes "\<forall>f\<in>set flds. token f \<and> CHR '')'' \<notin> set f" and "19 < length flds"
    and "flds ! 19 = show_u64 start" and "stat_file pf t pid = Inr (stat_line pid comm flds)"
  shows "pid_starttime pf t pid = Found start"
  by (rule stat_line_parsed [OF assms])

text \<open>The fields of an idle shell started at tick 777.\<close>

abbreviation demo_fields :: "string list" where
  "demo_fields \<equiv> ''S'' # replicate 18 ''0'' @ [show_u64 777, ''4096'']"

theorem starttime_unspoofable_witness:
  "pid_starttime \<lparr>stat_file = \<lambda>_ _. Inr (stat_line 42 '') 0 0 999 (x'' demo_fields), status_file = \<lambda>_ _. Inl ENotFound,
     cmdline_file = \<lambda>_ _. Inl ENotFound\<rparr> 0 42 = Found 777"
proof (rule starttime_unspoofable)
  show "\<forall>f\<in>set demo_fields. token f \<and> CHR '')'' \<notin> set f" by code_simp
qed (simp_all add: nth_append)

section \<open>The processes behind the files\<close>

text \<open>
  \<open>procs t pid\<close> is the start time of the process that has the number at read \<open>t\<close>, \<open>owner\<close> the real uid of
  a process. A pair of number and start time names one process, which never comes back once gone; a read
  that succeeds tells the truth about the moment it happens.
\<close>

locale process_table =
  fixes pf :: procfs and procs :: "nat \<Rightarrow> u32 \<Rightarrow> u64 option" and owner :: "u32 \<Rightarrow> u64 \<Rightarrow> u32"
  assumes found: "pid_starttime pf t pid = Found st \<Longrightarrow> procs t pid = Some st"
    and gone: "pid_starttime pf t pid = NotFound \<Longrightarrow> procs t pid = None"
    and owned: "pid_owner_uid pf t pid = Owner u \<Longrightarrow> \<exists>st. procs t pid = Some st \<and> owner pid st = u"
    and once: "procs t pid = Some st \<Longrightarrow> procs t'' pid = Some st \<Longrightarrow> t \<le> t' \<Longrightarrow> t' \<le> t'' \<Longrightarrow> procs t' pid = Some st"
begin

text \<open>Reading the start time before and after the owner ties the owner to the process.\<close>

lemma sandwich:
  assumes "pid_starttime pf t pid = Found st" and "pid_owner_uid pf t' pid = Owner u"
    and "pid_starttime pf t'' pid = Found st" and "t \<le> t'" and "t' \<le> t''"
  shows "owner pid st = u \<and> procs t'' pid = Some st"
proof -
  have "procs t' pid = Some st" using once [OF found [OF assms(1)] found [OF assms(3)]] assms(4,5) .
  with owned [OF assms(2)] found [OF assms(3)] show ?thesis by auto
qed

end

text \<open>The files of a fixed set of processes.\<close>

definition files_of :: "(u32 \<Rightarrow> (u64 \<times> u32) option) \<Rightarrow> procfs" where
  "files_of tab =
     \<lparr>stat_file = (\<lambda>_ pid. case tab pid of None \<Rightarrow> Inl ENotFound
        | Some (st, _) \<Rightarrow> Inr (stat_line pid ''sh'' (replicate 19 ''0'' @ [show_u64 st]))),
      status_file = (\<lambda>_ pid. case tab pid of None \<Rightarrow> Inl ENotFound
        | Some (_, u) \<Rightarrow> Inr (''Uid:'' @ [TAB] @ show_u32 u @ [NL])),
      cmdline_file = (\<lambda>_ _. Inl ENotFound)\<rparr>"

lemma digits_token: "s \<noteq> [] \<Longrightarrow> \<forall>c\<in>set s. is_digit c \<Longrightarrow> token s \<and> CHR '')'' \<notin> set s"
  by (auto simp: token_def is_digit_def)

lemma show_tokens: "token (show_u64 a) \<and> CHR '')'' \<notin> set (show_u64 a)" "token (show_u32 b)"
  using show_nat_digits digits_token by (auto simp: show_u64_def show_u32_def)

lemma files_of_start: "pid_starttime (files_of tab) t pid = (case tab pid of Some (st, _) \<Rightarrow> Found st | None \<Rightarrow> NotFound)"
proof (cases "tab pid")
  case None
  then show ?thesis by (simp add: pid_starttime_def files_of_def)
next
  case (Some p)
  obtain st u where p: "p = (st, u)" by (cases p)
  have "token ''0''" by code_simp
  then have "\<forall>f\<in>set (replicate 19 ''0'' @ [show_u64 st]). token f \<and> CHR '')'' \<notin> set f"
    using show_tokens(1) by auto
  then have "pid_starttime (files_of tab) t pid = Found st"
    by (rule stat_line_parsed) (simp_all add: Some p files_of_def nth_append)
  then show ?thesis by (simp add: Some p)
qed

lemma files_of_owner: "pid_owner_uid (files_of tab) t pid = (case tab pid of Some (_, u) \<Rightarrow> Owner u | None \<Rightarrow> OwnerNotFound)"
proof (cases "tab pid")
  case None
  then show ?thesis by (simp add: pid_owner_uid_def files_of_def)
next
  case (Some p)
  obtain st u where p: "p = (st, u)" by (cases p)
  let ?l = "''Uid:'' @ [TAB] @ show_u32 u"
  have dig: "\<forall>c\<in>set (show_u32 u). is_digit c" using show_nat_digits by (simp add: show_u32_def)
  have "show_u32 u \<noteq> []" using show_tokens(2) [of u] by (simp add: token_def)
  moreover have "\<not> is_digit CR" "\<not> is_digit NL" by (simp_all add: is_digit_def)
  ultimately have "last (show_u32 u) \<noteq> CR" "NL \<notin> set (show_u32 u)" "show_u32 u \<noteq> []"
    using dig last_in_set by metis+
  then have "NL \<notin> set ?l" "last ?l \<noteq> CR" by auto
  then have "str_lines (?l @ NL # []) = [?l]"
    by (subst str_lines_append_NL) (simp_all add: strip_cr_def)
  then have "str_lines (''Uid:'' @ [TAB] @ show_u32 u @ [NL]) = [?l]" by simp
  moreover have "split_whitespace ([TAB] @ show_u32 u) = [show_u32 u]"
  proof -
    have "ws_prefix (TAB # show_u32 u) = 1" by (simp add: ws_prefix_def ws_chars_def)
    then have "split_whitespace ([TAB] @ show_u32 u) = split_ws [] (show_u32 u @ [])"
      by (simp add: split_whitespace_def)
    also have "\<dots> = split_ws (show_u32 u) []"
      using split_ws_token [of "show_u32 u" "[]" "[]"] show_tokens(2) by (simp add: token_def)
    finally show ?thesis by (simp add: show_u32_def)
  qed
  ultimately show ?thesis
    by (simp add: Some p pid_owner_uid_def files_of_def starts_with_def parse_uint_show_u32)
qed

interpretation fixed_table: process_table "files_of tab" "\<lambda>_ pid. map_option fst (tab pid)"
    "\<lambda>pid _. case tab pid of Some (_, u) \<Rightarrow> u | None \<Rightarrow> 0" for tab
  by unfold_locales (auto simp: files_of_start files_of_owner split: option.splits)

end
