(* ===== verification/Threat_Map.thy ===== *)
theory Threat_Map
  imports Ebpf Proc_Fs
begin

text \<open>
  The threat map (\<open>threat_map.rs\<close>): the daemon's table from process to threat level and its write-through
  to the kernel. The state keeps the table, the attached kernel side, the BPF maps and the number of
  \<open>/proc\<close> reads so far. \<open>get\<close> drops the lock between its look-up and the eviction, so it takes what the other
  threads do there as an argument.
\<close>

record threats =
  tm_inner :: "u32 \<Rightarrow> (ThreatLevel \<times> u64) option"
  tm_ebpf :: "ebpf_state option"
  tm_bpf :: bpf
  tm_reads :: nat

definition threat_map_new :: "bpf \<Rightarrow> threats" where
  "threat_map_new k = \<lparr>tm_inner = Map.empty, tm_ebpf = None, tm_bpf = k, tm_reads = 0\<rparr>"

definition with_ebpf :: "ebpf_state \<Rightarrow> threats \<Rightarrow> threats" where
  "with_ebpf st s = s\<lparr>tm_ebpf := Some st\<rparr>"

text \<open>The errors of the write-through are logged, not returned.\<close>

definition write_through :: "u32 \<Rightarrow> ThreatLevel \<Rightarrow> threats \<Rightarrow> threats" where
  "write_through pid level s =
     (case tm_ebpf s of None \<Rightarrow> s
      | Some st \<Rightarrow> s\<lparr>tm_bpf := snd (set_threat st pid level (tm_bpf s))\<rparr>)"

definition insert_entry :: "u32 \<Rightarrow> ThreatLevel \<Rightarrow> u64 \<Rightarrow> threats \<Rightarrow> threats" where
  "insert_entry pid level start s = s\<lparr>tm_inner := (tm_inner s)(pid \<mapsto> (level, start))\<rparr>"

definition set_with_starttime_inner :: "u32 \<Rightarrow> ThreatLevel \<Rightarrow> u64 \<Rightarrow> threats \<Rightarrow> threats" where
  "set_with_starttime_inner pid level start s = write_through pid level (insert_entry pid level start s)"

definition evict :: "u32 \<Rightarrow> threats \<Rightarrow> threats" where
  "evict pid s =
     (if tm_inner s pid = None then s
      else write_through pid Low (s\<lparr>tm_inner := (tm_inner s)(pid := None)\<rparr>))"

definition evict_if_stale :: "u32 \<Rightarrow> u64 \<Rightarrow> threats \<Rightarrow> threats" where
  "evict_if_stale pid expected s =
     (case tm_inner s pid of
        Some (_, st) \<Rightarrow> if st = expected then write_through pid Low (s\<lparr>tm_inner := (tm_inner s)(pid := None)\<rparr>) else s
      | None \<Rightarrow> s)"

definition read_starttime :: "procfs \<Rightarrow> u32 \<Rightarrow> threats \<Rightarrow> u64 ProcRead \<times> threats" where
  "read_starttime pf pid s = (pid_starttime pf (tm_reads s) pid, s\<lparr>tm_reads := tm_reads s + 1\<rparr>)"

definition read_owner :: "procfs \<Rightarrow> u32 \<Rightarrow> threats \<Rightarrow> OwnerLookup \<times> threats" where
  "read_owner pf pid s = (pid_owner_uid pf (tm_reads s) pid, s\<lparr>tm_reads := tm_reads s + 1\<rparr>)"

definition set_level :: "procfs \<Rightarrow> u32 \<Rightarrow> ThreatLevel \<Rightarrow> threats \<Rightarrow> bool \<times> threats" where
  "set_level pf pid level s =
     (if level = Low then (True, evict pid s)
      else case read_starttime pf pid s of
             (Found start, s1) \<Rightarrow> (True, set_with_starttime_inner pid level start s1)
           | (_, s1) \<Rightarrow> (False, s1))"

definition set_with_starttime :: "u32 \<Rightarrow> ThreatLevel \<Rightarrow> u64 \<Rightarrow> threats \<Rightarrow> threats" where
  "set_with_starttime pid level start s =
     (if level = Low then evict pid s else set_with_starttime_inner pid level start s)"

definition set_watch :: "u32 \<Rightarrow> threats \<Rightarrow> bool \<times> threats" where
  "set_watch pid s =
     (case tm_ebpf s of
        None \<Rightarrow> (False, s)
      | Some st \<Rightarrow> (case ebpf_set_watch st pid (tm_bpf s) of (r, k) \<Rightarrow> (is_Ok r, s\<lparr>tm_bpf := k\<rparr>)))"

definition get_level :: "procfs \<Rightarrow> (threats \<Rightarrow> threats) \<Rightarrow> u32 \<Rightarrow> threats \<Rightarrow> ThreatLevel \<times> threats" where
  "get_level pf intf pid s =
     (case tm_inner s pid of
        None \<Rightarrow> (Low, s)
      | Some (level, start) \<Rightarrow>
          (case read_starttime pf pid s of
             (Found now, s1) \<Rightarrow> if now = start then (level, s1) else (Low, evict_if_stale pid start (intf s1))
           | (NotFound, s1) \<Rightarrow> (Low, evict_if_stale pid start (intf s1))
           | (ReadError _, s1) \<Rightarrow> (level, s1)))"

section \<open>The kernel's keys\<close>

lemma horner:
  "(n::nat) = 256 * q1 + r0 \<Longrightarrow> q1 = 256 * q2 + r1 \<Longrightarrow> q2 = 256 * q3 + r2
   \<Longrightarrow> n = r0 + 256 * r1 + 65536 * r2 + 16777216 * q3"
  by simp

lemma base256:
  fixes n :: nat assumes "n < 256 ^ 4"
  shows "n = n mod 256 + 256 * (n div 256 mod 256) + 256 ^ 2 * (n div 256 ^ 2 mod 256) + 256 ^ 3 * (n div 256 ^ 3 mod 256)"
proof -
  have a: "n = 256 * (n div 256) + n mod 256" by simp
  have b: "n div 256 = 256 * (n div 256 div 256) + n div 256 mod 256" by simp
  have c: "n div 256 div 256 = 256 * (n div 256 div 256 div 256) + n div 256 div 256 mod 256" by simp
  have d: "n div 256 div 256 div 256 < 256" using assms by (simp add: div_mult2_eq [symmetric] less_mult_imp_div_less)
  have eqs: "n div 256 ^ 2 = n div 256 div 256" "n div 256 ^ 3 = n div 256 div 256 div 256"
    by (simp_all add: div_mult2_eq [symmetric])
  have pow: "256 ^ 2 = (65536 :: nat)" "256 ^ 3 = (16777216 :: nat)" by simp_all
  show ?thesis unfolding eqs unfolding pow mod_less [OF d] by (rule horner [OF a b c])
qed

lemma ne_bytes_inj: "ne_bytes a = ne_bytes b \<longleftrightarrow> a = b"
proof
  assume eq: "ne_bytes a = ne_bytes b"
  have byte: "unat a div 256 ^ i mod 256 = unat b div 256 ^ i mod 256" if "i \<in> {0, 1, 2, 3}" for i
  proof -
    have "(char_of (unat a div 256 ^ i mod 256) :: char) = char_of (unat b div 256 ^ i mod 256)"
      using eq that by (auto simp: ne_bytes_def)
    then have "(of_char (char_of (unat a div 256 ^ i mod 256) :: char) :: nat) = of_char (char_of (unat b div 256 ^ i mod 256) :: char)"
      by simp
    then show ?thesis by simp
  qed
  have "unat a < 256 ^ 4" "unat b < 256 ^ 4" using unsigned_less [where 'a = nat and 'b = 32] by simp_all
  from base256 [OF this(1)] base256 [OF this(2)] byte [of 0] byte [of 1] byte [of 2] byte [of 3]
  have "unat a = unat b" by simp
  then show "a = b" by (simp add: word_unat_eq_iff)
qed simp

section \<open>The kernel mirrors the table\<close>

text \<open>The kernel side a loaded object has: the two maps exist and no call fails.\<close>

definition healthy :: "bpf \<Rightarrow> bool" where
  "healthy k \<longleftrightarrow> bpf_maps k ''threat_map'' \<noteq> None \<and> bpf_maps k ''warn_pids'' \<noteq> None \<and> (\<forall>n. \<not> bpf_fault k n)"

definition table_level :: "threats \<Rightarrow> u32 \<Rightarrow> ThreatLevel" where
  "table_level s pid = (case tm_inner s pid of None \<Rightarrow> Low | Some (l, _) \<Rightarrow> l)"

definition mirrored :: "threats \<Rightarrow> bool" where
  "mirrored s \<longleftrightarrow> tm_ebpf s = Some (Attached BlockMode) \<and> healthy (tm_bpf s)
     \<and> (\<forall>pid. get_threat (Attached BlockMode) pid (tm_bpf s) = table_level s pid)"

lemma bpf_delete_healthy:
  "healthy k \<Longrightarrow> healthy (snd (bpf_delete name key k))"
  by (auto simp: healthy_def bpf_delete_def Let_def split: option.splits)

lemma set_threat_healthy:
  "healthy k \<Longrightarrow> healthy (snd (set_threat (Attached BlockMode) pid level k))"
  by (cases level)
     (auto simp: set_threat_def clear_both_def Let_def bpf_delete_healthy, auto simp: healthy_def bpf_update_def Let_def
       split: option.splits)

lemma get_set_threat:
  assumes "healthy k"
  shows "get_threat (Attached BlockMode) q (snd (set_threat (Attached BlockMode) pid level k))
    = (if q = pid then level else get_threat (Attached BlockMode) q k)"
proof -
  obtain tm where tm: "bpf_maps k ''threat_map'' = Some tm" using assms by (auto simp: healthy_def)
  obtain wp where wp: "bpf_maps k ''warn_pids'' = Some wp" using assms by (auto simp: healthy_def)
  have ok: "\<not> bpf_fault k n" for n using assms by (simp add: healthy_def)
  show ?thesis
    by (cases level)
       (auto simp: set_threat_def clear_both_def bpf_delete_def bpf_update_def get_threat_def tm wp ok Let_def
          ne_bytes_inj split: option.splits)
qed

lemma mirrored_write_through:
  assumes "mirrored s"
  shows "mirrored (write_through pid level (s\<lparr>tm_inner := (tm_inner s)(pid := if level = Low then None else Some (level, start))\<rparr>))"
  using assms get_set_threat [of "tm_bpf s"] set_threat_healthy [of "tm_bpf s"]
  by (auto simp: mirrored_def write_through_def table_level_def)

lemma mirrored_insert:
  "mirrored s \<Longrightarrow> level \<noteq> Low \<Longrightarrow> mirrored (set_with_starttime_inner pid level start s)"
  using mirrored_write_through [of s pid level start] by (simp add: set_with_starttime_inner_def insert_entry_def)

lemma mirrored_evict: "mirrored s \<Longrightarrow> mirrored (evict pid s)"
  using mirrored_write_through [of s pid Low] by (simp add: evict_def)

lemma mirrored_evict_if_stale: "mirrored s \<Longrightarrow> mirrored (evict_if_stale pid start s)"
  using mirrored_write_through [of s pid Low] by (auto simp: evict_if_stale_def split: option.splits)

lemma mirrored_reads: "mirrored s \<Longrightarrow> mirrored (s\<lparr>tm_reads := n\<rparr>)"
  by (simp add: mirrored_def table_level_def)

lemma mirrored_watch: "mirrored s \<Longrightarrow> mirrored (snd (set_watch pid s))"
  by (auto simp: mirrored_def set_watch_def ebpf_set_watch_def bpf_update_def healthy_def get_threat_def table_level_def
      Let_def split: option.splits prod.splits if_splits)

inductive threat_step :: "procfs \<Rightarrow> threats \<Rightarrow> threats \<Rightarrow> bool" for pf where
  set: "threat_step pf s (snd (set_level pf pid level s))"
| set_identified: "threat_step pf s (set_with_starttime pid level start s)"
| get: "threat_step pf s (snd (get_level pf (\<lambda>s. s) pid s))"
| watch: "threat_step pf s (snd (set_watch pid s))"

inductive_cases threat_stepE: "threat_step pf s s'"

lemma mirrored_step: "threat_step pf s s' \<Longrightarrow> mirrored s \<Longrightarrow> mirrored s'"
  by (erule threat_stepE)
     (auto simp: set_level_def set_with_starttime_def get_level_def read_starttime_def mirrored_evict mirrored_insert
        mirrored_reads mirrored_watch mirrored_evict_if_stale split: option.splits ProcRead.splits)

lemma mirrored_steps: "(threat_step pf)\<^sup>*\<^sup>* s s' \<Longrightarrow> mirrored s \<Longrightarrow> mirrored s'"
  by (induction rule: rtranclp_induct) (auto dest: mirrored_step)

lemma mirrored_boot:
  "healthy k \<Longrightarrow> bpf_maps k ''threat_map'' = Some Map.empty \<Longrightarrow> mirrored (with_ebpf (Attached BlockMode) (threat_map_new k))"
  by (simp add: mirrored_def with_ebpf_def threat_map_new_def table_level_def get_threat_def)


abbreviation demo_bpf :: bpf where
  "demo_bpf \<equiv> \<lparr>bpf_maps = (\<lambda>n. if n \<in> {''threat_map'', ''warn_pids'', ''watch_pids'', ''deny_bins'', ''deny_basenames'',
     ''basename_gate'', ''enforce_cfg''} then Some Map.empty else None), bpf_tick = 0, bpf_fault = \<lambda>_. False\<rparr>"

abbreviation demo_procs :: "u32 \<Rightarrow> (u64 \<times> u32) option" where
  "demo_procs \<equiv> [7 \<mapsto> (100, 1000), 8 \<mapsto> (200, 1001)]"

abbreviation demo_threats :: threats where
  "demo_threats \<equiv> with_ebpf (Attached BlockMode) (threat_map_new demo_bpf)"


text \<open>
  C17. A mark follows the process, not the number. A non-Low answer of \<open>get\<close> is the stored level of an entry whose
  start time is that of the process now bearing the number, or the read was inconclusive (then the mark is
  kept: it fails closed). When the process is gone or the number was reused, the answer is Low, the
  stale entry is removed, and an entry that another thread stored meanwhile for the new process survives.
\<close>

theorem mark_follows_process:
  assumes "process_table pf procs owner" and "tm_inner s pid = Some (level, start)"
  shows "(procs (tm_reads s) pid = Some start \<and> \<not> (\<exists>m. pid_starttime pf (tm_reads s) pid = ReadError m)
            \<longrightarrow> fst (get_level pf intf pid s) = level)
    \<and> ((\<exists>m. pid_starttime pf (tm_reads s) pid = ReadError m)
            \<longrightarrow> fst (get_level pf intf pid s) = level \<and> tm_inner (snd (get_level pf intf pid s)) = tm_inner s)
    \<and> (procs (tm_reads s) pid \<noteq> Some start \<and> \<not> (\<exists>m. pid_starttime pf (tm_reads s) pid = ReadError m)
            \<longrightarrow> fst (get_level pf intf pid s) = Low
              \<and> (\<forall>l. tm_inner (snd (get_level pf intf pid s)) pid \<noteq> Some (l, start))
              \<and> (\<forall>l st. st \<noteq> start \<and> tm_inner (intf (s\<lparr>tm_reads := tm_reads s + 1\<rparr>)) pid = Some (l, st)
                   \<longrightarrow> tm_inner (snd (get_level pf intf pid s)) pid = Some (l, st)))"
proof -
  have stale: "tm_inner (evict_if_stale pid start u) pid \<noteq> Some (l, start)" for u l
    by (auto simp: evict_if_stale_def write_through_def split: option.splits)
  have fresh: "tm_inner (evict_if_stale pid start u) pid = Some (l, st)"
    if "tm_inner u pid = Some (l, st)" "st \<noteq> start" for u l st
    using that by (simp add: evict_if_stale_def)
  show ?thesis
  proof (cases "pid_starttime pf (tm_reads s) pid")
    case (Found now)
    then have "procs (tm_reads s) pid = Some now" by (rule process_table.found [OF assms(1)])
    then show ?thesis using Found assms(2) stale fresh
      by (auto simp: get_level_def read_starttime_def)
  next
    case NotFound
    then have "procs (tm_reads s) pid = None" by (rule process_table.gone [OF assms(1)])
    then show ?thesis using NotFound assms(2) stale fresh
      by (auto simp: get_level_def read_starttime_def)
  next
    case (ReadError m)
    then show ?thesis using assms(2) by (auto simp: get_level_def read_starttime_def)
  qed
qed

theorem mark_follows_process_witness:
  "fst (get_level (files_of demo_procs) (\<lambda>s. s) 7 (insert_entry 7 Critical 99 demo_threats)) = Low
   \<and> fst (get_level (files_of demo_procs) (\<lambda>s. s) 7 (insert_entry 7 Critical 100 demo_threats)) = Critical"
proof -
  have reads: "tm_reads (insert_entry 7 Critical n demo_threats) = 0" for n
    by (simp add: insert_entry_def with_ebpf_def threat_map_new_def)
  have entry: "tm_inner (insert_entry 7 Critical n demo_threats) 7 = Some (Critical, n)" for n
    by (simp add: insert_entry_def)
  show ?thesis
    using mark_follows_process [OF fixed_table.process_table_axioms entry, where intf = "\<lambda>s. s"]
    by (simp add: files_of_start reads)
qed

text \<open>
  The table and the kernel are not updated together: \<open>set\<close> releases the table's lock before it writes the
  map, so of two threads that mark one process the table may keep the critical mark of one while the
  kernel keeps the high mark of the other, and the critical process is no longer blocked.
\<close>

theorem concurrent_marks_diverge:
  assumes "mirrored s"
  shows "let t1 = insert_entry pid High st s; t2 = insert_entry pid Critical st t1;
             t3 = write_through pid Critical t2; t4 = write_through pid High t3
         in table_level t4 pid = Critical \<and> get_threat (Attached BlockMode) pid (tm_bpf t4) = High"
  using assms get_set_threat [of "tm_bpf s"] get_set_threat [of "snd (set_threat (Attached BlockMode) pid Critical (tm_bpf s))"]
    set_threat_healthy [of "tm_bpf s" pid Critical]
  by (simp add: mirrored_def Let_def insert_entry_def write_through_def table_level_def)

theorem concurrent_marks_diverge_witness:
  "get_threat (Attached BlockMode) 7 (tm_bpf (write_through 7 High (write_through 7 Critical
     (insert_entry 7 Critical 100 (insert_entry 7 High 100 demo_threats))))) = High"
proof -
  have "mirrored demo_threats" by (rule mirrored_boot) (simp_all add: healthy_def)
  from concurrent_marks_diverge [OF this, of 7 100] show ?thesis by (simp add: Let_def)
qed

text \<open>In warn mode a step down from Critical to High leaves the warn mark in place.\<close>

lemma warn_mark_survives_high:
  assumes "healthy k"
  shows "\<exists>wp. bpf_maps (snd (set_threat (Attached WarnMode) pid High (snd (set_threat (Attached WarnMode) pid Critical k))))
    ''warn_pids'' = Some wp \<and> wp (ne_bytes pid) = Some [CHR 0x01]"
  using assms by (auto simp: healthy_def set_threat_def bpf_update_def Let_def split: option.splits)

text \<open>
  The deny keys are exact: a path is encoded to exactly 256 bytes from which the kernel, reading up to the
  first NUL, gets the path back, so two different paths never share a key; empty, over-long and
  NUL-bearing paths, and basenames with a slash, are refused instead of armed as a rule that could not match.
\<close>

theorem deny_keys_exact:
  "(case encode_deny_key p of
      Inr key \<Rightarrow> length key = 256 \<and> takeWhile (\<lambda>c. c \<noteq> NUL) key = p
    | Inl _ \<Rightarrow> p = [] \<or> 256 \<le> length p \<or> NUL \<in> set p)
   \<and> (case encode_basename_key p of
      Inr key \<Rightarrow> length key = 64 \<and> takeWhile (\<lambda>c. c \<noteq> NUL) key = p
    | Inl _ \<Rightarrow> p = [] \<or> 64 \<le> length p \<or> NUL \<in> set p \<or> CHR ''/'' \<in> set p)"
proof -
  have padded: "takeWhile (\<lambda>c. c \<noteq> NUL) (null_padded n q) = q" if "NUL \<notin> set q" for n q
  proof -
    have "\<forall>c\<in>set q. c \<noteq> NUL" using that by auto
    then have "takeWhile (\<lambda>c. c \<noteq> NUL) (null_padded n q) = q @ takeWhile (\<lambda>c. c \<noteq> NUL) (replicate (n - length q) NUL)"
      unfolding null_padded_def by (simp add: takeWhile_append2)
    then show ?thesis by (cases "n - length q") simp_all
  qed
  show ?thesis using padded
    by (simp add: encode_deny_key_def encode_basename_key_def DENY_PATH_LEN_def DENY_NAME_LEN_def)
       (auto simp: null_padded_def)
qed

end
