(* ===== verification/Npm_Parser.thy ===== *)
theory Npm_Parser
  imports Tokens
begin

text \<open>
  The npm install parser (\<open>npm_parser.rs\<close>): which package names a command would install. The walk over
  the occurrences of a tool's name and over the shapes returns at the first occurrence that is an install;
  a refused slice is the panic \<^const>\<open>None\<close>.
\<close>

definition MAX_PKGS_PER_COMMAND :: nat where "MAX_PKGS_PER_COMMAND = 64"

definition install_shapes :: "(string \<times> string) list" where
  "install_shapes =
     [(''npm'', ''install''), (''npm'', ''i''), (''npm'', ''add''), (''pnpm'', ''install''), (''pnpm'', ''i''),
      (''pnpm'', ''add''), (''yarn'', ''add'')]"

text \<open>\<open>str::match_indices\<close> of a needle that is not empty: the disjoint occurrences from the left.\<close>

function match_indices :: "string \<Rightarrow> nat \<Rightarrow> string \<Rightarrow> nat list" where
  "match_indices p i s =
     (if s = [] \<or> p = [] then []
      else if prefix p s then i # match_indices p (i + length p) (drop (length p) s)
      else match_indices p (i + 1) (tl s))"
  by pat_completeness auto
termination by (relation "measure (\<lambda>(_, _, s). length s)") auto

declare match_indices.simps [simp del]

definition ascii_ws4 :: "char \<Rightarrow> bool" where
  "ascii_ws4 c \<longleftrightarrow> c \<in> {CHR '' '', TAB, NL, CR}"

definition skip_ws :: "string \<Rightarrow> nat \<Rightarrow> nat option" where
  "skip_ws line start =
     (case dropWhile ascii_ws4 (drop start line) of [] \<Rightarrow> None | rest \<Rightarrow> Some (length line - length rest))"

definition strip_version :: "string \<Rightarrow> string" where
  "strip_version tok =
     (case rfind_char (\<lambda>c. c = CHR ''@'') tok of
        None \<Rightarrow> tok | Some i \<Rightarrow> if i = 0 then tok else take i tok)"

fun walk_toks :: "string list \<Rightarrow> string list \<Rightarrow> string list" where
  "walk_toks out [] = out"
| "walk_toks out (tok # toks) =
     (if MAX_PKGS_PER_COMMAND \<le> length out then out
      else if starts_with ''-'' tok then walk_toks out toks
      else let name = strip_version tok
           in walk_toks (if name = [] then out else out @ [name]) toks)"

definition walk_pkgs :: "string \<Rightarrow> string list" where
  "walk_pkgs args = walk_toks [] (split_whitespace args)"

text \<open>One occurrence: \<open>Some None\<close> continues the walk, \<open>Some (Some pkgs)\<close> returns.\<close>

definition try_install :: "string \<Rightarrow> string \<Rightarrow> string \<Rightarrow> nat \<Rightarrow> string list option option" where
  "try_install line tool verb idx =
     (if idx \<noteq> 0 \<and> line ! (idx - 1) \<notin> {CHR '' '', TAB, CHR '';'', CHR ''&'', CHR ''|''} then Some None
      else let after_tool = idx + length tool
           in case skip_ws line after_tool of
                None \<Rightarrow> Some None
              | Some verb_start \<Rightarrow>
                  if verb_start \<le> after_tool then Some None
                  else let verb_end = verb_start + length verb
                       in if length line < verb_end \<or> take (length verb) (drop verb_start line) \<noteq> verb then Some None
                          else if verb_end = length line then Some (Some [])
                          else if line ! verb_end \<in> {CHR '' '', TAB}
                          then (case skip_ws line verb_end of
                                  None \<Rightarrow> Some (Some [])
                                | Some args_start \<Rightarrow>
                                    map_option (\<lambda>args. Some (walk_pkgs args)) (str_slice line args_start (length line)))
                          else Some None)"

fun first_install :: "(nat \<Rightarrow> string list option option) \<Rightarrow> nat list \<Rightarrow> string list option option" where
  "first_install f [] = Some None"
| "first_install f (i # is) =
     (case f i of None \<Rightarrow> None | Some (Some pkgs) \<Rightarrow> Some (Some pkgs) | Some None \<Rightarrow> first_install f is)"

fun walk_shapes :: "string \<Rightarrow> (string \<times> string) list \<Rightarrow> string list option" where
  "walk_shapes line [] = Some []"
| "walk_shapes line ((tool, verb) # shapes) =
     (case first_install (try_install line tool verb) (match_indices tool 0 line) of
        None \<Rightarrow> None | Some (Some pkgs) \<Rightarrow> Some pkgs | Some None \<Rightarrow> walk_shapes line shapes)"

definition extract_npm_install_pkgs :: "string \<Rightarrow> string list option" where
  "extract_npm_install_pkgs line = walk_shapes line install_shapes"

section \<open>No panic, bounded work\<close>

lemma skip_ws_Some:
  assumes "skip_ws line start = Some p" and "start < length line"
  shows "start \<le> p" and "p < length line" and "\<forall>i. start \<le> i \<and> i < p \<longrightarrow> ascii_ws4 (line ! i)" and "\<not> ascii_ws4 (line ! p)"
proof -
  let ?d = "drop start line" and ?w = "takeWhile ascii_ws4 (drop start line)" and ?r = "dropWhile ascii_ws4 (drop start line)"
  have r: "?r \<noteq> []" and p: "p = length line - length ?r"
    using assms(1) by (cases ?r; simp add: skip_ws_def del: dropWhile_eq_Nil_conv)+
  have d: "?d = ?w @ ?r" by simp
  have "length line - start = length ?w + length ?r"
    using arg_cong [OF d, of length] by (metis length_append length_drop)
  moreover have "0 < length ?r" using r by (simp del: dropWhile_eq_Nil_conv)
  ultimately have p': "p = start + length ?w" and len: "start + length ?w < length line"
    using p assms(2) by linarith+
  show "start \<le> p" "p < length line" using p' len by simp_all
  show "\<forall>i. start \<le> i \<and> i < p \<longrightarrow> ascii_ws4 (line ! i)"
  proof (intro allI impI)
    fix i assume i: "start \<le> i \<and> i < p"
    have in_w: "i - start < length ?w" using i p' by linarith
    have "line ! i = ?d ! (i - start)" using i assms(2) by simp
    also have "\<dots> = ?w ! (i - start)" using in_w by (metis d nth_append)
    finally show "ascii_ws4 (line ! i)" using nth_mem [OF in_w] set_takeWhileD by metis
  qed
  have "line ! p = hd ?r"
  proof -
    have "line ! p = ?d ! length ?w" using p' len by simp
    also have "\<dots> = ?r ! 0" by (metis d diff_self_eq_0 nth_append order_less_irrefl)
    also have "\<dots> = hd ?r" using r by (metis hd_conv_nth)
    finally show ?thesis .
  qed
  then show "\<not> ascii_ws4 (line ! p)" using r hd_dropWhile by metis
qed

lemma ascii_ws4_ascii: "ascii_ws4 c \<Longrightarrow> byte_of c < (0x80::nat)"
  by (auto simp: ascii_ws4_def)

text \<open>After an ASCII byte of a well-formed string there is a character boundary.\<close>

lemma boundary_after_ascii:
  assumes "utf8_valid s" and "i < length s" and "byte_of (s ! i) < (0x80::nat)"
  shows "is_char_boundary s (i + 1)"
proof -
  have "is_char_boundary s i" using assms(2,3) by (simp add: is_char_boundary_def cont_def)
  then have "utf8_valid (drop i s)" using utf8_valid_split [OF assms(1)] assms(2) by simp
  moreover have "drop i s = s ! i # drop (i + 1) s" using assms(2) by (simp add: Cons_nth_drop_Suc)
  ultimately have "utf8_valid (drop (i + 1) s)" using utf8_valid_ascii [OF assms(3)] by simp
  then show ?thesis using assms(2) by (intro boundary_drop) simp_all
qed

lemma try_install_total:
  assumes "utf8_valid line" shows "try_install line tool verb idx \<noteq> None"
proof -
  have "str_slice line p (length line) \<noteq> None"
    if "skip_ws line e = Some p" "e < length line" "line ! e \<in> {CHR '' '', TAB}" for e p
  proof -
    note p = skip_ws_Some [OF that(1,2)]
    have "ascii_ws4 (line ! e)" using that(3) by (auto simp: ascii_ws4_def)
    then have "e < p" using p(1,4) by (cases "e = p") auto
    then have "ascii_ws4 (line ! (p - 1))" using p(3) by simp
    then have "is_char_boundary line (p - 1 + 1)"
      using p(2) by (intro boundary_after_ascii [OF assms]) (auto intro: ascii_ws4_ascii)
    then show ?thesis using \<open>e < p\<close> p(2) by (simp add: str_slice_from)
  qed
  then show ?thesis
    by (auto simp: try_install_def Let_def split: option.splits if_splits)
qed

lemma walk_toks_bound: "length out \<le> MAX_PKGS_PER_COMMAND \<Longrightarrow> length (walk_toks out toks) \<le> MAX_PKGS_PER_COMMAND"
  by (induction toks arbitrary: out) (auto simp: Let_def)

lemma try_install_bound: "try_install line tool verb idx = Some (Some pkgs) \<Longrightarrow> length pkgs \<le> MAX_PKGS_PER_COMMAND"
  by (auto simp: try_install_def Let_def walk_pkgs_def intro!: walk_toks_bound split: option.splits if_splits)

lemma first_install_total: "(\<And>i. f i \<noteq> None) \<Longrightarrow> first_install f is \<noteq> None"
  by (induction "is") (auto split: option.splits)

lemma first_install_bound:
  "(\<And>i pkgs. f i = Some (Some pkgs) \<Longrightarrow> P pkgs) \<Longrightarrow> first_install f is = Some (Some pkgs) \<Longrightarrow> P pkgs"
  by (induction "is") (auto split: option.splits)

lemma walk_shapes_total: "utf8_valid line \<Longrightarrow> \<exists>pkgs. walk_shapes line shapes = Some pkgs"
proof (induction line shapes rule: walk_shapes.induct)
  case (2 line tool verb shapes)
  have "first_install (try_install line tool verb) (match_indices tool 0 line) \<noteq> None"
    by (rule first_install_total) (rule try_install_total [OF "2.prems"])
  with 2 show ?case by (auto split: option.splits)
qed simp

lemma walk_shapes_bound: "walk_shapes line shapes = Some pkgs \<Longrightarrow> length pkgs \<le> MAX_PKGS_PER_COMMAND"
proof (induction line shapes rule: walk_shapes.induct)
  case (2 line tool verb shapes)
  then show ?case
    using first_install_bound [of "try_install line tool verb" "\<lambda>p. length p \<le> MAX_PKGS_PER_COMMAND"] try_install_bound
    by (auto split: option.splits)
qed simp

lemma extract_total: "utf8_valid line \<Longrightarrow> \<exists>pkgs. extract_npm_install_pkgs line = Some pkgs \<and> length pkgs \<le> 64"
  using walk_shapes_total walk_shapes_bound by (fastforce simp: extract_npm_install_pkgs_def MAX_PKGS_PER_COMMAND_def)

section \<open>Every package is found\<close>

text \<open>What an argument list names: the tokens that are not flags, without their versions.\<close>

definition named_packages :: "string list \<Rightarrow> string list" where
  "named_packages toks = filter (\<lambda>n. n \<noteq> []) (map strip_version (filter (\<lambda>t. \<not> starts_with ''-'' t) toks))"

lemma walk_toks_named:
  "length out \<le> MAX_PKGS_PER_COMMAND
   \<Longrightarrow> walk_toks out toks = out @ take (MAX_PKGS_PER_COMMAND - length out) (named_packages toks)"
proof (induction toks arbitrary: out)
  case Nil
  then show ?case by (simp add: named_packages_def)
next
  case (Cons tok toks)
  have step: "named_packages (tok # toks)
      = (if starts_with ''-'' tok \<or> strip_version tok = [] then [] else [strip_version tok]) @ named_packages toks"
    by (simp add: named_packages_def)
  show ?case
  proof (cases "MAX_PKGS_PER_COMMAND \<le> length out")
    case True
    then show ?thesis by simp
  next
    case False
    then have "MAX_PKGS_PER_COMMAND - length out = Suc (MAX_PKGS_PER_COMMAND - Suc (length out))" by simp
    then show ?thesis using Cons.IH [of out] Cons.IH [of "out @ [strip_version tok]"] Cons.prems False
      by (simp add: step Let_def)
  qed
qed

lemma match_indices_first:
  assumes "str_find p s = Some i" and "p \<noteq> []"
  shows "\<exists>more. match_indices p k s = (k + i) # more"
  using assms
proof (induction s arbitrary: i k)
  case Nil
  then show ?case by (auto split: if_splits)
next
  case (Cons c cs)
  show ?case
  proof (cases "prefix p (c # cs)")
    case True
    then show ?thesis using Cons.prems by (subst match_indices.simps) simp
  next
    case False
    then obtain j where j: "str_find p cs = Some j" "i = Suc j" using Cons.prems by auto
    from Cons.IH [OF j(1) Cons.prems(2), of "k + 1"] False Cons.prems(2) j(2) show ?thesis
      by (subst match_indices.simps) auto
  qed
qed

lemma skip_ws_blank:
  "start < length line \<Longrightarrow> start + 1 < length line \<Longrightarrow> line ! start = CHR '' '' \<Longrightarrow> \<not> ascii_ws4 (line ! (start + 1))
   \<Longrightarrow> skip_ws line start = Some (start + 1)"
  using Cons_nth_drop_Suc [of start line] Cons_nth_drop_Suc [of "start + 1" line]
  by (simp add: skip_ws_def ascii_ws4_def flip: Cons_nth_drop_Suc)

lemma token_hd_no_ws: "token t \<Longrightarrow> \<not> ascii_ws4 (hd t)"
  by (cases t) (auto simp: token_def ascii_ws4_def)

lemma extract_npm_install:
  assumes "utf8_valid (pre @ ''npm install'' @ spaced (t # ts))"
    and "str_find ''npm'' (pre @ ''npm install'' @ spaced (t # ts)) = Some (length pre)"
    and "pre = [] \<or> last pre \<in> {CHR '' '', TAB, CHR '';'', CHR ''&'', CHR ''|''}"
    and "\<forall>u\<in>set (t # ts). token u"
  shows "extract_npm_install_pkgs (pre @ ''npm install'' @ spaced (t # ts))
    = Some (take MAX_PKGS_PER_COMMAND (named_packages (t # ts)))"
proof -
  define line where "line = pre @ ''npm install'' @ spaced (t # ts)"
  note hyps = assms(1,2) [folded line_def]
  have t: "token t" "t \<noteq> []" using assms(4) by (auto simp: token_def)
  have len: "length line = length pre + 12 + length t + length (spaced ts)" by (simp add: line_def)
  have chars: "line ! (length pre + 3) = CHR '' ''" "line ! (length pre + 3 + 1) = CHR ''i''"
    "line ! (length pre + 11) = CHR '' ''" "line ! (length pre + 11 + 1) = hd t"
    using t(2) by (simp_all add: line_def nth_append hd_conv_nth)
  have skip1: "skip_ws line (length pre + 3) = Some (length pre + 3 + 1)"
    by (rule skip_ws_blank) (use chars len in \<open>simp_all add: ascii_ws4_def\<close>)
  have skip2: "skip_ws line (length pre + 11) = Some (length pre + 11 + 1)"
    by (rule skip_ws_blank) (use chars len t token_hd_no_ws [OF t(1)] in \<open>simp_all add: length_greater_0_conv [symmetric] del: length_greater_0_conv\<close>)
  have prev: "line ! (length pre - 1) \<in> {CHR '' '', TAB, CHR '';'', CHR ''&'', CHR ''|''}" if "length pre \<noteq> 0"
    using assms(3) that by (cases pre rule: rev_cases) (auto simp: line_def nth_append)
  have verb: "take (length ''install'') (drop (length pre + 3 + 1) line) = ''install''" by (simp add: line_def)
  have "is_char_boundary line (length pre + 11 + 1)"
    by (rule boundary_after_ascii [OF hyps(1)]) (use chars(3) len in simp_all)
  then have slice: "str_slice line (length pre + 11 + 1) (length line) = Some (t @ spaced ts)"
    using len by (subst str_slice_from) (simp_all add: line_def)
  have "split_whitespace (t @ spaced ts) = t # ts"
    using split_ws_token [of t "[]"] split_spaced_end [of ts t] assms(4) t
    by (simp add: split_whitespace_def token_def)
  then have walk: "walk_pkgs (t @ spaced ts) = take MAX_PKGS_PER_COMMAND (named_packages (t # ts))"
    using walk_toks_named [of "[]" "t # ts"] by (simp add: walk_pkgs_def)
  have ends: "length ''npm'' = 3" "length pre + 3 + 1 + length ''install'' = length pre + 11"
    "\<not> length line < length pre + 11" "length pre + 11 \<noteq> length line" "\<not> length pre + 3 + 1 \<le> length pre + 3"
    using len t(2) by simp_all
  have guard: "(length pre \<noteq> 0 \<and> line ! (length pre - 1) \<notin> {CHR '' '', TAB, CHR '';'', CHR ''&'', CHR ''|''}) = False"
    using prev by blast
  have "try_install line ''npm'' ''install'' (length pre)
      = Some (Some (take MAX_PKGS_PER_COMMAND (named_packages (t # ts))))"
    by (simp only: try_install_def Let_def ends skip1 skip2 slice walk verb guard chars(3) option.case option.map insert_iff
      if_False if_True simp_thms)
      (use prev in auto)
  moreover obtain more where "match_indices ''npm'' 0 line = (0 + length pre) # more"
    using match_indices_first [OF hyps(2)] by blast
  ultimately show ?thesis
    unfolding line_def [symmetric] by (simp add: extract_npm_install_pkgs_def install_shapes_def)
qed



end
