(* ===== verification/Metrics.thy ===== *)
theory Metrics
  imports Protocol
begin

text \<open>
  The dashboard's metrics store (\<open>metrics.rs\<close>): per user and process the last report, swept by age.
  The wall clock is the argument \<open>now\<close>; both hash maps are association lists in any iteration order.
\<close>

definition STALE_MS :: u64 where "STALE_MS = 60000"
definition MAX_INSTANCES_PER_UID :: nat where "MAX_INSTANCES_PER_UID = 1024"

record metrics_record =
  mr_cwd :: string
  mr_shell :: string
  mr_incognito :: bool
  mr_last_seen_ms :: u64
  mr_counters :: metrics_counters

type_synonym bucket = "(u32 \<times> metrics_record) list"
type_synonym metrics_store = "(u32 \<times> bucket) list"

definition live_record :: "u64 \<Rightarrow> metrics_record \<Rightarrow> bool" where
  "live_record now r \<longleftrightarrow> sat_sub64 now (mr_last_seen_ms r) < STALE_MS"

definition sweep_bucket :: "u64 \<Rightarrow> bucket \<Rightarrow> bucket" where
  "sweep_bucket now per = filter (\<lambda>e. live_record now (snd e)) per"

definition sweep :: "u64 \<Rightarrow> metrics_store \<Rightarrow> metrics_store" where
  "sweep now g = filter (\<lambda>b. snd b \<noteq> []) (map (\<lambda>b. (fst b, sweep_bucket now (snd b))) g)"

definition bucket_of :: "metrics_store \<Rightarrow> u32 \<Rightarrow> bucket" where
  "bucket_of g uid = (case map_of g uid of None \<Rightarrow> [] | Some per \<Rightarrow> per)"

definition report :: "u64 \<Rightarrow> u32 \<Rightarrow> u32 \<Rightarrow> string \<Rightarrow> string \<Rightarrow> bool \<Rightarrow> metrics_counters \<Rightarrow> metrics_store \<Rightarrow> metrics_store" where
  "report now uid pid cwd shell incognito counters g0 =
     (let g = sweep now g0;
          per = bucket_of g uid
      in if MAX_INSTANCES_PER_UID \<le> length per \<and> pid \<notin> fst ` set per then am_upd uid per g
         else am_upd uid (am_upd pid \<lparr>mr_cwd = cwd, mr_shell = shell, mr_incognito = incognito,
                mr_last_seen_ms = now, mr_counters = counters\<rparr> per) g)"

definition selected :: "u32 \<Rightarrow> bool \<Rightarrow> metrics_store \<Rightarrow> metrics_store" where
  "selected uid all g =
     (if all then g else case map_of g uid of None \<Rightarrow> [] | Some per \<Rightarrow> [(uid, per)])"

definition instance_of :: "u32 \<Rightarrow> u32 \<times> metrics_record \<Rightarrow> instance_info" where
  "instance_of u e =
     \<lparr>ii_uid = u, ii_pid = fst e, ii_cwd = mr_cwd (snd e), ii_shell = mr_shell (snd e),
      ii_incognito = mr_incognito (snd e), ii_last_seen_ms = mr_last_seen_ms (snd e), ii_counters = mr_counters (snd e)\<rparr>"

definition instances :: "u64 \<Rightarrow> u32 \<Rightarrow> bool \<Rightarrow> metrics_store \<Rightarrow> instance_info list" where
  "instances now uid all g =
     concat (map (\<lambda>b. map (instance_of (fst b)) (filter (\<lambda>e. live_record now (snd e)) (snd b))) (selected uid all g))"

definition aggregate_record :: "u64 \<Rightarrow> metrics_record \<Rightarrow> metrics_counters \<times> nat \<Rightarrow> metrics_counters \<times> nat" where
  "aggregate_record now r acc =
     (if live_record now r then (counters_add (fst acc) (mr_counters r), snd acc + 1) else acc)"

definition aggregate :: "u64 \<Rightarrow> u32 \<Rightarrow> bool \<Rightarrow> metrics_store \<Rightarrow> metrics_counters \<times> nat" where
  "aggregate now uid all g =
     fold (\<lambda>b acc. fold (\<lambda>e. aggregate_record now (snd e)) (snd b) acc) (selected uid all g) (counters_default, 0)"

section \<open>The invariant\<close>

definition store_ok :: "metrics_store \<Rightarrow> bool" where
  "store_ok g \<longleftrightarrow> am_ok g \<and> (\<forall>b\<in>set g. snd b \<noteq> [] \<and> am_ok (snd b) \<and> length (snd b) \<le> MAX_INSTANCES_PER_UID)"

lemma map_of_sweep:
  assumes "am_ok g"
  shows "map_of (sweep now g) u =
    (case map_of g u of None \<Rightarrow> None
     | Some per \<Rightarrow> if sweep_bucket now per = [] then None else Some (sweep_bucket now per))"
proof -
  have "map_of (map (\<lambda>b. (fst b, sweep_bucket now (snd b))) g) u = map_option (sweep_bucket now) (map_of g u)"
    by (induction g) auto
  moreover have "am_ok (map (\<lambda>b. (fst b, sweep_bucket now (snd b))) g)" using assms by (simp add: o_def)
  ultimately show ?thesis
    unfolding sweep_def by (subst map_of_filter_val) (auto split: option.splits)
qed

lemma sweep_ok:
  assumes "store_ok g" shows "store_ok (sweep now g)"
proof -
  have "am_ok (sweep now g)"
    using assms by (auto simp: store_ok_def sweep_def o_def distinct_map_filter intro!: am_ok_filter)
  moreover have "snd b \<noteq> [] \<and> am_ok (snd b) \<and> length (snd b) \<le> MAX_INSTANCES_PER_UID" if b: "b \<in> set (sweep now g)" for b
  proof -
    from b obtain c where c: "c \<in> set g" "snd b = sweep_bucket now (snd c)" "snd b \<noteq> []"
      by (auto simp: sweep_def)
    moreover have "length (sweep_bucket now (snd c)) \<le> length (snd c)" by (simp add: sweep_bucket_def)
    ultimately show ?thesis using assms by (auto simp: store_ok_def sweep_bucket_def intro: order_trans [OF length_filter_le])
  qed
  ultimately show ?thesis by (simp add: store_ok_def)
qed

lemma sweep_live: "b \<in> set (sweep now g) \<Longrightarrow> e \<in> set (snd b) \<Longrightarrow> live_record now (snd e)"
  by (auto simp: sweep_def sweep_bucket_def)

lemma bucket_of_props:
  assumes "store_ok g"
  shows "am_ok (bucket_of g u)" and "length (bucket_of g u) \<le> MAX_INSTANCES_PER_UID"
    and "bucket_of g u \<noteq> [] \<Longrightarrow> (u, bucket_of g u) \<in> set g"
  using assms map_of_SomeD [of g u] by (fastforce simp: bucket_of_def store_ok_def split: option.splits)+

lemma length_am_upd:
  assumes "am_ok m"
  shows "length (am_upd k v m) = (if k \<in> fst ` set m then length m else Suc (length m))"
proof (cases "k \<in> fst ` set m")
  case True
  then obtain w where "(k, w) \<in> set m" by auto
  with assms have "filter (\<lambda>p. fst p = k) m = [(k, w)]"
  proof (induction m)
    case (Cons p m)
    then show ?case by (cases p) (auto simp: image_iff filter_empty_conv)
  qed simp
  then have "length (filter (\<lambda>p. fst p = k) m) = 1" by simp
  moreover have "length (filter (\<lambda>p. fst p = k) m) + length (filter (\<lambda>p. fst p \<noteq> k) m) = length m"
    by (rule sum_length_filter_compl)
  ultimately show ?thesis using True by (simp add: am_upd_def)
next
  case False
  then have "filter (\<lambda>p. fst p \<noteq> k) m = m" by (auto simp: filter_id_conv)
  then show ?thesis using False by (simp add: am_upd_def)
qed

lemma set_am_upd: "set (am_upd k v m) = insert (k, v) {p \<in> set m. fst p \<noteq> k}"
  by (auto simp: am_upd_def)

lemma live_now [simp]: "live_record now \<lparr>mr_cwd = c, mr_shell = s, mr_incognito = i, mr_last_seen_ms = now, mr_counters = k\<rparr>"
  by (simp add: live_record_def sat_sub64_def STALE_MS_def)

lemma report_cases:
  obtains (capped) "MAX_INSTANCES_PER_UID \<le> length (bucket_of (sweep now g) uid)" "pid \<notin> fst ` set (bucket_of (sweep now g) uid)"
      "report now uid pid cwd shell inc cs g = am_upd uid (bucket_of (sweep now g) uid) (sweep now g)"
  | (stored) "length (bucket_of (sweep now g) uid) < MAX_INSTANCES_PER_UID \<or> pid \<in> fst ` set (bucket_of (sweep now g) uid)"
      "report now uid pid cwd shell inc cs g = am_upd uid (am_upd pid \<lparr>mr_cwd = cwd, mr_shell = shell, mr_incognito = inc,
         mr_last_seen_ms = now, mr_counters = cs\<rparr> (bucket_of (sweep now g) uid)) (sweep now g)"
proof (cases "MAX_INSTANCES_PER_UID \<le> length (bucket_of (sweep now g) uid) \<and> pid \<notin> fst ` set (bucket_of (sweep now g) uid)")
  case True
  then show ?thesis by (intro capped) (simp_all add: report_def Let_def)
next
  case False
  then show ?thesis by (intro stored) (auto simp: report_def Let_def)
qed

lemma store_ok_upd:
  "store_ok g \<Longrightarrow> per \<noteq> [] \<Longrightarrow> am_ok per \<Longrightarrow> length per \<le> MAX_INSTANCES_PER_UID \<Longrightarrow> store_ok (am_upd uid per g)"
  by (simp add: store_ok_def set_am_upd)

lemma report_ok:
  assumes "store_ok g" shows "store_ok (report now uid pid cwd shell inc cs g)"
proof -
  let ?per = "bucket_of (sweep now g) uid"
  note s = sweep_ok [OF assms, of now]
  note per = bucket_of_props [OF s, of uid]
  show ?thesis
  proof (cases rule: report_cases [of now g uid pid cwd shell inc cs])
    case capped
    then have "?per \<noteq> []" by (auto simp: MAX_INSTANCES_PER_UID_def)
    with capped per show ?thesis by (simp add: store_ok_upd [OF s])
  next
    case stored
    then have "length (am_upd pid v ?per) \<le> MAX_INSTANCES_PER_UID" for v
      using per(1,2) by (auto simp: length_am_upd)
    moreover have "am_upd pid v ?per \<noteq> []" for v by (simp add: am_upd_def)
    ultimately show ?thesis using stored(2) per(1) by (simp add: store_ok_upd [OF s])
  qed
qed

lemma report_live:
  assumes "b \<in> set (report now uid pid cwd shell inc cs g)" and "store_ok g" and "e \<in> set (snd b)"
  shows "live_record now (snd e)"
proof -
  have live: "live_record now (snd x)" if "x \<in> set (bucket_of (sweep now g) uid)" for x
    using that bucket_of_props(3) [OF sweep_ok [OF assms(2), of now], of uid]
    by (cases "bucket_of (sweep now g) uid = []") (auto dest: sweep_live)
  show ?thesis
    using assms(1,3)
    by (cases rule: report_cases [of now g uid pid cwd shell inc cs])
      (auto simp: set_am_upd live dest: sweep_live)
qed

lemma report_other:
  assumes "store_ok g" and "u \<noteq> uid"
  shows "bucket_of (report now uid pid cwd shell inc cs g) u = sweep_bucket now (bucket_of g u)"
proof -
  have "map_of (report now uid pid cwd shell inc cs g) u = map_of (sweep now g) u"
    using assms(2) by (cases rule: report_cases [of now g uid pid cwd shell inc cs]) simp_all
  then show ?thesis
    using assms(1) by (auto simp: bucket_of_def map_of_sweep store_ok_def sweep_bucket_def split: option.splits)
qed

section \<open>Queries\<close>

lemma selected_bucket: "store_ok g \<Longrightarrow> selected uid False g = (if bucket_of g uid = [] then [] else [(uid, bucket_of g uid)])"
  by (auto simp: selected_def bucket_of_def store_ok_def split: option.splits dest: map_of_SomeD)

lemma aggregate_bucket:
  "fold (\<lambda>e. aggregate_record now (snd e)) per (c, n)
     = (foldl counters_add c (map (\<lambda>e. mr_counters (snd e)) (filter (\<lambda>e. live_record now (snd e)) per)),
        n + length (filter (\<lambda>e. live_record now (snd e)) per))"
  by (induction per arbitrary: c n) (simp_all add: aggregate_record_def)

lemma aggregate_instances:
  "aggregate now uid all g
     = (foldl counters_add counters_default (map ii_counters (instances now uid all g)), length (instances now uid all g))"
proof -
  have "fold (\<lambda>b acc. fold (\<lambda>e. aggregate_record now (snd e)) (snd b) acc) bs (c, n)
      = (foldl counters_add c (map ii_counters (concat (map (\<lambda>b. map (instance_of (fst b))
            (filter (\<lambda>e. live_record now (snd e)) (snd b))) bs))),
         n + length (concat (map (\<lambda>b. map (instance_of (fst b)) (filter (\<lambda>e. live_record now (snd e)) (snd b))) bs)))" for bs c n
    by (induction bs arbitrary: c n) (simp_all add: aggregate_bucket instance_of_def o_def)
  from this [of "selected uid all g" counters_default 0] show ?thesis by (simp add: aggregate_def instances_def)
qed

text \<open>A user who is not root sees the own instances only.\<close>

lemma instances_own: "i \<in> set (instances now uid False g) \<Longrightarrow> ii_uid i = uid"
  by (auto simp: instances_def selected_def instance_of_def split: option.splits)

lemma instances_all_own:
  assumes "store_ok g"
  shows "filter (\<lambda>i. ii_uid i = uid) (instances now uid' True g) = instances now uid False g"
proof -
  have per: "filter (\<lambda>i. ii_uid i = uid) (map (instance_of u) es) = (if u = uid then map (instance_of u) es else [])" for u es
    by (auto simp: instance_of_def filter_map o_def)
  have none: "filter (\<lambda>i. ii_uid i = uid) (concat (map (\<lambda>b. map (instance_of (fst b)) (F (snd b))) bs)) = []"
    if "uid \<notin> fst ` set bs" for bs :: metrics_store and F
    using that by (induction bs) (auto simp: per)
  have "filter (\<lambda>i. ii_uid i = uid) (concat (map (\<lambda>b. map (instance_of (fst b)) (F (snd b))) g))
      = (case map_of g uid of None \<Rightarrow> [] | Some es \<Rightarrow> map (instance_of uid) (F es))" if "am_ok g" for F
    using that
  proof (induction g)
    case (Cons b g)
    then show ?case using none [of g F] by (cases "fst b = uid") (auto simp: per split: prod.splits)
  qed simp
  from this [of "filter (\<lambda>e. live_record now (snd e))"] assms show ?thesis
    by (simp add: instances_def selected_def store_ok_def split: option.splits)
qed

text \<open>
  C38. The metrics store. Every report keeps the store well formed: one bucket per user and one record per
  process, no empty bucket and at most 1024 records in each. After it every record of every user is fresh; other
  users' fresh records are untouched; the reported record is stored exactly unless it is a new process of a full
  bucket. A user's listing is exactly root's listing restricted to that user, and the aggregate is the field-wise
  saturating sum over the listing together with its length.
\<close>

theorem metrics_store_sound:
  assumes "store_ok g" and g'_def: "g' = report now uid pid cwd shell incognito counters g"
  shows "store_ok g' \<and> (\<forall>b\<in>set g'. \<forall>e\<in>set (snd b). live_record now (snd e))
    \<and> (\<forall>u. u \<noteq> uid \<longrightarrow> bucket_of g' u = sweep_bucket now (bucket_of g u))
    \<and> (map_of (bucket_of g' uid) pid = Some \<lparr>mr_cwd = cwd, mr_shell = shell, mr_incognito = incognito,
          mr_last_seen_ms = now, mr_counters = counters\<rparr>
       \<or> length (bucket_of g' uid) = 1024 \<and> pid \<notin> fst ` set (bucket_of g' uid))
    \<and> instances t u False g = filter (\<lambda>i. ii_uid i = u) (instances t v True g)
    \<and> aggregate t u all g = (foldl counters_add counters_default (map ii_counters (instances t u all g)),
         length (instances t u all g))"
proof (intro conjI)
  show "store_ok g'" unfolding g'_def by (rule report_ok [OF assms(1)])
  show "\<forall>b\<in>set g'. \<forall>e\<in>set (snd b). live_record now (snd e)"
    unfolding g'_def using report_live [OF _ assms(1)] by blast
  show "\<forall>u. u \<noteq> uid \<longrightarrow> bucket_of g' u = sweep_bucket now (bucket_of g u)"
    unfolding g'_def using report_other [OF assms(1)] by blast
  show "map_of (bucket_of g' uid) pid = Some \<lparr>mr_cwd = cwd, mr_shell = shell, mr_incognito = incognito,
          mr_last_seen_ms = now, mr_counters = counters\<rparr>
       \<or> length (bucket_of g' uid) = 1024 \<and> pid \<notin> fst ` set (bucket_of g' uid)"
  proof (cases rule: report_cases [of now g uid pid cwd shell incognito counters])
    case capped
    then show ?thesis
      using bucket_of_props(2) [OF sweep_ok [OF assms(1), of now], of uid]
      by (simp add: g'_def bucket_of_def [of "am_upd _ _ _"] MAX_INSTANCES_PER_UID_def)
  qed (simp add: g'_def bucket_of_def [of "am_upd _ _ _"])
qed (simp_all only: instances_all_own [OF assms(1)] aggregate_instances)

theorem metrics_store_sound_witness:
  "map_of (bucket_of (report 5 7 9 ''/'' ''sh'' False counters_default []) 7) 9
     = Some \<lparr>mr_cwd = ''/'', mr_shell = ''sh'', mr_incognito = False, mr_last_seen_ms = 5, mr_counters = counters_default\<rparr>"
proof -
  have ok: "store_ok []" by (simp add: store_ok_def)
  have "length (bucket_of (report 5 7 9 ''/'' ''sh'' False counters_default []) 7) = 1" by code_simp
  with metrics_store_sound [OF ok refl, of 5 7 9 "''/''" "''sh''" False counters_default] show ?thesis by auto
qed

end
