(* ===== verification/Osv.thy ===== *)
theory Osv
  imports Classifier
begin

text \<open>
  The live vulnerability lookup (\<open>osv.rs\<close>): how an answer is judged, and the cache. The HTTP client is
  the parameter \<open>post\<close>, the Unicode lower-casing the parameter \<open>lower\<close>; instants are natural numbers of the
  monotonic clock. The cache is locked for a read and for a write, not for the request in between: \<open>others\<close> is
  what other threads did to the client meanwhile.
\<close>

section \<open>Answers\<close>

text \<open>A parsed JSON value, with the three accessors the code uses.\<close>

datatype json =
    JNull
  | JBool bool
  | JNumber string
  | JString string
  | JArray "json list"
  | JObject "(string \<times> json) list"

fun json_get :: "string \<Rightarrow> json \<Rightarrow> json option" where
  "json_get k (JObject kvs) = map_of kvs k"
| "json_get k _ = None"

fun as_array :: "json \<Rightarrow> json list option" where
  "as_array (JArray vs) = Some vs"
| "as_array _ = None"

fun as_string :: "json \<Rightarrow> string option" where
  "as_string (JString s) = Some s"
| "as_string _ = None"

datatype OsvVerdict = NoVulns | Vulnerable string | Malicious string

datatype lookup_error = LFeatureNotBuilt | NetworkError string | ParseError string

definition malicious_markers :: "string list" where
  "malicious_markers =
     [''malicious package'', ''supply chain'', ''supply-chain'', ''compromised maintainer'', ''typosquat'',
      ''credentials'', ''credential theft'']"

definition summary_of :: "json \<Rightarrow> string option" where
  "summary_of v = Option.bind (json_get ''summary'' v) as_string"

definition id_of :: "json \<Rightarrow> string option" where
  "id_of v = Option.bind (json_get ''id'' v) as_string"

fun scan_vulns :: "(string \<Rightarrow> string) \<Rightarrow> string list \<times> bool \<Rightarrow> json list \<Rightarrow> string list \<times> bool" where
  "scan_vulns lower acc [] = acc"
| "scan_vulns lower (summaries, is_malicious) (v # vs) =
     scan_vulns lower
       (case summary_of v of
          Some s \<Rightarrow> (summaries @ [s], is_malicious \<or> (\<exists>m\<in>set malicious_markers. str_contains m (lower s)))
        | None \<Rightarrow> (case id_of v of Some i \<Rightarrow> (summaries @ [i], is_malicious) | None \<Rightarrow> (summaries, is_malicious)))
       vs"

definition truncate_summary :: "string \<Rightarrow> string" where
  "truncate_summary joined =
     (if 200 < length joined then take (boundary_down joined 200) joined @ ellipsis else joined)"

definition parse_osv_response :: "(string \<Rightarrow> string) \<Rightarrow> json \<Rightarrow> OsvVerdict" where
  "parse_osv_response lower j =
     (case Option.bind (json_get ''vulns'' j) as_array of
        None \<Rightarrow> NoVulns
      | Some vulns \<Rightarrow>
          if vulns = [] then NoVulns
          else let (summaries, is_malicious) = scan_vulns lower ([], False) vulns;
                   truncated = truncate_summary (join_with ''; '' summaries)
               in if is_malicious then Malicious truncated else Vulnerable truncated)"

fun osv_verdict_to_result :: "OsvVerdict \<Rightarrow> string \<Rightarrow> classify_result option" where
  "osv_verdict_to_result NoVulns package = None"
| "osv_verdict_to_result (Vulnerable summary) package =
     Some \<lparr>verdict = Warn, category = NpmUnsafeInstall, confidence = f32_lit (7 / 10),
           reason = ''OSV: '' @ summary, matched = ''npm install '' @ package\<rparr>"
| "osv_verdict_to_result (Malicious summary) package =
     Some \<lparr>verdict = Block, category = NpmUnsafeInstall, confidence = f32_lit (95 / 100),
           reason = ''OSV (malicious): '' @ summary, matched = ''npm install '' @ package\<rparr>"

section \<open>The client\<close>

definition MAX_CACHE_ENTRIES :: nat where "MAX_CACHE_ENTRIES = 4096"
definition MAX_PACKAGE_KEY_LEN :: nat where "MAX_PACKAGE_KEY_LEN = 256"

type_synonym osv_cache = "(string \<times> nat \<times> OsvVerdict) list"

record osv_config =
  cfg_endpoint :: string
  cfg_timeout_ms :: nat
  cfg_cache_ttl :: nat

record osv_client =
  osv_built :: bool \<comment> \<open>whether the \<open>osv-live\<close> feature is compiled in\<close>
  osv_endpoint :: string
  osv_cache :: osv_cache
  osv_cache_ttl :: nat

definition osv_new :: "bool \<Rightarrow> osv_config \<Rightarrow> osv_client" where
  "osv_new built cfg =
     \<lparr>osv_built = built, osv_endpoint = cfg_endpoint cfg, osv_cache = [], osv_cache_ttl = cfg_cache_ttl cfg\<rparr>"

definition cache_get :: "nat \<Rightarrow> string \<Rightarrow> osv_client \<Rightarrow> OsvVerdict option" where
  "cache_get now package s =
     (case map_of (osv_cache s) package of
        None \<Rightarrow> None
      | Some (stamp, v) \<Rightarrow> if now - stamp < osv_cache_ttl s then Some v else None)"

text \<open>\<open>min_by_key\<close> picks the first of several oldest entries.\<close>

fun oldest :: "osv_cache \<Rightarrow> string option" where
  "oldest [] = None"
| "oldest ((k, e) # es) =
     (case oldest es of
        None \<Rightarrow> Some k
      | Some k' \<Rightarrow> if (\<exists>e'. map_of es k' = Some e' \<and> fst e' < fst e) then Some k' else Some k)"

definition make_room :: "nat \<Rightarrow> nat \<Rightarrow> osv_cache \<Rightarrow> osv_cache" where
  "make_room ttl now g =
     (if MAX_CACHE_ENTRIES \<le> length g
      then let g = filter (\<lambda>e. now - fst (snd e) < ttl) g
           in if MAX_CACHE_ENTRIES \<le> length g
              then (case oldest g of None \<Rightarrow> g | Some k \<Rightarrow> am_del k g)
              else g
      else g)"

text \<open>\<open>now\<close> and \<open>stamp\<close> are the two readings of the clock, both under the lock.\<close>

definition cache_set :: "nat \<Rightarrow> nat \<Rightarrow> string \<Rightarrow> OsvVerdict \<Rightarrow> osv_client \<Rightarrow> osv_client" where
  "cache_set now stamp package v s =
     (if MAX_PACKAGE_KEY_LEN < length package then s
      else s\<lparr>osv_cache := am_upd package (stamp, v) (make_room (osv_cache_ttl s) now (osv_cache s))\<rparr>)"

type_synonym osv_post = "string \<Rightarrow> json \<Rightarrow> (lookup_error, json) result"

definition osv_query :: "string \<Rightarrow> json" where
  "osv_query package = JObject [(''package'', JObject [(''name'', JString package), (''ecosystem'', JString ''npm'')])]"

definition lookup_npm ::
    "(string \<Rightarrow> string) \<Rightarrow> osv_post \<Rightarrow> (osv_client \<Rightarrow> osv_client) \<Rightarrow> nat \<Rightarrow> nat \<Rightarrow> nat \<Rightarrow> string \<Rightarrow> osv_client
     \<Rightarrow> (lookup_error, OsvVerdict) result \<times> osv_client" where
  "lookup_npm lower post others t0 now stamp package s =
     (if \<not> osv_built s then (Inl LFeatureNotBuilt, s)
      else case cache_get t0 package s of
             Some v \<Rightarrow> (Inr v, s)
           | None \<Rightarrow>
               case post (osv_endpoint s @ ''/v1/query'') (osv_query package) of
                 Inl e \<Rightarrow> (Inl e, others s)
               | Inr j \<Rightarrow> let v = parse_osv_response lower j in (Inr v, cache_set now stamp package v (others s)))"

section \<open>The cache\<close>

definition cache_ok :: "osv_client \<Rightarrow> bool" where
  "cache_ok s \<longleftrightarrow> am_ok (osv_cache s) \<and> length (osv_cache s) \<le> MAX_CACHE_ENTRIES"

lemma oldest_in: "oldest g = Some k \<Longrightarrow> k \<in> fst ` set g"
  by (induction g arbitrary: k rule: oldest.induct) (auto split: option.splits if_splits)

lemma oldest_None: "oldest g = None \<longleftrightarrow> g = []"
  by (cases g rule: oldest.cases) (auto split: option.splits if_splits)

lemma oldest_least:
  "am_ok g \<Longrightarrow> oldest g = Some k \<Longrightarrow> map_of g k = Some e \<Longrightarrow> \<forall>f\<in>set g. fst e \<le> fst (snd f)"
proof (induction g arbitrary: k e)
  case (Cons a g)
  obtain k0 e0 where a: "a = (k0, e0)" by (cases a)
  show ?case
  proof (cases "oldest g")
    case None
    then show ?thesis using Cons.prems a by (auto simp: oldest_None)
  next
    case (Some k')
    then obtain e' where e': "map_of g k' = Some e'"
      using oldest_in [OF Some] by (metis map_of_eq_None_iff option.exhaust)
    have IH: "\<forall>f\<in>set g. fst e' \<le> fst (snd f)" using Cons.IH [OF _ Some e'] Cons.prems(1) by simp
    have ne: "k' \<noteq> k0" using oldest_in [OF Some] Cons.prems(1) a by auto
    show ?thesis
    proof (cases "fst e' < fst e0")
      case True
      then have "k = k'" "e = e'" using Cons.prems(2,3) a Some e' ne by auto
      with IH True a show ?thesis by auto
    next
      case False
      then have "k = k0" "e = e0" using Cons.prems(2,3) a Some e' by auto
      with IH False a show ?thesis by force
    qed
  qed
qed simp

lemma length_am_del:
  assumes "am_ok g" and "k \<in> fst ` set g" shows "length (am_del k g) < length g"
proof -
  from assms(2) obtain v where "(k, v) \<in> set g" by auto
  then have "length (filter (\<lambda>p. fst p \<noteq> k) g) < length g"
    by (intro length_filter_less) auto
  then show ?thesis by (simp add: am_del_def)
qed

lemma make_room_ok:
  assumes "am_ok g" and "length g \<le> MAX_CACHE_ENTRIES"
  shows "am_ok (make_room ttl now g)" and "length (make_room ttl now g) < MAX_CACHE_ENTRIES"
proof -
  let ?f = "filter (\<lambda>e. now - fst (snd e) < ttl) g"
  have f: "am_ok ?f" "length ?f \<le> MAX_CACHE_ENTRIES"
    using assms by (simp_all add: order_trans [OF length_filter_le])
  show "am_ok (make_room ttl now g)"
    using assms(1) f(1) by (auto simp: make_room_def Let_def split: option.splits)
  show "length (make_room ttl now g) < MAX_CACHE_ENTRIES"
  proof (cases "MAX_CACHE_ENTRIES \<le> length g \<and> MAX_CACHE_ENTRIES \<le> length ?f")
    case True
    then have "?f \<noteq> []" by (auto simp: MAX_CACHE_ENTRIES_def)
    then obtain k where k: "oldest ?f = Some k" using oldest_None [of ?f] by auto
    from length_am_del [OF f(1) oldest_in [OF k]] f(2) True k show ?thesis
      by (simp add: make_room_def Let_def)
  next
    case False
    then show ?thesis by (auto simp: make_room_def Let_def)
  qed
qed

lemma length_am_upd_le: "length (am_upd k v m) \<le> Suc (length m)"
  by (simp add: am_upd_def)

lemma cache_set_ok: "cache_ok s \<Longrightarrow> cache_ok (cache_set now stamp package v s)"
  using make_room_ok [of "osv_cache s" "osv_cache_ttl s" now]
    length_am_upd_le [of package "(stamp, v)" "make_room (osv_cache_ttl s) now (osv_cache s)"]
  by (auto simp: cache_ok_def cache_set_def)

text \<open>What makes room: an entry that goes was expired, or the whole cache was fresh and none was older.\<close>

lemma make_room_keeps:
  assumes "am_ok g" and "map_of g k = Some e" and "now - fst e < ttl"
  shows "map_of (make_room ttl now g) k = Some e
    \<or> MAX_CACHE_ENTRIES \<le> length g \<and> (\<forall>f\<in>set g. now - fst (snd f) < ttl \<longrightarrow> fst e \<le> fst (snd f))"
proof -
  let ?f = "filter (\<lambda>e. now - fst (snd e) < ttl) g"
  have fresh: "map_of ?f k = Some e" using assms map_of_filter_val [OF assms(1), of "\<lambda>e. now - fst e < ttl" k] by simp
  show ?thesis
  proof (cases "MAX_CACHE_ENTRIES \<le> length g \<and> MAX_CACHE_ENTRIES \<le> length ?f \<and> oldest ?f = Some k")
    case True
    then have "fst e \<le> fst (snd f)" if "f \<in> set g" "now - fst (snd f) < ttl" for f
      using oldest_least [OF am_ok_filter [OF assms(1)] _ fresh] that by (cases f) auto
    with True show ?thesis by blast
  next
    case False
    then have "map_of (make_room ttl now g) k = Some e"
      using assms(2) fresh by (auto simp: make_room_def Let_def split: option.splits)
    then show ?thesis ..
  qed
qed

text \<open>
  The lookup cache. Storing a verdict keeps the cache within 4096 entries with one entry per package,
  and the verdict is found again until its age reaches the limit, unless the name is longer than 256 bytes, in
  which case nothing changes. A fresh entry of another package survives, unless the cache was full and no fresh
  entry was older. An expired entry is never returned.
\<close>

theorem osv_cache_sound:
  assumes "cache_ok s" and "s' = cache_set now stamp package v s"
  shows "cache_ok s'
    \<and> (if length package \<le> 256
       then \<forall>t. cache_get t package s' = (if t - stamp < osv_cache_ttl s then Some v else None)
       else s' = s)
    \<and> (\<forall>k w. k \<noteq> package \<and> cache_get now k s = Some w \<longrightarrow>
         cache_get now k s' = Some w
         \<or> length (osv_cache s) = 4096 \<and> (\<exists>e. map_of (osv_cache s) k = Some (e, w)
             \<and> (\<forall>f\<in>set (osv_cache s). now - fst (snd f) < osv_cache_ttl s \<longrightarrow> e \<le> fst (snd f))))"
proof (intro conjI allI impI)
  show "cache_ok s'" using assms cache_set_ok by simp
  show "if length package \<le> 256
       then \<forall>t. cache_get t package s' = (if t - stamp < osv_cache_ttl s then Some v else None) else s' = s"
    using assms(2) by (auto simp: cache_set_def cache_get_def MAX_PACKAGE_KEY_LEN_def)
next
  fix k w assume k: "k \<noteq> package \<and> cache_get now k s = Some w"
  then obtain e where e: "map_of (osv_cache s) k = Some (e, w)" "now - e < osv_cache_ttl s"
    by (auto simp: cache_get_def split: option.splits if_splits)
  have ok: "am_ok (osv_cache s)" "length (osv_cache s) \<le> MAX_CACHE_ENTRIES" using assms(1) by (simp_all add: cache_ok_def)
  show "cache_get now k s' = Some w
         \<or> length (osv_cache s) = 4096 \<and> (\<exists>e. map_of (osv_cache s) k = Some (e, w)
             \<and> (\<forall>f\<in>set (osv_cache s). now - fst (snd f) < osv_cache_ttl s \<longrightarrow> e \<le> fst (snd f)))"
    using make_room_keeps [OF ok(1) e(1), of now "osv_cache_ttl s"] e k assms(2) ok(2)
    by (auto simp: cache_set_def cache_get_def MAX_CACHE_ENTRIES_def)
qed

theorem osv_cache_sound_witness:
  "cache_get 4 ''left-pad'' (cache_set 3 3 ''left-pad'' (Vulnerable ''x'') (osv_new True
     \<lparr>cfg_endpoint = ''e'', cfg_timeout_ms = 250, cfg_cache_ttl = 3600\<rparr>)) = Some (Vulnerable ''x'')"
proof -
  have "cache_ok (osv_new True \<lparr>cfg_endpoint = ''e'', cfg_timeout_ms = 250, cfg_cache_ttl = 3600\<rparr>)"
    by (simp add: cache_ok_def osv_new_def)
  from osv_cache_sound [OF this refl, of 3 3 "''left-pad''" "Vulnerable ''x''"] show ?thesis
    by (simp add: osv_new_def)
qed

section \<open>Judgement\<close>

definition flagged_summary :: "(string \<Rightarrow> string) \<Rightarrow> json \<Rightarrow> bool" where
  "flagged_summary lower v \<longleftrightarrow>
     (\<exists>s m. summary_of v = Some s \<and> m \<in> set malicious_markers \<and> sublist m (lower s))"

definition named :: "json \<Rightarrow> string list" where
  "named v = (case summary_of v of Some s \<Rightarrow> [s] | None \<Rightarrow> (case id_of v of Some i \<Rightarrow> [i] | None \<Rightarrow> []))"

lemma scan_vulns_spec:
  "scan_vulns lower (ss, m) vs = (ss @ concat (map named vs), m \<or> (\<exists>v\<in>set vs. flagged_summary lower v))"
  by (induction vs arbitrary: ss m)
    (auto simp: named_def flagged_summary_def str_contains_sublist split: option.splits)

lemma truncate_summary_length: "length (truncate_summary s) \<le> 203"
  using boundary_down_le [of s 200] by (auto simp: truncate_summary_def)

lemma utf8_valid_ellipsis: "utf8_valid ellipsis"
  by code_simp

lemma truncate_summary_valid: "utf8_valid s \<Longrightarrow> utf8_valid (truncate_summary s)"
  using utf8_valid_split [OF _ boundary_down_ok, of s 200] boundary_down_le [of s 200]
  by (simp add: truncate_summary_def utf8_valid_append utf8_valid_ellipsis)



end
