(* ===== verification/Warn_Consumer.thy ===== *)
theory Warn_Consumer
  imports Protocol Sanitize Proc_Fs
begin

text \<open>
  The fan-out of warn events (\<open>warn_consumer.rs\<close>): subscribers with bounded inboxes, the filter on the
  process tree, and the decoding of the kernel's events. An inbox is a bounded channel: \<open>ch_queue\<close> is what
  waits in it, \<open>ch_taken\<close> what its receiver has taken so far. The receiver runs concurrently; the operations say
  at which points it may take messages.
\<close>

section \<open>Inboxes\<close>

record inbox =
  ch_cap :: nat
  ch_queue :: "response list"
  ch_taken :: "response list"
  ch_open :: bool

datatype send_result = Sent | Full | Disconnected

definition try_send :: "response \<Rightarrow> inbox \<Rightarrow> send_result \<times> inbox" where
  "try_send m ch =
     (if \<not> ch_open ch then (Disconnected, ch)
      else if ch_cap ch \<le> length (ch_queue ch) then (Full, ch)
      else (Sent, ch\<lparr>ch_queue := ch_queue ch @ [m]\<rparr>))"

definition recv :: "nat \<Rightarrow> inbox \<Rightarrow> inbox" where
  "recv n ch = ch\<lparr>ch_taken := ch_taken ch @ take n (ch_queue ch), ch_queue := drop n (ch_queue ch)\<rparr>"

definition new_inbox :: "nat \<Rightarrow> inbox" where
  "new_inbox cap = \<lparr>ch_cap = cap, ch_queue = [], ch_taken = [], ch_open = True\<rparr>"

section \<open>The broadcast list\<close>

record subscriber =
  sub_root :: u32
  sub_tx :: inbox
  sub_dropped :: u32 \<comment> \<open>\<open>dropped_since_notice\<close>\<close>
  sub_id :: u64

record broadcast =
  bc_subs :: "subscriber list"
  bc_next_id :: u64

definition subscriber_new :: "u32 \<Rightarrow> inbox \<Rightarrow> subscriber" where
  "subscriber_new anc tx = \<lparr>sub_root = anc, sub_tx = tx, sub_dropped = 0, sub_id = 0\<rparr>"

definition broadcast_new :: broadcast where
  "broadcast_new = \<lparr>bc_subs = [], bc_next_id = 0\<rparr>"

definition register :: "subscriber \<Rightarrow> broadcast \<Rightarrow> u64 \<times> broadcast" where
  "register sub b =
     (let i = bc_next_id b
      in (i, b\<lparr>bc_next_id := i + 1, bc_subs := bc_subs b @ [sub\<lparr>sub_id := i\<rparr>]\<rparr>))"

definition deregister :: "u64 \<Rightarrow> broadcast \<Rightarrow> broadcast" where
  "deregister i b = b\<lparr>bc_subs := filter (\<lambda>s. sub_id s \<noteq> i) (bc_subs b)\<rparr>"

definition flush_notice :: "subscriber \<Rightarrow> subscriber" where
  "flush_notice s =
     (let pending = sub_dropped s
      in if 0 < pending
         then (case try_send (RWarnDropped pending) (sub_tx s) of
                 (Sent, ch) \<Rightarrow> s\<lparr>sub_tx := ch, sub_dropped := 0\<rparr>
               | (_, _) \<Rightarrow> s)
         else s)"

text \<open>\<open>n\<close> is how many messages the receiver takes between the notice and the event.\<close>

definition offer :: "nat \<Rightarrow> response \<Rightarrow> subscriber \<Rightarrow> subscriber option" where
  "offer n body s0 =
     (let s1 = flush_notice s0;
          s = s1\<lparr>sub_tx := recv n (sub_tx s1)\<rparr>
      in case try_send body (sub_tx s) of
           (Sent, ch) \<Rightarrow> Some (s\<lparr>sub_tx := ch\<rparr>)
         | (Full, _) \<Rightarrow> Some (s\<lparr>sub_dropped := sat_add32 (sub_dropped s) 1\<rparr>)
         | (Disconnected, _) \<Rightarrow> None)"

definition wanted :: "(nat \<Rightarrow> u32 \<Rightarrow> u32 \<Rightarrow> bool) \<Rightarrow> nat \<Rightarrow> u32 \<Rightarrow> subscriber \<Rightarrow> bool" where
  "wanted tree k pid s \<longleftrightarrow> \<not> (sub_root s \<noteq> 0 \<and> \<not> tree k pid (sub_root s))"

text \<open>\<open>tree k\<close> is what the \<open>k\<close>-th walk through the process tree finds, \<open>took k\<close> the \<open>k\<close>-th receiver's progress.\<close>

fun retain_offer ::
    "(nat \<Rightarrow> u32 \<Rightarrow> u32 \<Rightarrow> bool) \<Rightarrow> (nat \<Rightarrow> nat) \<Rightarrow> nat \<Rightarrow> u32 \<Rightarrow> response \<Rightarrow> subscriber list \<Rightarrow> subscriber list" where
  "retain_offer tree took k pid body [] = []"
| "retain_offer tree took k pid body (s # ss) =
     (if \<not> wanted tree k pid s then [s]
      else case offer (took k) body s of None \<Rightarrow> [] | Some s' \<Rightarrow> [s'])
     @ retain_offer tree took (k + 1) pid body ss"

definition broadcast_event ::
    "(nat \<Rightarrow> u32 \<Rightarrow> u32 \<Rightarrow> bool) \<Rightarrow> (nat \<Rightarrow> nat) \<Rightarrow> u32 \<Rightarrow> response \<Rightarrow> broadcast \<Rightarrow> broadcast" where
  "broadcast_event tree took pid body b = b\<lparr>bc_subs := retain_offer tree took 0 pid body (bc_subs b)\<rparr>"

definition subscriber_count :: "broadcast \<Rightarrow> nat" where
  "subscriber_count b = length (bc_subs b)"

section \<open>The process tree\<close>

fun ppid_of_lines :: "string list \<Rightarrow> u32 option" where
  "ppid_of_lines [] = None"
| "ppid_of_lines (l # ls) =
     (if starts_with ''PPid:'' l then map_option of_nat (parse_uint 32 (str_trim (drop 5 l))) else ppid_of_lines ls)"

definition read_ppid :: "procfs \<Rightarrow> nat \<Rightarrow> u32 \<Rightarrow> u32 option" where
  "read_ppid pf t pid =
     (case status_file pf t pid of Inl _ \<Rightarrow> None | Inr status \<Rightarrow> ppid_of_lines (str_lines status))"

fun tree_walk :: "(nat \<Rightarrow> u32 \<Rightarrow> u32 option) \<Rightarrow> nat \<Rightarrow> nat \<Rightarrow> u32 \<Rightarrow> u32 \<Rightarrow> bool" where
  "tree_walk ppid t 0 anc cursor = False"
| "tree_walk ppid t (Suc n) anc cursor =
     (if cursor \<le> 1 then False
      else case ppid t cursor of
             Some p \<Rightarrow> if p = anc then True else tree_walk ppid (t + 1) n anc p
           | None \<Rightarrow> False)"

definition pid_in_tree_root :: "procfs \<Rightarrow> nat \<Rightarrow> u32 \<Rightarrow> u32 \<Rightarrow> bool" where
  "pid_in_tree_root pf t pid anc \<longleftrightarrow>
     (if pid = anc \<or> anc = 0 then True else tree_walk (read_ppid pf) t 64 anc pid)"

section \<open>Kernel events\<close>

record execve_event =
  ev_kind :: u8
  ev_verdict :: u8
  ev_pid :: u32
  ev_ppid :: u32
  ev_comm :: string \<comment> \<open>16 bytes\<close>
  ev_argv0 :: string \<comment> \<open>128 bytes\<close>

text \<open>A little-endian machine, as in the encoding of map keys.\<close>

definition u32_of_bytes :: "string \<Rightarrow> u32" where
  "u32_of_bytes bs = of_nat (foldr (\<lambda>c n. byte_of c + 256 * n) bs 0)"

definition event_from_bytes :: "string \<Rightarrow> execve_event option" where
  "event_from_bytes bytes =
     (if length bytes < 156 then None
      else Some \<lparr>ev_kind = of_nat (byte_of (bytes ! 0)), ev_verdict = of_nat (byte_of (bytes ! 1)),
             ev_pid = u32_of_bytes (take 4 (drop 4 bytes)), ev_ppid = u32_of_bytes (take 4 (drop 8 bytes)),
             ev_comm = take 16 (drop 12 bytes), ev_argv0 = take 128 (drop 28 bytes)\<rparr>)"

definition is_warn :: "execve_event \<Rightarrow> bool" where
  "is_warn e \<longleftrightarrow> ev_kind e = 1 \<and> ev_verdict e = 1"

definition is_classify :: "execve_event \<Rightarrow> bool" where
  "is_classify e \<longleftrightarrow> ev_kind e = 1 \<and> ev_verdict e = 3"

definition cstr_trim :: "string \<Rightarrow> string" where
  "cstr_trim buf = from_utf8_lossy (takeWhile (\<lambda>c. c \<noteq> CHR 0x00) buf)"

definition to_warn_event :: "execve_event \<Rightarrow> u64 \<Rightarrow> response" where
  "to_warn_event e now_ms =
     RWarnEvent (ev_pid e) (ev_ppid e) (cstr_trim (ev_comm e)) (cstr_trim (ev_argv0 e)) now_ms"

section \<open>Accounting\<close>

fun is_event :: "response \<Rightarrow> bool" where
  "is_event (RWarnEvent _ _ _ _ _) = True"
| "is_event _ = False"

fun notice_count :: "response \<Rightarrow> nat" where
  "notice_count (RWarnDropped n) = unat n"
| "notice_count _ = 0"

definition seen :: "subscriber \<Rightarrow> response list" where
  "seen s = ch_taken (sub_tx s) @ ch_queue (sub_tx s)"

definition events_seen :: "subscriber \<Rightarrow> response list" where
  "events_seen s = filter is_event (seen s)"

definition drops_noticed :: "subscriber \<Rightarrow> nat" where
  "drops_noticed s = sum_list (map notice_count (seen s))"

text \<open>What a subscriber was offered since it registered is accounted for, message by message.\<close>

definition accounted :: "response list \<Rightarrow> subscriber \<Rightarrow> bool" where
  "accounted offered s \<longleftrightarrow>
     length (events_seen s) + drops_noticed s + unat (sub_dropped s) = length offered
     \<and> subseq (events_seen s) offered
     \<and> length (ch_queue (sub_tx s)) \<le> ch_cap (sub_tx s)"

lemma seen_recv [simp]: "seen (s\<lparr>sub_tx := recv n (sub_tx s)\<rparr>) = seen s"
  by (simp add: seen_def recv_def)

lemma accounted_recv: "accounted offered s \<Longrightarrow> accounted offered (s\<lparr>sub_tx := recv n (sub_tx s)\<rparr>)"
  by (auto simp: accounted_def events_seen_def drops_noticed_def) (simp add: recv_def)

lemma accounted_close: "accounted offered (s\<lparr>sub_tx := sub_tx s\<lparr>ch_open := b\<rparr>\<rparr>) \<longleftrightarrow> accounted offered s"
  by (simp add: accounted_def events_seen_def drops_noticed_def seen_def)

lemma accounted_new: "accounted [] (subscriber_new anc (new_inbox cap)\<lparr>sub_id := i\<rparr>)"
  by (simp add: accounted_def events_seen_def drops_noticed_def seen_def subscriber_new_def new_inbox_def)

lemma accounted_flush: "accounted offered s \<Longrightarrow> accounted offered (flush_notice s)"
  by (auto simp: accounted_def events_seen_def drops_noticed_def seen_def flush_notice_def try_send_def Let_def
      split: if_splits)

lemma flush_id [simp]: "sub_id (flush_notice s) = sub_id s"
  by (simp add: flush_notice_def try_send_def Let_def)

lemma unat_sub_dropped_le: "accounted offered s \<Longrightarrow> unat (sub_dropped s) \<le> length offered"
  by (simp add: accounted_def)

lemma accounted_offer:
  assumes "accounted offered s" and "is_event body" and "length offered < 2 ^ 32 - 1"
    and "offer n body s = Some s'"
  shows "accounted (offered @ [body]) s'" and "sub_id s' = sub_id s"
proof -
  define r where "r = (flush_notice s)\<lparr>sub_tx := recv n (sub_tx (flush_notice s))\<rparr>"
  have r: "accounted offered r" unfolding r_def by (intro accounted_recv accounted_flush assms(1))
  have small: "unat (sub_dropped r) + 1 < 2 ^ 32" using unat_sub_dropped_le [OF r] assms(3) by simp
  have no_notice: "notice_count body = 0" using assms(2) by (cases body) auto
  from assms(4) have cases: "s' = r\<lparr>sub_tx := sub_tx r\<lparr>ch_queue := ch_queue (sub_tx r) @ [body]\<rparr>\<rparr>
        \<and> length (ch_queue (sub_tx r)) < ch_cap (sub_tx r)
      \<or> s' = r\<lparr>sub_dropped := sat_add32 (sub_dropped r) 1\<rparr>"
    by (auto simp: offer_def r_def [symmetric] try_send_def Let_def split: if_splits)
  have add: "unat (sat_add32 (sub_dropped r) 1) = unat (sub_dropped r) + 1"
    using small by (simp add: unat_sat_add32)
  have sub: "subseq (events_seen r) (offered @ [body])"
    using r by (simp add: accounted_def subseq_rev_drop_many)
  have sub_snoc: "subseq (events_seen r @ [body]) (offered @ [body])"
    using r by (auto simp: accounted_def intro: list_emb_append_mono)
  show "accounted (offered @ [body]) s'"
    using cases r sub sub_snoc add assms(2) no_notice
    by (auto simp: accounted_def events_seen_def drops_noticed_def seen_def)
  have "sub_id r = sub_id s" by (simp add: r_def)
  with cases show "sub_id s' = sub_id s" by auto
qed

section \<open>Histories\<close>

text \<open>
  What happens to the list: an event is broadcast, a client subscribes or leaves, a receiver takes messages
  or goes away. Beside the list the history keeps what each id was offered.
\<close>

datatype bc_action =
    Announce "nat \<Rightarrow> u32 \<Rightarrow> u32 \<Rightarrow> bool" "nat \<Rightarrow> nat" u32 response
  | Subscribe u32 nat
  | Leave u64
  | Take u64 nat
  | HangUp u64

fun offered_to :: "(nat \<Rightarrow> u32 \<Rightarrow> u32 \<Rightarrow> bool) \<Rightarrow> nat \<Rightarrow> u32 \<Rightarrow> subscriber list \<Rightarrow> u64 list" where
  "offered_to tree k pid [] = []"
| "offered_to tree k pid (s # ss) = (if wanted tree k pid s then [sub_id s] else []) @ offered_to tree (k + 1) pid ss"

definition on_sub :: "u64 \<Rightarrow> (inbox \<Rightarrow> inbox) \<Rightarrow> broadcast \<Rightarrow> broadcast" where
  "on_sub i f b = b\<lparr>bc_subs := map (\<lambda>s. if sub_id s = i then s\<lparr>sub_tx := f (sub_tx s)\<rparr> else s) (bc_subs b)\<rparr>"

type_synonym history = "broadcast \<times> (u64 \<Rightarrow> response list)"

fun bc_do :: "bc_action \<Rightarrow> history \<Rightarrow> history" where
  "bc_do (Announce tree took pid body) (b, h) =
     (broadcast_event tree took pid body b,
      \<lambda>i. if i \<in> set (offered_to tree 0 pid (bc_subs b)) then h i @ [body] else h i)"
| "bc_do (Subscribe anc cap) (b, h) =
     (snd (register (subscriber_new anc (new_inbox cap)) b), h(bc_next_id b := []))"
| "bc_do (Leave i) (b, h) = (deregister i b, h)"
| "bc_do (Take i n) (b, h) = (on_sub i (recv n) b, h)"
| "bc_do (HangUp i) (b, h) = (on_sub i (\<lambda>ch. ch\<lparr>ch_open := False\<rparr>) b, h)"

definition bc_run :: "bc_action list \<Rightarrow> history" where
  "bc_run acts = fold bc_do acts (broadcast_new, \<lambda>_. [])"

fun announces_event :: "bc_action \<Rightarrow> bool" where
  "announces_event (Announce tree took pid body) = is_event body"
| "announces_event _ = True"

definition history_ok :: "nat \<Rightarrow> history \<Rightarrow> bool" where
  "history_ok n bh \<longleftrightarrow>
     distinct (map sub_id (bc_subs (fst bh)))
     \<and> unat (bc_next_id (fst bh)) \<le> n
     \<and> (\<forall>s\<in>set (bc_subs (fst bh)). sub_id s < bc_next_id (fst bh)
          \<and> length (snd bh (sub_id s)) \<le> n \<and> accounted (snd bh (sub_id s)) s)"

lemma retain_offer_ids: "subseq (map sub_id (retain_offer tree took k pid body ss)) (map sub_id ss)"
proof (induction ss arbitrary: k)
  case (Cons s ss)
  have "sub_id s' = sub_id s" if "offer n body s = Some s'" for n s'
    using that by (auto simp: offer_def Let_def split: prod.splits send_result.splits)
  then show ?case using Cons.IH [of "k + 1"] by (auto split: option.splits)
qed simp

lemma subseq_set: "subseq xs ys \<Longrightarrow> set xs \<subseteq> set ys"
  by (metis subseq_conv_nths set_nths_subset)

lemma retain_offer_accounted:
  assumes "distinct (map sub_id ss)" and "is_event body"
    and "\<forall>s\<in>set ss. length (h (sub_id s)) < 2 ^ 32 - 1 \<and> accounted (h (sub_id s)) s"
    and "s' \<in> set (retain_offer tree took k pid body ss)"
  shows "accounted (if sub_id s' \<in> set (offered_to tree k pid ss) then h (sub_id s') @ [body] else h (sub_id s')) s'"
  using assms
proof (induction ss arbitrary: k)
  case (Cons s ss)
  have ids: "set (offered_to tree j pid ss) \<subseteq> sub_id ` set ss" for j
    by (induction ss arbitrary: j) auto
  have ids': "sub_id ` set (retain_offer tree took j pid body ss) \<subseteq> sub_id ` set ss" for j
    using subseq_set [OF retain_offer_ids [of tree took j pid body ss]] by simp
  show ?case
  proof (cases "s' \<in> set (retain_offer tree took (k + 1) pid body ss)")
    case True
    then have "sub_id s' \<in> sub_id ` set ss" using ids' [of "k + 1"] by blast
    then have "sub_id s' \<noteq> sub_id s" using Cons.prems(1) by auto
    moreover have "accounted (if sub_id s' \<in> set (offered_to tree (k + 1) pid ss) then h (sub_id s') @ [body] else h (sub_id s')) s'"
      using Cons.IH [OF _ _ _ True] Cons.prems by simp
    ultimately show ?thesis by simp
  next
    case False
    have own: "sub_id s \<notin> set (offered_to tree (k + 1) pid ss)" using ids [of "k + 1"] Cons.prems(1) by auto
    show ?thesis
    proof (cases "wanted tree k pid s")
      case True
      then have "s' \<in> set (case offer (took k) body s of None \<Rightarrow> [] | Some r \<Rightarrow> [r])"
        using Cons.prems(4) False by (simp only: retain_offer.simps set_append Un_iff simp_thms if_False)
      then have "offer (took k) body s = Some s'" by (cases "offer (took k) body s") (simp_all only: option.case list.set empty_iff insert_iff simp_thms)
      note off = this
      have own_ok: "accounted (h (sub_id s)) s" "length (h (sub_id s)) < 2 ^ 32 - 1" using Cons.prems(3) by simp_all
      from accounted_offer [OF own_ok(1) Cons.prems(2) own_ok(2) off] True show ?thesis by simp
    next
      case no: False
      then have "s' = s" using Cons.prems(4) False by simp
      with no own Cons.prems(3) show ?thesis by simp
    qed
  qed
qed simp

lemma bc_do_ok:
  assumes "history_ok n bh" and "announces_event a" and "n < 2 ^ 32 - 1"
  shows "history_ok (Suc n) (bc_do a bh)"
proof -
  obtain b h where bh: "bh = (b, h)" by (cases bh)
  have ok: "distinct (map sub_id (bc_subs b))" "unat (bc_next_id b) \<le> n"
    "\<And>s. s \<in> set (bc_subs b) \<Longrightarrow> sub_id s < bc_next_id b \<and> length (h (sub_id s)) \<le> n \<and> accounted (h (sub_id s)) s"
    using assms(1) by (auto simp: history_ok_def bh)
  have on_sub: "history_ok (Suc n) (on_sub i f b, h)"
    if "\<And>s. s \<in> set (bc_subs b) \<Longrightarrow> accounted (h (sub_id s)) (s\<lparr>sub_tx := f (sub_tx s)\<rparr>)" for i f
  proof -
    have "map sub_id (bc_subs (on_sub i f b)) = map sub_id (bc_subs b)" by (auto simp: on_sub_def)
    moreover have "bc_next_id (on_sub i f b) = bc_next_id b" by (simp add: on_sub_def)
    moreover have "length (h (sub_id s)) \<le> Suc n" if "s \<in> set (bc_subs b)" for s
      using ok(3) [OF that] by simp
    moreover have "s \<in> set (bc_subs (on_sub i f b)) \<Longrightarrow> \<exists>r\<in>set (bc_subs b). sub_id s = sub_id r \<and>
        (s = r \<or> s = r\<lparr>sub_tx := f (sub_tx r)\<rparr>)" for s
      by (auto simp: on_sub_def)
    ultimately show ?thesis using ok that unfolding history_ok_def fst_conv snd_conv by (metis le_Suc_eq)
  qed
  show ?thesis
  proof (cases a)
    case (Announce tree took pid body)
    let ?b = "broadcast_event tree took pid body b"
    let ?h = "\<lambda>i. if i \<in> set (offered_to tree 0 pid (bc_subs b)) then h i @ [body] else h i"
    have ids: "subseq (map sub_id (bc_subs ?b)) (map sub_id (bc_subs b))"
      by (simp add: broadcast_event_def retain_offer_ids)
    have "accounted (?h (sub_id s)) s" if "s \<in> set (bc_subs ?b)" for s
      using retain_offer_accounted [of "bc_subs b" body h s tree took 0 pid] ok assms(2,3) that Announce
      by (fastforce simp: broadcast_event_def)
    moreover have "\<exists>r\<in>set (bc_subs b). sub_id s = sub_id r" if "s \<in> set (bc_subs ?b)" for s
      using subseq_set [OF ids] that by auto
    moreover have "length (?h i) \<le> Suc (length (h i))" for i by simp
    moreover have "distinct (map sub_id (bc_subs ?b))" using ids ok(1) by (metis subseq_conv_nths distinct_nthsI)
    moreover have "bc_next_id ?b = bc_next_id b" by (simp add: broadcast_event_def)
    ultimately show ?thesis
      using ok(2,3) unfolding history_ok_def bh Announce bc_do.simps fst_conv snd_conv
      by (smt (verit, best) Suc_le_mono le_SucI order_trans)
  next
    case (Subscribe anc cap)
    have "unat (bc_next_id b + 1) = Suc (unat (bc_next_id b))"
      using ok(2) assms(3) by (simp add: unat_word_ariths)
    moreover have "sub_id s < bc_next_id b + 1" if "s \<in> set (bc_subs b)" for s
      using ok(3) [OF that] calculation by (auto simp: word_less_nat_alt)
    moreover have fresh: "bc_next_id b \<notin> sub_id ` set (bc_subs b)" using ok(3) by force
    ultimately show ?thesis
      using ok accounted_new [where anc = anc and cap = cap and i = "bc_next_id b"]
      by (auto simp: history_ok_def bh Subscribe register_def Let_def word_less_nat_alt le_SucI)
        (use fresh in force)
  next
    case (Leave i)
    then show ?thesis using ok by (auto simp: history_ok_def bh deregister_def distinct_map_filter le_SucI)
  next
    case (Take i k)
    then show ?thesis using on_sub [of "recv k" i] ok(3) accounted_recv by (simp add: bh)
  next
    case (HangUp i)
    then show ?thesis using on_sub [of "\<lambda>ch. ch\<lparr>ch_open := False\<rparr>" i] ok(3) by (simp add: bh accounted_close)
  qed
qed

lemma bc_run_ok:
  assumes "\<forall>a\<in>set acts. announces_event a" and "length acts < 2 ^ 32"
  shows "history_ok (length acts) (bc_run acts)"
  using assms
proof (induction acts rule: rev_induct)
  case Nil
  show ?case by (simp add: bc_run_def history_ok_def broadcast_new_def)
next
  case (snoc a acts)
  then show ?case using bc_do_ok [of "length acts" "bc_run acts" a] by (simp add: bc_run_def)
qed

text \<open>
  C25. No warn event is lost without notice. In every history of fewer than 2^32 steps, whatever the
  receivers do and however slow they are, each subscriber of the list has been offered, or been told of as
  dropped, exactly the events that passed its filter since it registered: the events in its inbox or already
  taken, the counts of the notices there, and the pending count add up to the number offered. The events
  it sees are among those, in their order, and its inbox never exceeds its capacity.
\<close>

theorem broadcast_accounting:
  assumes "\<forall>a\<in>set acts. announces_event a" and "length acts < 2 ^ 32"
    and "bc_run acts = (b, h)" and "s \<in> set (bc_subs b)"
  shows "length (events_seen s) + drops_noticed s + unat (sub_dropped s) = length (h (sub_id s))
    \<and> subseq (events_seen s) (h (sub_id s))
    \<and> length (ch_queue (sub_tx s)) \<le> ch_cap (sub_tx s)
    \<and> (\<forall>r\<in>set (bc_subs b). sub_id r = sub_id s \<longrightarrow> r = s)"
  using bc_run_ok [OF assms(1,2)] assms(3,4) by (auto simp: history_ok_def accounted_def distinct_map inj_on_def)

theorem broadcast_accounting_witness:
  "let e = (\<lambda>n. Announce (\<lambda>_ _ _. True) (\<lambda>_. 0) 9 (RWarnEvent 9 1 ''sh'' ''/bin/sh'' n));
       b = fst (bc_run [Subscribe 0 1, e 1, e 2, e 3, Take 0 1, e 4])
   in map (\<lambda>s. (length (events_seen s), drops_noticed s, sub_dropped s)) (bc_subs b) = [(1, 2, 1)]
      \<and> (\<forall>s\<in>set (bc_subs b). length (events_seen s) + drops_noticed s + unat (sub_dropped s) = 4)"
proof -
  let ?e = "\<lambda>n. Announce (\<lambda>_ _ _. True) (\<lambda>_. 0) 9 (RWarnEvent 9 1 ''sh'' ''/bin/sh'' n)"
  let ?acts = "[Subscribe 0 1, ?e 1, ?e 2, ?e 3, Take 0 1, ?e 4]"
  have run: "bc_run ?acts = (fst (bc_run ?acts), snd (bc_run ?acts))" by simp
  have subs: "map (\<lambda>s. (length (events_seen s), drops_noticed s, sub_dropped s)) (bc_subs (fst (bc_run ?acts))) = [(1, 2, 1)]"
    "\<forall>s\<in>set (bc_subs (fst (bc_run ?acts))). length (snd (bc_run ?acts) (sub_id s)) = 4"
    by (simp_all add: bc_run_def broadcast_new_def register_def subscriber_new_def new_inbox_def broadcast_event_def
        wanted_def offer_def flush_notice_def try_send_def recv_def on_sub_def sat_add32_def events_seen_def
        drops_noticed_def seen_def Let_def)
  have "\<forall>s\<in>set (bc_subs (fst (bc_run ?acts))). length (events_seen s) + drops_noticed s + unat (sub_dropped s) = 4"
    using broadcast_accounting [OF _ _ run] subs(2) by simp
  with subs(1) show ?thesis by (simp add: Let_def)
qed

section \<open>The walk\<close>

text \<open>The \<open>n\<close>-th ancestor in a tree that does not change during the walk, through processes above 1 only.\<close>

fun ancestor :: "(u32 \<Rightarrow> u32 option) \<Rightarrow> nat \<Rightarrow> u32 \<Rightarrow> u32 option" where
  "ancestor ppid 0 pid = Some pid"
| "ancestor ppid (Suc n) pid = (if pid \<le> 1 then None else Option.bind (ppid pid) (ancestor ppid n))"

lemma tree_walk_ancestor:
  "tree_walk (\<lambda>_. ppid) t n anc pid \<longleftrightarrow> (\<exists>k. 1 \<le> k \<and> k \<le> n \<and> ancestor ppid k pid = Some anc)"
proof (induction n arbitrary: t pid)
  case (Suc n)
  have shift: "(\<exists>k. 1 \<le> k \<and> k \<le> Suc n \<and> ancestor ppid k pid = Some anc)
      \<longleftrightarrow> (\<exists>k\<le>n. ancestor ppid (Suc k) pid = Some anc)"
    by (metis Suc_le_mono One_nat_def Suc_le_D le0)
  show ?case
  proof (cases "pid \<le> 1 \<or> ppid pid = None")
    case True
    then show ?thesis unfolding shift by auto
  next
    case False
    then obtain p where p: "\<not> pid \<le> 1" "ppid pid = Some p" by auto
    have "(\<exists>k\<le>n. ancestor ppid k p = Some anc) \<longleftrightarrow> p = anc \<or> (\<exists>k. 1 \<le> k \<and> k \<le> n \<and> ancestor ppid k p = Some anc)"
      by (metis One_nat_def Suc_leI ancestor.simps(1) le0 not_gr_zero option.inject)
    with p Suc.IH [of "t + 1" p] show ?thesis unfolding shift by simp
  qed
qed auto

text \<open>
  The filter follows the process tree: with a tree that stays the same during the walk, an event passes
  exactly if the subscriber asked for everything, or the process is the root it named or a descendant within 64
  generations whose chain does not pass through process 1.
\<close>

theorem filter_follows_tree:
  assumes "\<forall>t. read_ppid pf t = ppid"
  shows "pid_in_tree_root pf t pid anc \<longleftrightarrow> anc = 0 \<or> (\<exists>k\<le>64. ancestor ppid k pid = Some anc)"
proof -
  have "read_ppid pf = (\<lambda>_. ppid)" using assms by auto
  moreover have "(\<exists>k\<le>64. ancestor ppid k pid = Some anc)
      \<longleftrightarrow> pid = anc \<or> (\<exists>k. 1 \<le> k \<and> k \<le> 64 \<and> ancestor ppid k pid = Some anc)"
    by (metis One_nat_def Suc_leI ancestor.simps(1) le0 not_gr_zero option.inject)
  ultimately show ?thesis by (auto simp: pid_in_tree_root_def tree_walk_ancestor)
qed

section \<open>Decoding\<close>

definition event_bytes :: "execve_event \<Rightarrow> string" where
  "event_bytes e =
     [char_of (unat (ev_kind e)), char_of (unat (ev_verdict e)), CHR 0x00, CHR 0x00]
     @ map (\<lambda>i. char_of (unat (ev_pid e) div 256 ^ i mod 256)) [0, 1, 2, 3]
     @ map (\<lambda>i. char_of (unat (ev_ppid e) div 256 ^ i mod 256)) [0, 1, 2, 3]
     @ ev_comm e @ ev_argv0 e"

lemma u32_of_bytes_inverse: "u32_of_bytes (map (\<lambda>i. char_of (unat w div 256 ^ i mod 256)) [0, 1, 2, 3]) = w" for w :: u32
proof -
  have "unat w < 2 ^ 32" using unsigned_less [where 'a = nat, of w] by simp
  then have top: "unat w div 16777216 mod 256 = unat w div 16777216" by simp
  have div: "unat w div 256 div 256 = unat w div 65536" "unat w div 65536 div 256 = unat w div 16777216"
    by (simp_all flip: div_mult2_eq)
  have "unat w mod 256 + 256 * (unat w div 256 mod 256 + 256 * (unat w div 65536 mod 256 + 256 * (unat w div 16777216 mod 256))) = unat w"
    unfolding top
    using mod_mult_div_eq [of "unat w" 256] mod_mult_div_eq [of "unat w div 256" 256]
      mod_mult_div_eq [of "unat w div 65536" 256] by (simp only: div)
  then have "foldr (\<lambda>c n. byte_of c + 256 * n) (map (\<lambda>i. char_of (unat w div 256 ^ i mod 256)) [0, 1, 2, 3]) 0 = unat w"
    by (simp add: top)
  then have "u32_of_bytes (map (\<lambda>i. char_of (unat w div 256 ^ i mod 256)) [0, 1, 2, 3]) = of_nat (unat w)"
    by (simp only: u32_of_bytes_def)
  then show ?thesis by simp
qed

lemma event_roundtrip:
  assumes "length (ev_comm e) = 16" and "length (ev_argv0 e) = 128"
  shows "event_from_bytes (event_bytes e @ rest) = Some e"
proof -
  have "unat k mod 256 = unat k" for k :: u8
    using unsigned_less [where 'a = nat, of k] by simp
  then show ?thesis
    using assms u32_of_bytes_inverse [of "ev_pid e"] u32_of_bytes_inverse [of "ev_ppid e"]
    by (simp add: event_from_bytes_def event_bytes_def)
qed

end
