(* ===== verification/Exec_Dispatch.thy ===== *)
theory Exec_Dispatch
  imports Warn_Consumer Classifier Profile Ebpf
begin

text \<open>
  What the daemon does with the kernel's exec events (\<open>ebpf.rs\<close>): the ring buffer callback, the classify
  worker with its bounded queue, and the attachment of the kernel programs. \<open>/proc\<close> is the record of reads,
  \<open>kill\<close> whether the system lets the daemon signal a process; the libbpf calls of the attachment are parameters.
\<close>

section \<open>The command line of a process\<close>

fun split_at_nul :: "string \<Rightarrow> string \<Rightarrow> string list" where
  "split_at_nul cur [] = [cur]"
| "split_at_nul cur (c # cs) = (if c = NUL then cur # split_at_nul [] cs else split_at_nul (cur @ [c]) cs)"

definition join_argv :: "string \<Rightarrow> string" where
  "join_argv raw = join_with '' '' (map from_utf8_lossy (filter (\<lambda>seg. seg \<noteq> []) (split_at_nul [] raw)))"

fun cmdline_attempts :: "procfs \<Rightarrow> nat \<Rightarrow> u32 \<Rightarrow> nat \<Rightarrow> string option" where
  "cmdline_attempts pf t pid 0 = None"
| "cmdline_attempts pf t pid (Suc n) =
     (case cmdline_file pf t pid of
        Inl e \<Rightarrow> None
      | Inr raw \<Rightarrow> let joined = join_argv raw
                   in if joined \<noteq> [] then Some joined else cmdline_attempts pf (t + 1) pid n)"

definition read_proc_cmdline :: "procfs \<Rightarrow> nat \<Rightarrow> u32 \<Rightarrow> string option" where
  "read_proc_cmdline pf t pid = cmdline_attempts pf t pid 12"

section \<open>One event\<close>

datatype exec_action =
    NoAction
  | Announced
  | KillSkipped
  | Killed
  | KillFailed
  | WouldDo Mechanism

fun tier1_of :: "Verdict \<Rightarrow> Tier1Verdict" where
  "tier1_of Block = T1KnownBad"
| "tier1_of Warn = T1Suspicious"
| "tier1_of Safe = T1Safe"

definition interpreters :: "string list" where
  "interpreters =
     [''python'', ''python3'', ''node'', ''sh'', ''bash'', ''dash'', ''zsh'', ''ruby'', ''perl'', ''php'', ''lua'']"

definition event_context :: "execve_event \<Rightarrow> Tier1Verdict \<Rightarrow> exec_context" where
  "event_context evt t1 =
     \<lparr>tier1 = t1, is_interpreter = (cstr_trim (ev_comm evt) \<in> set interpreters), parent_is_interactive_shell = False,
      in_watch_scope = True, load = NormalLoad\<rparr>"

text \<open>\<open>None\<close> is a panic of the classifier.\<close>

definition exec_action_for ::
    "procfs \<Rightarrow> nat \<Rightarrow> classifier \<Rightarrow> routing_policy \<Rightarrow> (u32 \<Rightarrow> bool) \<Rightarrow> execve_event \<Rightarrow> exec_action option" where
  "exec_action_for pf t c policy kill_ok evt =
     (let live_cmd = read_proc_cmdline pf t (ev_pid evt);
          cmd = (case live_cmd of Some l \<Rightarrow> l | None \<Rightarrow> cstr_trim (ev_argv0 evt))
      in case classify c cmd of
           None \<Rightarrow> None
         | Some r \<Rightarrow>
             let t1 = tier1_of (verdict r);
                 mech = decide policy (event_context evt t1)
             in Some (case mech of
                  AllowExec \<Rightarrow> NoAction
                | WarnAsync \<Rightarrow> Announced
                | ClassifyAsyncThenKill \<Rightarrow>
                    if t1 \<noteq> T1Safe
                    then if live_cmd = None then KillSkipped
                         else if \<not> kill_ok (ev_pid evt) then KillFailed
                         else Killed
                    else NoAction
                | _ \<Rightarrow> WouldDo mech))"

text \<open>The kernel's event stream as the daemon's threads see it.\<close>

record exec_env =
  xe_proc :: procfs
  xe_read :: nat
  xe_kill :: "u32 \<Rightarrow> bool"
  xe_tree :: "nat \<Rightarrow> u32 \<Rightarrow> u32 \<Rightarrow> bool"
  xe_took :: "nat \<Rightarrow> nat"
  xe_now_ms :: u64

definition announce :: "exec_env \<Rightarrow> execve_event \<Rightarrow> broadcast \<Rightarrow> broadcast" where
  "announce env evt b = broadcast_event (xe_tree env) (xe_took env) (ev_pid evt) (to_warn_event evt (xe_now_ms env)) b"

definition dispatch_classify ::
    "exec_env \<Rightarrow> classifier \<Rightarrow> routing_policy \<Rightarrow> execve_event \<Rightarrow> broadcast \<Rightarrow> (exec_action \<times> broadcast) option" where
  "dispatch_classify env c policy evt b =
     (case exec_action_for (xe_proc env) (xe_read env) c policy (xe_kill env) evt of
        None \<Rightarrow> None
      | Some act \<Rightarrow> Some (act, if act \<in> {Announced, KillFailed} then announce env evt b else b))"

text \<open>The worker reads the live profile for every event and survives a panic: the outcome is then \<open>None\<close>.\<close>

definition worker_event ::
    "exec_env \<Rightarrow> classifier \<Rightarrow> u8 \<Rightarrow> bool \<Rightarrow> execve_event \<Rightarrow> broadcast \<Rightarrow> exec_action option \<times> broadcast" where
  "worker_event env c active_profile can_freeze evt b =
     (let policy = \<lparr>profile = profile_from_u8 active_profile, smart_can_freeze = can_freeze\<rparr>
      in case dispatch_classify env c policy evt b of
           None \<Rightarrow> (None, b)
         | Some (act, b') \<Rightarrow> (Some act, b'))"

section \<open>The ring buffer callback\<close>

definition CLASSIFY_QUEUE :: nat where "CLASSIFY_QUEUE = 1024"

text \<open>The queue between the callback and the worker; \<open>None\<close> is a worker that is gone.\<close>

definition ringbuf_callback ::
    "exec_env \<Rightarrow> string \<Rightarrow> broadcast \<times> execve_event list option \<Rightarrow> broadcast \<times> execve_event list option" where
  "ringbuf_callback env data st =
     (case event_from_bytes data of
        None \<Rightarrow> st
      | Some evt \<Rightarrow>
          if is_warn evt then (announce env evt (fst st), snd st)
          else if is_classify evt
          then (fst st, case snd st of
                  Some q \<Rightarrow> if CLASSIFY_QUEUE \<le> length q then Some q else Some (q @ [evt])
                | None \<Rightarrow> None)
          else st)"

section \<open>Attachment\<close>

datatype attach_error =
    AFeatureNotBuilt
  | AObjectMissing "string list"
  | ALoadFailed string

text \<open>
  What libbpf and the system answer: opening and loading the object, the programs and maps it holds, the
  attachment of a program, and the start of a thread.
\<close>

record libbpf =
  lb_open :: "string \<Rightarrow> (string, unit) result"
  lb_load :: "(string, unit) result"
  lb_progs :: "string list"
  lb_attach :: "string \<Rightarrow> (string, unit) result"
  lb_maps :: "string list"
  lb_spawn :: "string \<Rightarrow> (string, unit) result"
  lb_ring :: "(string, unit) result"
  lb_build :: "(string, unit) result"

definition attach_prog :: "libbpf \<Rightarrow> string \<Rightarrow> string \<Rightarrow> (attach_error, unit) result" where
  "attach_prog lb name what =
     (if name \<notin> set (lb_progs lb) then Inl (ALoadFailed (''program '' @ name @ '' missing from .o''))
      else case lb_attach lb name of
             Inl e \<Rightarrow> Inl (ALoadFailed (''attach '' @ what @ '': '' @ e))
           | Inr _ \<Rightarrow> Inr ())"

definition with_prefix :: "string \<Rightarrow> (string, unit) result \<Rightarrow> (attach_error, unit) result" where
  "with_prefix p r = (case r of Inl e \<Rightarrow> Inl (ALoadFailed (p @ '': '' @ e)) | Inr u \<Rightarrow> Inr u)"

fun steps_in_order :: "(attach_error, unit) result list \<Rightarrow> (attach_error, unit) result" where
  "steps_in_order [] = Inr ()"
| "steps_in_order (r # rs) = (case r of Inl e \<Rightarrow> Inl e | Inr _ \<Rightarrow> steps_in_order rs)"

definition ebpf_attach ::
    "bool \<Rightarrow> (string list, string) result \<Rightarrow> libbpf \<Rightarrow> LoadedMode \<Rightarrow> (attach_error, ebpf_state) result" where
  "ebpf_attach built located lb mode =
     (if \<not> built then Inl AFeatureNotBuilt
      else case located of
        Inl tried \<Rightarrow> Inl (AObjectMissing tried)
      | Inr path \<Rightarrow>
         (case steps_in_order
             [with_prefix (''open '' @ path) (lb_open lb path),
              with_prefix ''load'' (lb_load lb),
              attach_prog lb ''check_execve'' ''lsm'',
              attach_prog lb ''trace_socket'' ''socket tracepoint'',
              attach_prog lb ''trace_fork'' ''fork tracepoint'',
              attach_prog lb ''trace_exit'' ''exit tracepoint'',
              (if ''events'' \<in> set (lb_maps lb) then Inr () else Inl (ALoadFailed ''events ringbuf missing'')),
              with_prefix ''spawn classify worker'' (lb_spawn lb ''atty-guard-classify''),
              with_prefix ''ringbuf add'' (lb_ring lb),
              with_prefix ''ringbuf build'' (lb_build lb),
              with_prefix ''spawn ringbuf consumer'' (lb_spawn lb ''atty-guard-ringbuf'')] of
            Inl e \<Rightarrow> Inl e
          | Inr _ \<Rightarrow> Inr (Attached mode)))"

section \<open>What the worker does\<close>

lemma cmdline_attempts_live:
  "cmdline_attempts pf t pid n = Some cmd \<Longrightarrow> \<exists>t' raw. t \<le> t' \<and> t' < t + n \<and> cmdline_file pf t' pid = Inr raw \<and> cmd = join_argv raw \<and> cmd \<noteq> []"
proof (induction n arbitrary: t)
  case (Suc n)
  show ?case
  proof (cases "cmdline_file pf t pid")
    case (Inr raw)
    show ?thesis
    proof (cases "join_argv raw = []")
      case True
      with Suc.prems Inr have "cmdline_attempts pf (t + 1) pid n = Some cmd" by simp
      from Suc.IH [OF this] show ?thesis by (metis add_Suc_right add_Suc_shift Suc_eq_plus1 Suc_leD)
    next
      case False
      with Suc.prems Inr show ?thesis by auto
    qed
  qed (use Suc.prems in simp)
qed simp

definition response_to :: "Verdict \<Rightarrow> Mechanism \<Rightarrow> string option \<Rightarrow> bool \<Rightarrow> exec_action" where
  "response_to v mech line kill_ok =
     (if v = Safe then NoAction
      else case mech of
        AllowExec \<Rightarrow> NoAction
      | WarnAsync \<Rightarrow> Announced
      | ClassifyAsyncThenKill \<Rightarrow> if line = None then KillSkipped else if kill_ok then Killed else KillFailed
      | _ \<Rightarrow> WouldDo mech)"

lemma action_response:
  "exec_action_for pf t c policy kill_ok evt =
     (let line = read_proc_cmdline pf t (ev_pid evt)
      in map_option (\<lambda>r. response_to (verdict r) (decide policy (event_context evt (tier1_of (verdict r)))) line (kill_ok (ev_pid evt)))
           (classify c (case line of Some l \<Rightarrow> l | None \<Rightarrow> cstr_trim (ev_argv0 evt))))"
proof -
  have t1: "tier1_of v = T1Safe \<longleftrightarrow> v = Safe" for v by (cases v) auto
  have "decide policy (event_context evt (tier1_of v)) = AllowExec" if "v = Safe" for v
    using that by (simp add: decide_tier1_safe event_context_def)
  then show ?thesis
    by (auto simp: exec_action_for_def response_to_def Let_def t1 split: option.split Mechanism.split)
qed

lemma decide_kill_profiles:
  "decide pol ctx = ClassifyAsyncThenKill \<Longrightarrow> profile pol \<in> {Session, Strict, Smart}"
  by (auto simp: decide_defs split: decide_splits)

lemma decide_prompt: "profile pol = Prompt \<Longrightarrow> decide pol ctx = AllowExec"
  by (simp add: decide_def)

lemma decide_session:
  "profile pol \<in> {Session, Strict} \<Longrightarrow> in_watch_scope ctx \<Longrightarrow> tier1 ctx \<noteq> T1Safe \<Longrightarrow> decide pol ctx = ClassifyAsyncThenKill"
  by (cases "tier1 ctx") (auto simp: decide_def)

lemma worker_action:
  assumes "worker_event env c byte can_freeze evt b = (act, b')"
  shows "act = exec_action_for (xe_proc env) (xe_read env) c \<lparr>profile = profile_from_u8 byte, smart_can_freeze = can_freeze\<rparr> (xe_kill env) evt"
    and "b' = (if act \<in> {Some Announced, Some KillFailed} then announce env evt b else b)"
proof -
  let ?x = "exec_action_for (xe_proc env) (xe_read env) c \<lparr>profile = profile_from_u8 byte, smart_can_freeze = can_freeze\<rparr> (xe_kill env) evt"
  have pair: "worker_event env c byte can_freeze evt b
      = (?x, if ?x \<in> {Some Announced, Some KillFailed} then announce env evt b else b)"
    by (simp add: worker_event_def dispatch_classify_def Let_def split: option.split)
  from arg_cong [OF trans [OF sym [OF pair] assms], of fst] show act: "act = ?x" by (simp only: fst_conv)
  from arg_cong [OF trans [OF sym [OF pair] assms], of snd]
  show "b' = (if act \<in> {Some Announced, Some KillFailed} then announce env evt b else b)" by (simp only: snd_conv act)
qed

text \<open>Every action comes from a verdict on the command line that was read, or on the name in the event.\<close>

lemma action_from_verdict:
  assumes "exec_action_for pf t c pol kill_ok evt = Some a" and "line = read_proc_cmdline pf t (ev_pid evt)"
  obtains r where "classify c (case line of Some l \<Rightarrow> l | None \<Rightarrow> cstr_trim (ev_argv0 evt)) = Some r"
    and "a = response_to (verdict r) (decide pol (event_context evt (tier1_of (verdict r)))) line (kill_ok (ev_pid evt))"
  using assms by (auto simp: action_response Let_def)

lemma kill_response:
  assumes "exec_action_for pf t c pol kill_ok evt = Some a" and "a \<in> {Killed, KillFailed}"
  shows "profile pol \<in> {Session, Strict, Smart}
    \<and> (\<exists>t' raw r. t \<le> t' \<and> cmdline_file pf t' (ev_pid evt) = Inr raw
         \<and> read_proc_cmdline pf t (ev_pid evt) = Some (join_argv raw) \<and> classify c (join_argv raw) = Some r \<and> verdict r \<noteq> Safe)"
proof -
  obtain r where r: "classify c (case read_proc_cmdline pf t (ev_pid evt) of Some l \<Rightarrow> l | None \<Rightarrow> cstr_trim (ev_argv0 evt)) = Some r"
    "a = response_to (verdict r) (decide pol (event_context evt (tier1_of (verdict r)))) (read_proc_cmdline pf t (ev_pid evt)) (kill_ok (ev_pid evt))"
    using action_from_verdict [OF assms(1) refl] .
  then have unsafe: "verdict r \<noteq> Safe" and mech: "decide pol (event_context evt (tier1_of (verdict r))) = ClassifyAsyncThenKill"
    and "read_proc_cmdline pf t (ev_pid evt) \<noteq> None"
    using assms(2) by (auto simp: response_to_def split: Mechanism.splits if_splits)
  then obtain l where l: "read_proc_cmdline pf t (ev_pid evt) = Some l" by blast
  with cmdline_attempts_live [of pf t "ev_pid evt" 12 l]
  obtain t' raw where "t \<le> t'" "cmdline_file pf t' (ev_pid evt) = Inr raw" "l = join_argv raw"
    by (auto simp: read_proc_cmdline_def)
  with decide_kill_profiles [OF mech] r(1) unsafe l show ?thesis by auto
qed

lemma suspicious_response:
  assumes "exec_action_for pf t c pol kill_ok evt = Some a" and "profile pol \<in> {Session, Strict}"
    and "read_proc_cmdline pf t (ev_pid evt) = Some cmd"
    and "tier1_ok (c_tier1 c)" and "tier2_contract (c_tier2 c)" and "tier1_suspicious (c_tier1 c) cmd"
  shows "a = (if kill_ok (ev_pid evt) then Killed else KillFailed)"
proof -
  obtain r where r: "classify c cmd = Some r"
    "a = response_to (verdict r) (decide pol (event_context evt (tier1_of (verdict r)))) (Some cmd) (kill_ok (ev_pid evt))"
    using action_from_verdict [OF assms(1) refl] assms(3) by auto
  have unsafe: "verdict r \<noteq> Safe" using suspicious_flagged [OF assms(4,5) r(1) assms(6)] by blast
  then have "tier1_of (verdict r) \<noteq> T1Safe" by (cases "verdict r") auto
  then have "decide pol (event_context evt (tier1_of (verdict r))) = ClassifyAsyncThenKill"
    using assms(2) by (intro decide_session) (auto simp: event_context_def)
  then show ?thesis using r(2) unsafe by (simp add: response_to_def)
qed

text \<open>
  C4. The response to an exec. The worker signals a process only under session, strict or smart, only on a
  command line read from \<open>/proc\<close> for that process number while the event was handled, and only when the classifier
  calls it other than Safe; when the command line cannot be read nothing is signalled. Under prompt nothing is done,
  and the broadcast list changes only by announcing this very event. Conversely, under session and strict a
  command line that the first tier finds suspicious is signalled, unless the classifier panics.
\<close>

theorem exec_response:
  fixes evt :: execve_event
  assumes "worker_event env c byte can_freeze evt b = (act, b')"
    and "line = read_proc_cmdline (xe_proc env) (xe_read env) (ev_pid evt)"
  shows "(act \<in> {Some Killed, Some KillFailed} \<longrightarrow>
       profile_from_u8 byte \<in> {Session, Strict, Smart}
       \<and> (\<exists>t raw r. xe_read env \<le> t \<and> cmdline_file (xe_proc env) t (ev_pid evt) = Inr raw
            \<and> line = Some (join_argv raw) \<and> classify c (join_argv raw) = Some r \<and> verdict r \<noteq> Safe))
    \<and> (profile_from_u8 byte = Prompt \<longrightarrow> act \<in> {None, Some NoAction} \<and> b' = b)
    \<and> b' = (if act \<in> {Some Announced, Some KillFailed} then announce env evt b else b)
    \<and> (profile_from_u8 byte \<in> {Session, Strict} \<and> line = Some cmd \<and> tier1_ok (c_tier1 c)
       \<and> tier2_contract (c_tier2 c) \<and> tier1_suspicious (c_tier1 c) cmd \<and> act \<noteq> None
     \<longrightarrow> act = Some (if xe_kill env (ev_pid evt) then Killed else KillFailed))"
proof -
  note act = worker_action(1) [OF assms(1)] and b' = worker_action(2) [OF assms(1)]
  have "act \<in> {None, Some NoAction}" if "profile_from_u8 byte = Prompt"
    using that act by (cases act) (auto simp: action_response Let_def response_to_def decide_prompt)
  moreover have "act = Some (if xe_kill env (ev_pid evt) then Killed else KillFailed)"
    if h: "profile_from_u8 byte \<in> {Session, Strict}" "line = Some cmd" "tier1_ok (c_tier1 c)" "tier2_contract (c_tier2 c)"
      "tier1_suspicious (c_tier1 c) cmd" "act \<noteq> None"
  proof -
    obtain a where a: "act = Some a" using h(6) by blast
    from suspicious_response [OF trans [OF sym [OF act] a] _ trans [OF sym [OF assms(2)] h(2)] h(3-5)] h(1) a show ?thesis by simp
  qed
  moreover have "profile_from_u8 byte \<in> {Session, Strict, Smart}
       \<and> (\<exists>t raw r. xe_read env \<le> t \<and> cmdline_file (xe_proc env) t (ev_pid evt) = Inr raw
            \<and> line = Some (join_argv raw) \<and> classify c (join_argv raw) = Some r \<and> verdict r \<noteq> Safe)"
    if "act = Some a" "a \<in> {Killed, KillFailed}" for a
    using kill_response [OF trans [OF sym [OF act] that(1)] that(2)] assms(2) by simp
  ultimately show ?thesis using b' by auto
qed

abbreviation demo_event :: execve_event where
  "demo_event \<equiv> \<lparr>ev_kind = 1, ev_verdict = 3, ev_pid = 42, ev_ppid = 1, ev_comm = ''sh'', ev_argv0 = ''/bin/sh''\<rparr>"

abbreviation demo_exec_env :: exec_env where
  "demo_exec_env \<equiv> \<lparr>xe_proc = \<lparr>stat_file = \<lambda>_ _. Inl ENotFound, status_file = \<lambda>_ _. Inl ENotFound,
       cmdline_file = \<lambda>_ _. Inr ''x; nc -e''\<rparr>, xe_read = 0, xe_kill = \<lambda>_. True,
     xe_tree = \<lambda>_ _ _. True, xe_took = \<lambda>_. 0, xe_now_ms = 0\<rparr>"

theorem exec_response_witness:
  "fst (worker_event demo_exec_env demo_classifier 2 False demo_event broadcast_new) = Some Killed"
proof -
  obtain act b' where run: "worker_event demo_exec_env demo_classifier 2 False demo_event broadcast_new = (act, b')"
    by (cases "worker_event demo_exec_env demo_classifier 2 False demo_event broadcast_new")
  have live: "Some ''x; nc -e'' = read_proc_cmdline (xe_proc demo_exec_env) (xe_read demo_exec_env) (ev_pid demo_event)"
    by code_simp
  have "utf8_valid ''x; nc -e''" by (rule ascii_valid) (simp add: ascii_def)
  then obtain hits where "classify_all demo_tier1 ''x; nc -e'' = Some hits"
    using classify_all_total [OF demo_tier1_ok] by blast
  then obtain r where r: "classify demo_classifier ''x; nc -e'' = Some r"
    by (auto simp: classify_def consult_tier2_def stub_backend_def)
  then have "act \<noteq> None"
    using run live by (auto simp: worker_event_def dispatch_classify_def Let_def action_response
        simp del: read_proc_cmdline_def split: option.split_asm)
  moreover have "tier1_ok demo_tier1" "tier2_contract stub_backend" "tier1_suspicious demo_tier1 ''x; nc -e''"
    by (rule demo_tier1_ok stub.tier2_contract_axioms demo_suspicious)+
  moreover have "profile_from_u8 2 = Session" by (simp add: profile_from_u8_def)
  ultimately show ?thesis
    using exec_response [OF run live, of "''x; nc -e''"] run by simp
qed

section \<open>The queue\<close>

lemma callback_queue:
  assumes "snd st = Some q" and "length q \<le> CLASSIFY_QUEUE"
  shows "\<exists>q'. snd (ringbuf_callback env data st) = Some q' \<and> length q' \<le> CLASSIFY_QUEUE
    \<and> (q' = q \<or> (\<exists>evt. q' = q @ [evt] \<and> is_classify evt \<and> event_from_bytes data = Some evt))"
  using assms by (auto simp: ringbuf_callback_def CLASSIFY_QUEUE_def split: option.splits)

lemma steps_in_order_Ok: "steps_in_order rs = Inr u \<longleftrightarrow> (\<forall>r\<in>set rs. r = Inr ())"
  by (induction rs) (auto split: sum.splits)

lemma attach_prog_Ok: "attach_prog lb name what = Inr () \<Longrightarrow> name \<in> set (lb_progs lb)"
  by (auto simp: attach_prog_def split: if_splits)

lemma attach_all_or_nothing:
  assumes "ebpf_attach built located lb mode = Inr st"
  shows "built \<and> st = Attached mode \<and> ''events'' \<in> set (lb_maps lb)
    \<and> {''check_execve'', ''trace_socket'', ''trace_fork'', ''trace_exit''} \<subseteq> set (lb_progs lb)"
proof -
  from assms obtain path u where path: "built" "located = Inr path" "st = Attached mode"
    by (auto simp: ebpf_attach_def split: if_splits sum.splits)
  with assms show ?thesis
    by (auto simp: ebpf_attach_def steps_in_order_Ok simp del: steps_in_order.simps dest!: attach_prog_Ok
        split: sum.splits if_splits)
qed

end
