(* ===== verification/Trust_Format.thy ===== *)
theory Trust_Format
  imports Protocol
begin

text \<open>
  The on-disk formats of the trust store (\<open>trust_store.rs\<close>): what counts as an atom, a host or a
  trust hash, how a line of each file is parsed, and how the files are rendered. The locale
  \<open>line_codec\<close> states what a line format promises its readers; every file format is an
  interpretation of it, and reading back what was written follows once for all of them.

  \<open>char::is_alphanumeric\<close> on a character outside ASCII is a table of the Unicode database; it is the
  parameter \<open>alnum\<close>, applied to the character's UTF-8 encoding.
\<close>

section \<open>Validation\<close>

definition ATOM_MAX_LEN :: nat where "ATOM_MAX_LEN = 200"
definition ATOM_MIN_LEN :: nat where "ATOM_MIN_LEN = 3"
definition HOST_MAX_LEN :: nat where "HOST_MAX_LEN = 253"
definition SESSION_PER_KIND_CAP :: nat where "SESSION_PER_KIND_CAP = 4096"
definition PERSISTENT_TRUST_CAP :: nat where "PERSISTENT_TRUST_CAP = 16384"

function utf8_chars :: "string \<Rightarrow> string list" where
  "utf8_chars [] = []"
| "utf8_chars (c # cs) =
     (let k = max 1 (utf8_len (c # cs)) in take k (c # cs) # utf8_chars (drop k (c # cs)))"
  by pat_completeness auto
termination by (relation "measure length") (auto simp: Let_def max_def)

definition ascii_alnum :: "char \<Rightarrow> bool" where
  "ascii_alnum c \<longleftrightarrow> is_digit c \<or> (65 \<le> byte_of c \<and> byte_of c \<le> (90::nat)) \<or> (97 \<le> byte_of c \<and> byte_of c \<le> (122::nat))"

definition is_alphanumeric :: "(string \<Rightarrow> bool) \<Rightarrow> string \<Rightarrow> bool" where
  "is_alphanumeric alnum ch = (case ch of [c] \<Rightarrow> ascii_alnum c | _ \<Rightarrow> alnum ch)"

definition is_placeholder_atom :: "(string \<Rightarrow> bool) \<Rightarrow> string \<Rightarrow> bool" where
  "is_placeholder_atom alnum atom =
     (if str_contains ''/path/to/'' atom then True
      else if str_contains ''{PATH:'' atom \<or> str_contains ''{PATH_ABSOLUTE:'' atom then True
      else (case find_char (\<lambda>c. c = CHR ''<'') atom of
              None \<Rightarrow> False
            | Some lt \<Rightarrow>
              (let after_lt = drop (lt + 1) atom
               in (case find_char (\<lambda>c. c = CHR ''>'') after_lt of
                     None \<Rightarrow> False
                   | Some gt \<Rightarrow>
                     (let inner = take gt after_lt
                      in inner \<noteq> [] \<and>
                         list_all (\<lambda>ch. is_alphanumeric alnum ch \<or> ch = ''_'' \<or> ch = ''-'') (utf8_chars inner))))))"

definition validate_atom :: "(string \<Rightarrow> bool) \<Rightarrow> string \<Rightarrow> (entry_error, unit) result" where
  "validate_atom alnum atom =
     (if length atom < ATOM_MIN_LEN then Inl (AtomTooShort (length atom))
      else if ATOM_MAX_LEN < length atom then Inl (AtomTooLong (length atom))
      else if NL \<in> set atom \<or> CR \<in> set atom then Inl AtomNewline
      else if str_contains '' #'' atom \<or> starts_with ''#'' atom then Inl AtomReserved
      else if is_placeholder_atom alnum atom then Inl AtomPlaceholder
      else Inr ())"

definition is_lower_hex :: "char \<Rightarrow> bool" where
  "is_lower_hex c \<longleftrightarrow> is_digit c \<or> (97 \<le> byte_of c \<and> byte_of c \<le> (102::nat))"

definition validate_trust_hash :: "string \<Rightarrow> (entry_error, unit) result" where
  "validate_trust_hash hash =
     (if length hash \<noteq> 64 then Inl (HashLength (length hash))
      else if \<not> list_all is_lower_hex hash then Inl HashNotHex
      else Inr ())"

definition validate_host :: "string \<Rightarrow> (entry_error, unit) result" where
  "validate_host host =
     (if host = [] then Inl HostEmpty
      else if HOST_MAX_LEN < length host then Inl HostTooLong
      else if NL \<in> set host \<or> CR \<in> set host \<or> CHR '' '' \<in> set host then Inl HostWhitespace
      else if CHR ''#'' \<in> set host then Inl HostReserved
      else Inr ())"

section \<open>Parsing a line\<close>

definition strip_inline_comment :: "string \<Rightarrow> string" where
  "strip_inline_comment line =
     (if starts_with ''#'' line then []
      else (case split_once '' #'' line of Some (before, _) \<Rightarrow> before | None \<Rightarrow> line))"

definition parse_entry_line :: "string \<Rightarrow> string option" where
  "parse_entry_line line = (let body = str_trim (strip_inline_comment line) in if body = [] then None else Some body)"

definition parse_trust_line :: "string \<Rightarrow> string option" where
  "parse_trust_line line =
     (let body = str_trim (strip_inline_comment line)
      in if body = [] then None else if is_Ok (validate_trust_hash body) then Some body else None)"

text \<open>\<open>splitn(2, char::is_whitespace)\<close>: the text before the first white space and what follows it.\<close>

function split_first_ws :: "string \<Rightarrow> string \<times> string option" where
  "split_first_ws [] = ([], None)"
| "split_first_ws (c # cs) =
     (if ws_prefix (c # cs) = 0
      then (let (a, b) = split_first_ws cs in (c # a, b))
      else ([], Some (drop (ws_prefix (c # cs)) (c # cs))))"
  by pat_completeness auto
termination by (relation "measure length") auto

definition parse_url_line :: "string \<Rightarrow> (bool \<times> string) option" where
  "parse_url_line line =
     (let body = str_trim (strip_inline_comment line)
      in if body = [] then None
         else (case split_first_ws body of
                 (decision, rest) \<Rightarrow>
                   (let host = (case rest of None \<Rightarrow> [] | Some r \<Rightarrow> str_trim r)
                    in if host = [] then None
                       else if decision = ''allow'' then Some (True, host)
                       else if decision = ''block'' then Some (False, host)
                       else None)))"

section \<open>Reading a file\<close>

fun collect :: "('l \<Rightarrow> 'a option) \<Rightarrow> 'l list \<Rightarrow> 'a hashset \<Rightarrow> 'a hashset" where
  "collect p [] out = out"
| "collect p (l # ls) out = (case p l of None \<Rightarrow> collect p ls out | Some e \<Rightarrow> collect p ls (hs_insert e out))"

definition parse_atoms_content :: "string \<Rightarrow> string hashset" where
  "parse_atoms_content content = collect parse_entry_line (str_lines content) []"

definition parse_trust_content :: "string \<Rightarrow> string hashset" where
  "parse_trust_content content = collect parse_trust_line (str_lines content) []"

definition parse_urls_content :: "string \<Rightarrow> string hashset \<times> string hashset" where
  "parse_urls_content content =
     (let entries = str_lines content
      in (collect (\<lambda>l. case parse_url_line l of Some (True, h) \<Rightarrow> Some h | _ \<Rightarrow> None) entries [],
          collect (\<lambda>l. case parse_url_line l of Some (False, h) \<Rightarrow> Some h | _ \<Rightarrow> None) entries []))"

section \<open>Rendering a file\<close>

abbreviation em_dash :: string where "em_dash \<equiv> [CHR 0xE2, CHR 0x80, CHR 0x94]"

definition file_of_lines :: "string list \<Rightarrow> string" where
  "file_of_lines ls = concat (map (\<lambda>l. l @ [NL]) ls)"

definition atoms_header :: "string list" where
  "atoms_header =
     [''# atty-guard user-atoms file. Managed by `atty-guard atoms add/remove`'',
      ''# and `sudo atty-guard session write`. Edit by hand only if you know'',
      ''# what you're doing '' @ em_dash @ '' atomic rewrites overwrite hand edits.'',
      ''#'',
      ''# Format: one atom per line. `#` comments + blank lines ignored.'',
      ''# Inline metadata after ` # ` is preserved on round-trip.'',
      []]"

definition trust_header :: "string list" where
  "trust_header =
     [''# atty-guard persistent trust file. Each line is a SHA-256'',
      ''# hex digest of `<category>:<matched>` '' @ em_dash @ '' see'',
      ''# atty's `src/modules/security_guard/trust_cache.zig::hashCategoryMatch`.'',
      ''# Edit by hand to prune entries. New writes go through'',
      ''# `atty-guard trust add <hash>` or the banner's [t]rust'',
      ''# permanently keystroke.'',
      []]"

definition urls_header :: "string list" where
  "urls_header =
     [''# atty-guard URL decisions. Managed by `atty-guard urls allow/block`'',
      ''# and `sudo atty-guard session write`.'',
      ''#'',
      ''# Format: `<allow|block> <host>` per line. `#` comments ignored.'',
      ''# Inline metadata after ` # ` is preserved on round-trip.'',
      []]"

definition render_atom :: "string \<Rightarrow> string \<Rightarrow> string \<Rightarrow> string" where
  "render_atom stamp source atom = atom @ '' # added '' @ stamp @ '' via '' @ source"

definition render_trust :: "string \<Rightarrow> string \<Rightarrow> string" where
  "render_trust stamp h = h @ '' # set '' @ stamp"

definition render_url :: "string \<Rightarrow> bool \<times> string \<Rightarrow> string" where
  "render_url stamp d = (if fst d then ''allow '' else ''block '') @ snd d @ '' # set '' @ stamp"

definition atoms_content :: "string \<Rightarrow> string \<Rightarrow> string hashset \<Rightarrow> string" where
  "atoms_content stamp source atoms =
     file_of_lines (atoms_header @ map (render_atom stamp source) (sorted_vec atoms))"

definition trust_content :: "string \<Rightarrow> string hashset \<Rightarrow> string" where
  "trust_content stamp hashes = file_of_lines (trust_header @ map (render_trust stamp) (sorted_vec hashes))"

definition urls_content :: "string \<Rightarrow> string hashset \<Rightarrow> string hashset \<Rightarrow> string" where
  "urls_content stamp allow block =
     file_of_lines (urls_header @ map (\<lambda>h. render_url stamp (True, h)) (sorted_vec allow)
                    @ map (\<lambda>h. render_url stamp (False, h)) (sorted_vec block))"

section \<open>What collecting the lines of a file gives\<close>

lemma set_collect: "set (collect p ls out) = set out \<union> {e. \<exists>l\<in>set ls. p l = Some e}"
  by (induction ls arbitrary: out) (auto split: option.splits)

lemma distinct_collect: "distinct out \<Longrightarrow> distinct (collect p ls out)"
  by (induction ls arbitrary: out) (auto split: option.splits)

lemma distinct_parse_atoms [simp]: "distinct (parse_atoms_content c)"
  by (simp add: parse_atoms_content_def distinct_collect)

lemma distinct_parse_trust [simp]: "distinct (parse_trust_content c)"
  by (simp add: parse_trust_content_def distinct_collect)

lemma distinct_parse_urls [simp]:
  "distinct (fst (parse_urls_content c))" "distinct (snd (parse_urls_content c))"
  by (simp_all add: parse_urls_content_def Let_def distinct_collect)

section \<open>The line codec\<close>

text \<open>
  A line format: \<open>render\<close> prints an entry that satisfies \<open>line_ok\<close> as one line, and \<open>parse\<close> of the
  line of an entry that satisfies \<open>good\<close> gives \<open>norm\<close> of the entry, which is \<^const>\<open>None\<close> when the entry
  is lost. Comment lines parse to nothing.
\<close>

definition one_line :: "string \<Rightarrow> bool" where
  "one_line l \<longleftrightarrow> NL \<notin> set l \<and> strip_cr l = l"

locale line_codec =
  fixes parse :: "string \<Rightarrow> 'b option" and render :: "'a \<Rightarrow> string"
    and line_ok :: "'a \<Rightarrow> bool" and good :: "'a \<Rightarrow> bool" and norm :: "'a \<Rightarrow> 'b option"
  assumes parse_render: "good x \<Longrightarrow> parse (render x) = norm x"
    and render_one_line: "line_ok x \<Longrightarrow> one_line (render x)"
    and good_line: "good x \<Longrightarrow> line_ok x"
begin

lemma lines_read_back:
  assumes "list_all one_line hdr" and "list_all line_ok xs"
  shows "str_lines (file_of_lines (hdr @ map render xs)) = hdr @ map render xs"
proof -
  have "NL \<notin> set l \<and> strip_cr l = l" if "l \<in> set (hdr @ map render xs)" for l
    using that assms render_one_line by (auto simp: list_all_iff one_line_def)
  from str_lines_concat [of "hdr @ map render xs" "[]", OF this] show ?thesis
    by (simp add: file_of_lines_def)
qed

text \<open>An entry in good shape survives, whatever its neighbours look like.\<close>

lemma read_back_entry:
  assumes "list_all one_line hdr" and "list_all line_ok xs"
    and "x \<in> set xs" and "good x" and "Option.bind (norm x) f = Some e"
  shows "e \<in> set (collect (\<lambda>l. Option.bind (parse l) f) (str_lines (file_of_lines (hdr @ map render xs))) [])"
proof -
  have "render x \<in> set (hdr @ map render xs)" "Option.bind (parse (render x)) f = Some e"
    using assms(3-5) parse_render by simp_all
  then show ?thesis unfolding lines_read_back [OF assms(1,2)] set_collect by blast
qed

lemma read_back:
  assumes "list_all one_line hdr" and "list_all (\<lambda>l. parse l = None) hdr" and "list_all good xs"
  shows "set (collect (\<lambda>l. Option.bind (parse l) f) (str_lines (file_of_lines (hdr @ map render xs))) [])
         = {e. \<exists>x\<in>set xs. Option.bind (norm x) f = Some e}"
proof (intro set_eqI iffI)
  fix e
  have ok: "list_all line_ok xs" using assms(3) good_line by (simp add: list_all_iff)
  show "e \<in> {e. \<exists>x\<in>set xs. Option.bind (norm x) f = Some e}"
    if "e \<in> set (collect (\<lambda>l. Option.bind (parse l) f) (str_lines (file_of_lines (hdr @ map render xs))) [])"
  proof -
    from that obtain l where l: "l \<in> set (hdr @ map render xs)" "Option.bind (parse l) f = Some e"
      unfolding lines_read_back [OF assms(1) ok] set_collect by auto
    then have "l \<notin> set hdr" using assms(2) by (auto simp: list_all_iff)
    with l assms(3) parse_render show ?thesis by (auto simp: list_all_iff)
  qed
  show "e \<in> set (collect (\<lambda>l. Option.bind (parse l) f) (str_lines (file_of_lines (hdr @ map render xs))) [])"
    if "e \<in> {e. \<exists>x\<in>set xs. Option.bind (norm x) f = Some e}"
    using that read_back_entry [OF assms(1) ok] assms(3) by (auto simp: list_all_iff)
qed

end

lemma one_line_append: "NL \<notin> set a \<Longrightarrow> b \<noteq> [] \<Longrightarrow> one_line b \<Longrightarrow> one_line (a @ b)"
  by (auto simp: one_line_def strip_cr_def butlast_append split: if_splits)

section \<open>Comments and white space\<close>

definition ascii_ws :: "char \<Rightarrow> bool" where
  "ascii_ws c \<longleftrightarrow> c \<in> set [TAB, NL, CHR 0x0B, CHR 0x0C, CR, CHR 0x20]"

definition ws_shape :: "string \<Rightarrow> bool" where
  "ws_shape w \<longleftrightarrow> (length w = 1 \<and> ascii_ws (hd w)) \<or> list_all (\<lambda>c. 0x80 \<le> (byte_of c :: nat)) w"

lemma ws_chars_shape: "list_all ws_shape ws_chars"
  by code_simp

lemma ws_chars_cases:
  assumes "w \<in> set ws_chars"
  shows "(\<exists>c. w = [c] \<and> ascii_ws c) \<or> (\<forall>c\<in>set w. 0x80 \<le> (byte_of c :: nat))"
proof -
  have "ws_shape w" using ws_chars_shape assms unfolding list_all_iff by blast
  then show ?thesis by (cases w) (auto simp: ws_shape_def list_all_iff)
qed

lemma strip_inline_comment_append:
  assumes "a \<noteq> []" and "\<not> starts_with ''#'' a" and "\<not> str_contains '' #'' a"
  shows "strip_inline_comment (a @ '' #'' @ b) = a"
proof -
  have "\<not> prefix '' #'' (drop j (a @ '' #'' @ b))" if j: "j < length a" for j
  proof
    assume p: "prefix '' #'' (drop j (a @ '' #'' @ b))"
    have np: "\<not> prefix '' #'' (drop j a)" by (rule str_contains_prefix_free [OF assms(3)])
    obtain c r where d: "drop j a = c # r" using Cons_nth_drop_Suc [OF j, symmetric] by blast
    from p j d have "prefix '' #'' (c # r @ '' #'' @ b)" by auto
    with np d show False by (cases r) (simp_all add: prefix_def)
  qed
  then have "str_find '' #'' (a @ '' #'' @ b) = Some (length a)"
    by (intro str_find_append) auto
  then show ?thesis
    using assms(1,2) by (cases a) (simp_all add: strip_inline_comment_def starts_with_def split_once_def)
qed

lemma strip_inline_comment_hash [simp]: "strip_inline_comment (CHR ''#'' # s) = []"
  by (simp add: strip_inline_comment_def starts_with_def)

lemma strip_inline_comment_Nil [simp]: "strip_inline_comment [] = []"
  by (simp add: strip_inline_comment_def starts_with_def split_once_def)

lemma set_strip_inline_comment: "set (strip_inline_comment l) \<subseteq> set l"
  by (auto simp: strip_inline_comment_def split_once_def split: option.splits dest: in_set_takeD)

lemma no_space_no_comment: "CHR '' '' \<notin> set a \<Longrightarrow> \<not> str_contains '' #'' a"
  by (auto simp: str_contains_sublist dest: set_mono_sublist)

lemma no_hash_no_comment: "CHR ''#'' \<notin> set a \<Longrightarrow> \<not> str_contains '' #'' a \<and> \<not> starts_with ''#'' a"
  by (auto simp: str_contains_sublist starts_with_def prefix_def dest: set_mono_sublist)

lemma is_lower_hex_plain:
  "is_lower_hex c \<Longrightarrow> c \<noteq> CHR ''#'' \<and> \<not> ascii_ws c \<and> byte_of c < (0x80::nat)"
  by (auto simp: is_lower_hex_def is_digit_def ascii_ws_def)

lemma ws_char_not_lower_hex:
  assumes "w \<in> set ws_chars"
  shows "\<exists>c\<in>set w. \<not> is_lower_hex c"
proof -
  obtain c cs where w: "w = c # cs" using ws_chars_nonempty [OF assms] by (meson list.exhaust)
  with ws_chars_cases [OF assms] have "\<not> is_lower_hex c" using is_lower_hex_plain [of c] by auto
  with w show ?thesis by auto
qed

lemma str_trim_lower_hex:
  assumes "list_all is_lower_hex s"
  shows "str_trim s = s"
proof -
  have "\<not> set w \<subseteq> set s" if "w \<in> set ws_chars" for w
    using ws_char_not_lower_hex [OF that] assms by (auto simp: list_all_iff)
  then show ?thesis unfolding str_trim_id_iff ws_prefix_0 ws_suffix_0
    using set_mono_prefix set_mono_suffix by blast
qed

section \<open>Atoms\<close>

abbreviation trimmed :: "string \<Rightarrow> string option" where
  "trimmed a \<equiv> if str_trim a = [] then None else Some (str_trim a)"

lemma validate_atom_Ok:
  "is_Ok (validate_atom alnum a) \<longleftrightarrow>
     ATOM_MIN_LEN \<le> length a \<and> length a \<le> ATOM_MAX_LEN \<and> NL \<notin> set a \<and> CR \<notin> set a
     \<and> \<not> str_contains '' #'' a \<and> \<not> starts_with ''#'' a \<and> \<not> is_placeholder_atom alnum a"
  by (auto simp: validate_atom_def)

text \<open>What the file format can hold: every accepted atom, and more than the accepted atoms.\<close>

definition storable :: "string \<Rightarrow> bool" where
  "storable a \<longleftrightarrow> a \<noteq> [] \<and> NL \<notin> set a \<and> \<not> str_contains '' #'' a \<and> \<not> starts_with ''#'' a"

lemma validated_storable: "is_Ok (validate_atom alnum a) \<Longrightarrow> storable a"
  by (auto simp: validate_atom_Ok storable_def ATOM_MIN_LEN_def)

lemma parse_render_atom:
  assumes "storable a"
  shows "parse_entry_line (render_atom stamp source a) = trimmed a"
  using assms strip_inline_comment_append [of a "'' added '' @ stamp @ '' via '' @ source"]
  by (simp add: parse_entry_line_def render_atom_def storable_def Let_def)

text \<open>The stamp and the source label that the writers put behind an entry are plain text.\<close>

definition plain_label :: "string \<Rightarrow> bool" where
  "plain_label s \<longleftrightarrow> NL \<notin> set s \<and> CR \<notin> set s \<and> s \<noteq> []"

lemma one_line_label: "plain_label s \<Longrightarrow> one_line s"
  by (metis plain_label_def one_line_def strip_cr_def last_in_set)

lemma render_atom_one_line:
  assumes "NL \<notin> set a" and "plain_label stamp" and "plain_label source"
  shows "one_line (render_atom stamp source a)"
proof -
  have "NL \<notin> set (a @ '' # added '' @ stamp @ '' via '')" "source \<noteq> []" "one_line source"
    using assms one_line_label by (auto simp: plain_label_def)
  from one_line_append [OF this] show ?thesis by (simp add: render_atom_def)
qed

lemma one_line_ascii: "list_all (\<lambda>c. c \<noteq> NL \<and> c \<noteq> CR) l \<Longrightarrow> one_line l"
  by (cases "l = []") (auto simp: list_all_iff one_line_def strip_cr_def dest: last_in_set)

lemma list_all_one_line_ascii:
  "list_all (\<lambda>l. list_all (\<lambda>c. c \<noteq> NL \<and> c \<noteq> CR) l) hdr \<Longrightarrow> list_all one_line hdr"
  by (induction hdr) (simp_all add: one_line_ascii)

lemma atoms_header_lines: "list_all one_line atoms_header" "list_all (\<lambda>l. parse_entry_line l = None) atoms_header"
  by (rule list_all_one_line_ascii) (simp_all add: atoms_header_def parse_entry_line_def)

interpretation atom_lines: line_codec parse_entry_line "render_atom stamp source"
    "\<lambda>a. NL \<notin> set a \<and> plain_label stamp \<and> plain_label source"
    "\<lambda>a. storable a \<and> plain_label stamp \<and> plain_label source" trimmed
  for stamp source
  by unfold_locales (auto simp: parse_render_atom render_atom_one_line storable_def)

lemma atoms_content_order:
  "distinct xs \<Longrightarrow> distinct ys \<Longrightarrow> set xs = set ys \<Longrightarrow> atoms_content stamp source xs = atoms_content stamp source ys"
  using sorted_vec_unique [of xs ys] by (simp add: atoms_content_def)

section \<open>Trust hashes\<close>

lemma validate_trust_hash_Ok: "is_Ok (validate_trust_hash h) \<longleftrightarrow> length h = 64 \<and> list_all is_lower_hex h"
  by (simp add: validate_trust_hash_def)

lemma lower_hex_no_comment:
  assumes "list_all is_lower_hex h"
  shows "\<not> starts_with ''#'' h" "\<not> str_contains '' #'' h" "NL \<notin> set h"
proof -
  have "CHR ''#'' \<notin> set h" "NL \<notin> set h"
    using assms is_lower_hex_plain by (fastforce simp: list_all_iff ascii_ws_def)+
  then show "\<not> starts_with ''#'' h" "\<not> str_contains '' #'' h" "NL \<notin> set h"
    using no_hash_no_comment by blast+
qed

lemma parse_render_trust:
  assumes "is_Ok (validate_trust_hash h)"
  shows "parse_trust_line (render_trust stamp h) = Some h"
proof -
  have h: "h \<noteq> []" "list_all is_lower_hex h" using assms by (auto simp: validate_trust_hash_Ok)
  with strip_inline_comment_append [of h "'' set '' @ stamp"] lower_hex_no_comment [OF h(2)] assms
  show ?thesis by (simp add: parse_trust_line_def render_trust_def str_trim_lower_hex Let_def)
qed

lemma render_trust_one_line:
  assumes "is_Ok (validate_trust_hash h)" and "plain_label stamp"
  shows "one_line (render_trust stamp h)"
proof -
  have "NL \<notin> set (h @ '' # set '')" "stamp \<noteq> []" "one_line stamp"
    using assms lower_hex_no_comment(3) one_line_label by (auto simp: validate_trust_hash_Ok plain_label_def)
  from one_line_append [OF this] show ?thesis by (simp add: render_trust_def)
qed

interpretation trust_lines: line_codec parse_trust_line "render_trust stamp"
    "\<lambda>h. is_Ok (validate_trust_hash h) \<and> plain_label stamp" "\<lambda>h. is_Ok (validate_trust_hash h) \<and> plain_label stamp" Some
  for stamp
  by unfold_locales (auto simp: parse_render_trust render_trust_one_line)

lemma trust_header_lines: "list_all one_line trust_header" "list_all (\<lambda>l. parse_trust_line l = None) trust_header"
  by (rule list_all_one_line_ascii) (simp_all add: trust_header_def parse_trust_line_def)

lemma parse_trust_content_valid: "h \<in> set (parse_trust_content c) \<Longrightarrow> is_Ok (validate_trust_hash h)"
  by (auto simp: parse_trust_content_def set_collect parse_trust_line_def Let_def split: if_splits)

section \<open>URL decisions\<close>

lemma validate_host_Ok:
  "is_Ok (validate_host h) \<longleftrightarrow> h \<noteq> [] \<and> length h \<le> HOST_MAX_LEN \<and> NL \<notin> set h \<and> CR \<notin> set h
     \<and> CHR '' '' \<notin> set h \<and> CHR ''#'' \<notin> set h"
  by (auto simp: validate_host_def)

lemma ws_suffix_after_space:
  assumes "ws_suffix h = 0" and "h \<noteq> []"
  shows "ws_suffix (x @ CHR '' '' # h) = 0"
  unfolding ws_suffix_0
proof
  fix w
  assume w: "w \<in> set ws_chars"
  show "\<not> suffix w (x @ CHR '' '' # h)"
  proof
    assume sf: "suffix w (x @ CHR '' '' # h)"
    have nh: "\<not> suffix w h" using assms(1) w by (simp add: ws_suffix_0)
    have "\<exists>u. w = u @ CHR '' '' # h"
    proof (cases "length w \<le> length h")
      case True
      then have "suffix w h" using suffix_length_suffix [OF sf, of h] by (auto simp: suffix_def)
      with nh show ?thesis ..
    next
      case False
      then have "suffix (CHR '' '' # h) w"
        using suffix_length_suffix [of "CHR '' '' # h" "x @ CHR '' '' # h" w] sf by (auto simp: suffix_def)
      then show ?thesis by (auto simp: suffix_def)
    qed
    then obtain u where "w = u @ CHR '' '' # h" ..
    with ws_chars_cases [OF w] assms(2) show False by (auto simp: append_eq_Cons_conv)
  qed
qed

lemma no_ws_char: "ws_prefix (c # cs) = 0" if "\<not> ascii_ws c" "byte_of c < (0x80::nat)"
proof -
  have "\<not> prefix w (c # cs)" if w: "w \<in> set ws_chars" for w
  proof
    assume p: "prefix w (c # cs)"
    obtain r where "w = c # r" using p ws_chars_nonempty [OF w] by (cases w) auto
    with ws_chars_cases [OF w] \<open>\<not> ascii_ws c\<close> \<open>byte_of c < 0x80\<close> show False by auto
  qed
  then show ?thesis by (simp add: ws_prefix_0)
qed

lemma ws_prefix_space: "ws_prefix (CHR '' '' # cs) = 1"
  by (simp add: ws_prefix_def ws_chars_def)

lemma split_first_ws_sublist: "split_first_ws b = (d, Some x) \<Longrightarrow> sublist x b"
proof (induction b arbitrary: d x rule: split_first_ws.induct)
  case (2 c cs)
  show ?case
  proof (cases "ws_prefix (c # cs) = 0")
    case True
    with 2 obtain a where "split_first_ws cs = (a, Some x)" by (auto simp: Let_def split: prod.splits)
    with "2.IH" [OF True] show ?thesis by (auto simp: sublist_Cons_right)
  next
    case False
    then have "x = drop (ws_prefix (c # cs)) (c # cs)" using "2.prems" by simp
    then show ?thesis by (simp add: sublist_drop del: drop_Cons)
  qed
qed simp

lemma split_first_ws_word:
  assumes "list_all (\<lambda>c. \<not> ascii_ws c \<and> byte_of c < (0x80::nat)) v"
  shows "split_first_ws (v @ CHR '' '' # h) = (v, Some h)"
  using assms by (induction v) (simp_all add: ws_prefix_space no_ws_char)

text \<open>What a URL line can hold, and what reading back such a line gives.\<close>

definition url_entry :: "string \<Rightarrow> bool" where
  "url_entry h \<longleftrightarrow> h \<noteq> [] \<and> str_trim h = h \<and> NL \<notin> set h \<and> \<not> str_contains '' #'' h"

lemma word_no_comment:
  assumes "\<not> starts_with ''#'' h" and "\<not> str_contains '' #'' h" and "CHR '' '' \<notin> set v"
  shows "\<not> str_contains '' #'' (v @ CHR '' '' # h)"
  using assms(3)
proof (induction v)
  case Nil
  with assms(1,2) show ?case by (cases h) (auto simp: str_contains_Cons starts_with_def)
next
  case (Cons c v)
  then show ?case by (auto simp: str_contains_Cons)
qed

lemma split_first_ws_plain:
  "list_all (\<lambda>c. \<not> ascii_ws c \<and> byte_of c < (0x80::nat)) v \<Longrightarrow> split_first_ws v = (v, None)"
  by (induction v) (simp_all add: no_ws_char)

lemma plain_trim:
  assumes "list_all (\<lambda>c. \<not> ascii_ws c \<and> byte_of c < (0x80::nat)) v"
  shows "str_trim v = v"
proof -
  have "\<exists>c\<in>set w. \<not> (\<not> ascii_ws c \<and> byte_of c < (0x80::nat))" if "w \<in> set ws_chars" for w
    using ws_chars_cases [OF that] ws_chars_nonempty [OF that] by (cases w) auto
  then have "\<not> set w \<subseteq> set v" if "w \<in> set ws_chars" for w using that assms by (fastforce simp: list_all_iff)
  then show ?thesis unfolding str_trim_id_iff ws_prefix_0 ws_suffix_0
    using set_mono_prefix set_mono_suffix by blast
qed

lemma parse_url_body:
  assumes "url_entry h"
  shows "parse_url_line ((if a then ''allow '' else ''block '') @ h @ '' #'' @ m)
    = (if starts_with ''#'' h then None else Some (a, h))"
proof -
  let ?v = "if a then ''allow'' else ''block''"
  have plain: "list_all (\<lambda>c. \<not> ascii_ws c \<and> byte_of c < (0x80::nat)) ?v"
    by (simp add: ascii_ws_def)
  have h: "h \<noteq> []" "str_trim h = h" "ws_suffix h = 0"
    using assms by (simp_all add: url_entry_def str_trim_id_iff)
  let ?b = "?v @ CHR '' '' # h"
  have line: "(if a then ''allow '' else ''block '') @ h @ '' #'' @ m = ?b @ '' #'' @ m" by simp
  show ?thesis
  proof (cases "starts_with ''#'' h")
    case True
    then obtain r where r: "h = CHR ''#'' # r" by (auto simp: starts_with_def prefix_def)
    have "\<not> str_contains '' #'' ?v" using no_hash_no_comment [of ?v] by simp
    then have "strip_inline_comment (?v @ '' #'' @ r @ '' #'' @ m) = ?v"
      by (intro strip_inline_comment_append) (auto simp: starts_with_def)
    then have "parse_url_line (?b @ '' #'' @ m) = None"
      using plain_trim [OF plain] split_first_ws_plain [OF plain] by (simp add: parse_url_line_def r Let_def)
    with True show ?thesis by (simp only: line if_True)
  next
    case False
    have "\<not> str_contains '' #'' ?b" using word_no_comment [OF False, of ?v] assms by (simp add: url_entry_def)
    moreover have "\<not> starts_with ''#'' ?b" by (simp add: starts_with_def)
    ultimately have strip: "strip_inline_comment (?b @ '' #'' @ m) = ?b"
      by (intro strip_inline_comment_append) auto
    have "ws_prefix ?b = 0" by (simp add: no_ws_char ascii_ws_def)
    then have trim: "str_trim ?b = ?b"
      using ws_suffix_after_space [OF h(3,1)] by (simp add: str_trim_id_iff)
    have "parse_url_line (?b @ '' #'' @ m) = Some (a, h)"
      unfolding parse_url_line_def strip Let_def trim split_first_ws_word [OF plain] using h by simp
    with False show ?thesis by (simp only: line if_False)
  qed
qed

lemma valid_host_entry:
  "is_Ok (validate_host h) \<Longrightarrow> str_trim h = h \<Longrightarrow> url_entry h \<and> \<not> starts_with ''#'' h"
  using no_hash_no_comment [of h] by (simp add: validate_host_Ok url_entry_def)

lemma parse_render_url:
  "is_Ok (validate_host (snd d)) \<Longrightarrow> str_trim (snd d) = snd d \<Longrightarrow> parse_url_line (render_url stamp d) = Some d"
  using parse_url_body [of "snd d" "fst d" "'' set '' @ stamp"] valid_host_entry [of "snd d"] by (simp add: render_url_def)

lemma parse_render_url_entry:
  "url_entry (snd d) \<Longrightarrow> parse_url_line (render_url stamp d) = (if starts_with ''#'' (snd d) then None else Some d)"
  using parse_url_body [of "snd d" "fst d" "'' set '' @ stamp"] by (simp add: render_url_def)

lemma render_url_one_line:
  assumes "NL \<notin> set (snd d)" and "plain_label stamp"
  shows "one_line (render_url stamp d)"
proof -
  have "NL \<notin> set ((if fst d then ''allow '' else ''block '') @ snd d @ '' # set '')" "stamp \<noteq> []" "one_line stamp"
    using assms one_line_label by (auto simp: plain_label_def)
  from one_line_append [OF this] show ?thesis by (simp add: render_url_def)
qed

interpretation url_lines: line_codec parse_url_line "render_url stamp"
    "\<lambda>d. NL \<notin> set (snd d) \<and> plain_label stamp" "\<lambda>d. is_Ok (validate_host (snd d)) \<and> str_trim (snd d) = snd d \<and> plain_label stamp" Some
  for stamp
  by unfold_locales (auto simp: parse_render_url render_url_one_line validate_host_Ok)

lemma urls_header_lines: "list_all one_line urls_header" "list_all (\<lambda>l. parse_url_line l = None) urls_header"
  by (rule list_all_one_line_ascii) (simp_all add: urls_header_def parse_url_line_def)

section \<open>Reading back a written file\<close>

lemma parsed_atom_line: "a \<in> set (parse_atoms_content c) \<Longrightarrow> NL \<notin> set a"
  using set_str_trim set_strip_inline_comment str_lines_no_NL
  by (fastforce simp: parse_atoms_content_def set_collect parse_entry_line_def Let_def split: if_splits)

lemma atoms_content_keeps:
  assumes "a \<in> set atoms" and "storable a" and "str_trim a \<noteq> []"
    and "\<forall>b\<in>set atoms. NL \<notin> set b" and "plain_label stamp" and "plain_label source"
  shows "str_trim a \<in> set (parse_atoms_content (atoms_content stamp source atoms))"
  using atom_lines.read_back_entry [OF atoms_header_lines(1), where xs = "sorted_vec atoms" and stamp = stamp
      and source = source and x = a and f = Some and e = "str_trim a"] assms
  by (simp add: parse_atoms_content_def atoms_content_def list_all_iff)

lemma trust_content_exact:
  assumes "\<forall>h\<in>set hashes. is_Ok (validate_trust_hash h)" and "plain_label stamp"
  shows "set (parse_trust_content (trust_content stamp hashes)) = set hashes"
proof -
  have good: "list_all (\<lambda>h. is_Ok (validate_trust_hash h) \<and> plain_label stamp) (sorted_vec hashes)"
    using assms by (simp add: list_all_iff)
  show ?thesis
    using trust_lines.read_back [OF trust_header_lines good, of Some]
    by (simp add: parse_trust_content_def trust_content_def)
qed

lemma urls_content_render:
  "urls_content stamp allow block =
     file_of_lines (urls_header @ map (render_url stamp) (map (Pair True) (sorted_vec allow) @ map (Pair False) (sorted_vec block)))"
  by (simp add: urls_content_def comp_def)

lemma parse_urls_sides:
  "parse_urls_content c =
     (collect (\<lambda>l. Option.bind (parse_url_line l) (\<lambda>d. if fst d then Some (snd d) else None)) (str_lines c) [],
      collect (\<lambda>l. Option.bind (parse_url_line l) (\<lambda>d. if fst d then None else Some (snd d))) (str_lines c) [])"
proof -
  have "(\<lambda>l. case parse_url_line l of Some (True, h) \<Rightarrow> Some h | _ \<Rightarrow> None)
      = (\<lambda>l. Option.bind (parse_url_line l) (\<lambda>d. if fst d then Some (snd d) else None))"
    "(\<lambda>l. case parse_url_line l of Some (False, h) \<Rightarrow> Some h | _ \<Rightarrow> None)
      = (\<lambda>l. Option.bind (parse_url_line l) (\<lambda>d. if fst d then None else Some (snd d)))"
    by (auto simp: fun_eq_iff split: option.splits bool.splits)
  then show ?thesis by (simp add: parse_urls_content_def Let_def)
qed

lemma strip_no_comment: "\<not> str_contains '' #'' (strip_inline_comment l)"
proof (cases "starts_with ''#'' l")
  case False
  show ?thesis
  proof (cases "str_find '' #'' l")
    case None
    with False show ?thesis by (simp add: strip_inline_comment_def split_once_def str_contains_def)
  next
    case (Some i)
    have "\<not> sublist '' #'' (take i l)"
    proof
      assume "sublist '' #'' (take i l)"
      then obtain a b where t: "take i l = a @ '' #'' @ b" by (auto simp: sublist_def)
      have "l = a @ '' #'' @ b @ drop i l" using append_take_drop_id [of i l] t by simp
      then have "drop (length a) l = '' #'' @ b @ drop i l" by (metis append_eq_conv_conj)
      then have "prefix '' #'' (drop (length a) l)" by simp
      moreover have "length a < i" using arg_cong [OF t, of length] by simp
      ultimately show False using str_find_first [OF Some] by blast
    qed
    with Some False show ?thesis by (simp add: strip_inline_comment_def split_once_def str_contains_sublist)
  qed
qed (simp add: strip_inline_comment_def str_contains_def)

lemma parsed_url_entry:
  assumes "h \<in> set (fst (parse_urls_content c)) \<union> set (snd (parse_urls_content c))"
  shows "url_entry h"
proof -
  from assms obtain l b where l: "l \<in> set (str_lines c)" "parse_url_line l = Some (b, h)"
    by (auto simp: parse_urls_sides set_collect bind_eq_Some_conv split: if_splits)
  let ?b = "str_trim (strip_inline_comment l)"
  obtain d r where sp: "split_first_ws ?b = (d, r)" by fastforce
  from l(2) sp obtain x where x: "r = Some x" "h = str_trim x" "h \<noteq> []"
    by (auto simp: parse_url_line_def Let_def split: if_splits option.splits)
  have sx: "sublist x ?b" using split_first_ws_sublist [of ?b d x] sp x(1) by simp
  have sub: "sublist h (strip_inline_comment l)"
    using sx x(2) str_trim_sublist [of x] str_trim_sublist [of "strip_inline_comment l"]
    by (meson sublist_order.order_trans)
  then have "\<not> str_contains '' #'' h"
    using strip_no_comment [of l] unfolding str_contains_sublist by (meson sublist_order.order_trans)
  moreover have "NL \<notin> set h"
    using sub set_mono_sublist set_strip_inline_comment str_lines_no_NL [OF l(1)] by blast
  ultimately show ?thesis using x by (simp add: url_entry_def)
qed

lemma urls_content_only:
  assumes "\<forall>b\<in>set allow \<union> set block. url_entry b" and "plain_label stamp"
  shows "set (fst (parse_urls_content (urls_content stamp allow block))) \<subseteq> set allow"
    "set (snd (parse_urls_content (urls_content stamp allow block))) \<subseteq> set block"
proof -
  let ?ds = "map (Pair True) (sorted_vec allow) @ map (Pair False) (sorted_vec block)"
  have ok: "list_all (\<lambda>d. NL \<notin> set (snd d) \<and> plain_label stamp) ?ds"
    using assms by (auto simp: list_all_iff url_entry_def)
  have d: "d \<in> set ?ds" if "l \<in> set (urls_header @ map (render_url stamp) ?ds)" "parse_url_line l = Some d" for l d
  proof -
    have "l \<notin> set urls_header" using that(2) urls_header_lines(2) by (auto simp: list_all_iff)
    with that(1) have "l \<in> render_url stamp ` set ?ds" by (simp only: set_append set_map Un_iff simp_thms)
    then show ?thesis
    proof
      fix d'
      assume d': "l = render_url stamp d'" "d' \<in> set ?ds"
      then have "url_entry (snd d')" using assms(1) by auto
      from parse_render_url_entry [OF this, of stamp] that(2) d' show ?thesis by (simp split: if_splits)
    qed
  qed
  have "\<exists>d\<in>set ?ds. f d = Some x"
    if "x \<in> set (collect (\<lambda>l. Option.bind (parse_url_line l) f) (urls_header @ map (render_url stamp) ?ds) [])" for x f
  proof -
    from that obtain l where l: "l \<in> set (urls_header @ map (render_url stamp) ?ds)"
        "Option.bind (parse_url_line l) f = Some x"
      unfolding set_collect list.set(1) Un_empty_left mem_Collect_eq by blast
    then obtain e where "parse_url_line l = Some e" "f e = Some x" by (auto simp: bind_eq_Some_conv)
    with d [OF l(1)] show ?thesis by blast
  qed
  note side = this
  show "set (fst (parse_urls_content (urls_content stamp allow block))) \<subseteq> set allow"
    "set (snd (parse_urls_content (urls_content stamp allow block))) \<subseteq> set block"
    unfolding parse_urls_sides urls_content_render fst_conv snd_conv
      url_lines.lines_read_back [OF urls_header_lines(1) ok]
    by (fastforce dest!: side split: if_splits)+
qed

lemma urls_content_keeps:
  assumes "\<forall>b\<in>set allow \<union> set block. NL \<notin> set b" and "plain_label stamp"
    and "is_Ok (validate_host h)" and "str_trim h = h"
  shows "h \<in> set allow \<Longrightarrow> h \<in> set (fst (parse_urls_content (urls_content stamp allow block)))"
    "h \<in> set block \<Longrightarrow> h \<in> set (snd (parse_urls_content (urls_content stamp allow block)))"
proof -
  let ?ds = "map (Pair True) (sorted_vec allow) @ map (Pair False) (sorted_vec block)"
  have ok: "list_all (\<lambda>d. NL \<notin> set (snd d) \<and> plain_label stamp) ?ds" using assms by (auto simp: list_all_iff)
  show "h \<in> set (fst (parse_urls_content (urls_content stamp allow block)))" if "h \<in> set allow"
    unfolding parse_urls_sides urls_content_render fst_conv
    by (rule url_lines.read_back_entry [OF urls_header_lines(1) ok, of "(True, h)"]) (use assms that in auto)
  show "h \<in> set (snd (parse_urls_content (urls_content stamp allow block)))" if "h \<in> set block"
    unfolding parse_urls_sides urls_content_render snd_conv
    by (rule url_lines.read_back_entry [OF urls_header_lines(1) ok, of "(False, h)"]) (use assms that in auto)
qed

text \<open>
  C30. Writing the atoms file and reading it back: every accepted atom comes back without its
  surrounding white space, an atom of white space only is lost, nothing else appears, and the text
  written depends on the set of atoms only, not on the order in which the hash set yields them.
\<close>

theorem atoms_file_roundtrip:
  assumes "\<forall>a\<in>set atoms. is_Ok (validate_atom alnum a)" and "distinct atoms"
    and "plain_label stamp" and "plain_label source"
  shows "set (parse_atoms_content (atoms_content stamp source atoms)) = str_trim ` set atoms - {[]}
    \<and> (\<forall>ys. distinct ys \<and> set ys = set atoms \<longrightarrow> atoms_content stamp source ys = atoms_content stamp source atoms)"
proof
  have good: "list_all (\<lambda>a. storable a \<and> plain_label stamp \<and> plain_label source) (sorted_vec atoms)"
    using assms validated_storable by (auto simp: list_all_iff)
  show "set (parse_atoms_content (atoms_content stamp source atoms)) = str_trim ` set atoms - {[]}"
    using atom_lines.read_back [OF atoms_header_lines good, of Some]
    by (auto simp: parse_atoms_content_def atoms_content_def split: if_splits)
  show "\<forall>ys. distinct ys \<and> set ys = set atoms \<longrightarrow> atoms_content stamp source ys = atoms_content stamp source atoms"
    using assms(2) atoms_content_order by blast
qed

theorem atoms_file_roundtrip_witness:
  "is_Ok (validate_atom (\<lambda>_. False) '' curl x'') \<and> is_Ok (validate_atom (\<lambda>_. False) ''   '')
   \<and> set (parse_atoms_content (atoms_content ''2026-01-02'' ''cli'' ['' curl x'', ''   ''])) = {''curl x''}"
proof -
  have v: "is_Ok (validate_atom (\<lambda>_. False) '' curl x'')" "is_Ok (validate_atom (\<lambda>_. False) ''   '')"
    by code_simp+
  have l: "plain_label ''2026-01-02''" "plain_label ''cli''" by (simp_all add: plain_label_def)
  have t: "str_trim '' curl x'' = ''curl x''" "str_trim ''   '' = []" by code_simp+
  have g: "\<forall>a\<in>set ['' curl x'', ''   '']. is_Ok (validate_atom (\<lambda>_. False) a)" "distinct ['' curl x'', ''   '']"
    using v by simp_all
  have "str_trim ` set ['' curl x'', ''   ''] - {[]} = {''curl x''}" using t by auto
  with conjunct1 [OF atoms_file_roundtrip [OF g l]] v show ?thesis by (simp only: simp_thms)
qed

text \<open>The trust file reads back exactly the set of hashes written.\<close>

theorem trust_file_roundtrip:
  assumes "\<forall>h\<in>set hashes. is_Ok (validate_trust_hash h)" and "plain_label stamp"
  shows "set (parse_trust_content (trust_content stamp hashes)) = set hashes
    \<and> distinct (parse_trust_content (trust_content stamp hashes))"
  using trust_content_exact [OF assms] by simp

theorem trust_file_roundtrip_witness:
  "set (parse_trust_content (trust_content ''2026-01-02'' [replicate 64 CHR ''a''])) = {replicate 64 CHR ''a''}"
  using trust_file_roundtrip [of "[replicate 64 CHR ''a'']" "''2026-01-02''"]
  by (simp add: validate_trust_hash_Ok list_all_iff is_lower_hex_def plain_label_def)

text \<open>
  The URL file reads back exactly the two sets of hosts written, each on its own side, for
  accepted hosts without surrounding white space.
\<close>

theorem urls_file_roundtrip:
  assumes "\<forall>h\<in>set allow \<union> set block. is_Ok (validate_host h) \<and> str_trim h = h" and "plain_label stamp"
  shows "set (fst (parse_urls_content (urls_content stamp allow block))) = set allow
    \<and> set (snd (parse_urls_content (urls_content stamp allow block))) = set block"
proof -
  let ?ds = "map (Pair True) (sorted_vec allow) @ map (Pair False) (sorted_vec block)"
  have good: "list_all (\<lambda>d. is_Ok (validate_host (snd d)) \<and> str_trim (snd d) = snd d \<and> plain_label stamp) ?ds"
    using assms by (auto simp: list_all_iff)
  show ?thesis
    unfolding parse_urls_sides urls_content_render fst_conv snd_conv
      url_lines.read_back [OF urls_header_lines good]
    by (auto simp: bex_Un)
qed

theorem urls_file_roundtrip_witness:
  "set (fst (parse_urls_content (urls_content ''2026-01-02'' [''a.io''] [''b.io'']))) = {''a.io''}
   \<and> set (snd (parse_urls_content (urls_content ''2026-01-02'' [''a.io''] [''b.io'']))) = {''b.io''}"
proof -
  have t: "str_trim ''a.io'' = ''a.io''" "str_trim ''b.io'' = ''b.io''" by code_simp+
  from urls_file_roundtrip [of "[''a.io'']" "[''b.io'']" "''2026-01-02''"] t
  show ?thesis by (simp add: validate_host_Ok HOST_MAX_LEN_def plain_label_def)
qed

end
