(* ===== verification/Fs_World.thy ===== *)
theory Fs_World
  imports Trust_Format
begin

text \<open>
  The file system as the daemon sees it, and its three atomic writers: \<open>write_atomic\<close>
  (\<open>trust_store.rs\<close>), \<open>write_atoms\<close> (\<open>atom_fetcher/extract.rs\<close>) and \<open>write_snapshot\<close>
  (\<open>atom_drift.rs\<close>), with \<open>ensure_parent_dir\<close> and \<open>sweep_stale_tmp_files\<close>.

  A path is the list of its components. Every system call takes one tick of the world, and the
  environment decides at each tick whether it fails: \<open>fault n\<close> is the error of the \<open>n\<close>-th call, and
  a failing \<open>write\<close> or \<open>mkdir\<close> leaves part of its effect behind. The world records the files after
  every call (\<open>trace\<close>), so that a statement about all of them is a statement about every moment at
  which a reader, or a crash, can look at the disk. A file remembers whether its bytes were flushed
  (\<open>f_synced\<close>).

  The locale \<open>atomic_publish\<close> is the contract the writers share.
\<close>

unbundle bit_operations_syntax

section \<open>World and system calls\<close>

type_synonym path = "string list"

record fs_file =
  f_bytes :: string
  f_mode :: u32
  f_owner :: u32
  f_synced :: bool

record world =
  files :: "(path \<times> fs_file) list"
  dirs :: "(path \<times> u32) list"
  ticks :: nat
  seq :: u64
  trace :: "(path \<times> fs_file) list list"

record os_env =
  fault :: "nat \<Rightarrow> os_error option"
  partial :: "nat \<Rightarrow> nat"
  umask :: u32
  euid :: u32
  process_id :: u32
  now_secs :: u64

type_synonym ('e, 'a) io = "world \<Rightarrow> ('e, 'a) result \<times> world"

definition io_ret :: "'a \<Rightarrow> ('e, 'a) io" where
  "io_ret a w = (Inr a, w)"

definition io_err :: "'e \<Rightarrow> ('e, 'a) io" where
  "io_err e w = (Inl e, w)"

definition io_bind :: "('e, 'a) io \<Rightarrow> ('a \<Rightarrow> ('e, 'b) io) \<Rightarrow> ('e, 'b) io" where
  "io_bind m f w = (case m w of (Inl e, w') \<Rightarrow> (Inl e, w') | (Inr a, w') \<Rightarrow> f a w')"

definition io_catch :: "('e, 'a) io \<Rightarrow> ('e \<Rightarrow> ('f, 'a) io) \<Rightarrow> ('f, 'a) io" where
  "io_catch m h w = (case m w of (Inl e, w') \<Rightarrow> h e w' | (Inr a, w') \<Rightarrow> (Inr a, w'))"

definition io_ignore :: "('e, 'a) io \<Rightarrow> ('f, unit) io" where
  "io_ignore m w = (Inr (), snd (m w))"

definition map_err :: "('e \<Rightarrow> 'f) \<Rightarrow> ('e, 'a) io \<Rightarrow> ('f, 'a) io" where
  "map_err g m = io_catch m (\<lambda>e. io_err (g e))"

text \<open>One call: the tick and the trace advance in every case.\<close>

definition commit :: "world \<Rightarrow> world" where
  "commit w = w\<lparr>ticks := Suc (ticks w), trace := files w # trace w\<rparr>"

definition sys :: "os_env \<Rightarrow> (world \<Rightarrow> world) \<Rightarrow> (os_error, 'a) io \<Rightarrow> (os_error, 'a) io" where
  "sys env part eff w =
     (case fault env (ticks w) of
        Some e \<Rightarrow> (Inl e, commit (part w))
      | None \<Rightarrow> (case eff w of (r, w') \<Rightarrow> (r, commit w')))"

abbreviation lookup_file :: "world \<Rightarrow> path \<Rightarrow> fs_file option" where
  "lookup_file w p \<equiv> map_of (files w) p"

definition is_dir :: "world \<Rightarrow> path \<Rightarrow> bool" where
  "is_dir w p \<longleftrightarrow> map_of (dirs w) p \<noteq> None"

definition sys_create_new :: "os_env \<Rightarrow> u32 \<Rightarrow> path \<Rightarrow> (os_error, unit) io" where
  "sys_create_new env mode p = sys env id (\<lambda>w.
     if lookup_file w p \<noteq> None \<or> is_dir w p then (Inl EAlreadyExists, w)
     else if \<not> is_dir w (butlast p) then (Inl ENotFound, w)
     else (Inr (), w\<lparr>files := am_upd p \<lparr>f_bytes = [], f_mode = mode AND NOT (umask env),
                                     f_owner = euid env, f_synced = False\<rparr> (files w)\<rparr>))"

definition set_file :: "path \<Rightarrow> (fs_file \<Rightarrow> fs_file) \<Rightarrow> world \<Rightarrow> world" where
  "set_file p g w = (case lookup_file w p of None \<Rightarrow> w | Some f \<Rightarrow> w\<lparr>files := am_upd p (g f) (files w)\<rparr>)"

definition sys_write_all :: "os_env \<Rightarrow> path \<Rightarrow> string \<Rightarrow> (os_error, unit) io" where
  "sys_write_all env p content w =
     sys env (set_file p (\<lambda>f. f\<lparr>f_bytes := f_bytes f @ take (partial env (ticks w)) content, f_synced := False\<rparr>))
       (\<lambda>w. (Inr (), set_file p (\<lambda>f. f\<lparr>f_bytes := f_bytes f @ content, f_synced := False\<rparr>) w)) w"

definition sys_chmod :: "os_env \<Rightarrow> path \<Rightarrow> u32 \<Rightarrow> (os_error, unit) io" where
  "sys_chmod env p mode = sys env id (\<lambda>w. (Inr (), set_file p (\<lambda>f. f\<lparr>f_mode := mode\<rparr>) w))"

definition sys_sync :: "os_env \<Rightarrow> path \<Rightarrow> (os_error, unit) io" where
  "sys_sync env p = sys env id (\<lambda>w. (Inr (), set_file p (\<lambda>f. f\<lparr>f_synced := True\<rparr>) w))"

definition sys_rename :: "os_env \<Rightarrow> path \<Rightarrow> path \<Rightarrow> (os_error, unit) io" where
  "sys_rename env old new = sys env id (\<lambda>w.
     case lookup_file w old of
       None \<Rightarrow> (Inl ENotFound, w)
     | Some f \<Rightarrow> if is_dir w new then (Inl (EOther 21), w)
                else (Inr (), w\<lparr>files := am_upd new f (am_del old (files w))\<rparr>))"

definition sys_remove_file :: "os_env \<Rightarrow> path \<Rightarrow> (os_error, unit) io" where
  "sys_remove_file env p = sys env id (\<lambda>w.
     case lookup_file w p of
       None \<Rightarrow> (Inl (if is_dir w p then EOther 21 else ENotFound), w)
     | Some _ \<Rightarrow> (Inr (), w\<lparr>files := am_del p (files w)\<rparr>))"

definition sys_exists :: "os_env \<Rightarrow> path \<Rightarrow> world \<Rightarrow> bool \<times> world" where
  "sys_exists env p w =
     (fault env (ticks w) = None \<and> (lookup_file w p \<noteq> None \<or> is_dir w p), commit w)"

definition sys_metadata :: "os_env \<Rightarrow> path \<Rightarrow> (os_error, u32 \<times> u32) io" where
  "sys_metadata env p = sys env id (\<lambda>w.
     case lookup_file w p of
       Some f \<Rightarrow> (Inr (f_owner f, f_mode f), w)
     | None \<Rightarrow> (case map_of (dirs w) p of Some m \<Rightarrow> (Inr (euid env, m), w) | None \<Rightarrow> (Inl ENotFound, w)))"

definition sys_read :: "os_env \<Rightarrow> path \<Rightarrow> (os_error, string) io" where
  "sys_read env p = sys env id (\<lambda>w.
     case lookup_file w p of
       None \<Rightarrow> (Inl (if is_dir w p then EOther 21 else ENotFound), w)
     | Some f \<Rightarrow> (Inr (f_bytes f), w))"

definition sys_read_to_string :: "os_env \<Rightarrow> path \<Rightarrow> (os_error, string) io" where
  "sys_read_to_string env p =
     io_bind (sys_read env p) (\<lambda>s. if utf8_valid s then io_ret s else io_err EInvalidData)"

fun mkdirs :: "os_env \<Rightarrow> path \<Rightarrow> path list \<Rightarrow> world \<Rightarrow> (os_error, unit) result \<times> world" where
  "mkdirs env p [] w = (Inr (), w)"
| "mkdirs env p (q # qs) w =
     (if is_dir w q then mkdirs env p qs w
      else if lookup_file w q \<noteq> None then (Inl (EOther 20), w)
      else mkdirs env p qs (w\<lparr>dirs := am_upd q (0x1FF AND NOT (umask env)) (dirs w)\<rparr>))"

definition sys_create_dir_all :: "os_env \<Rightarrow> path \<Rightarrow> (os_error, unit) io" where
  "sys_create_dir_all env p w =
     sys env (\<lambda>w. snd (mkdirs env p (take (partial env (ticks w)) (prefixes p)) w)) (mkdirs env p (prefixes p)) w"

definition sys_chmod_dir :: "os_env \<Rightarrow> path \<Rightarrow> u32 \<Rightarrow> (os_error, unit) io" where
  "sys_chmod_dir env p mode = sys env id (\<lambda>w.
     if is_dir w p then (Inr (), w\<lparr>dirs := am_upd p mode (dirs w)\<rparr>) else (Inl ENotFound, w))"

definition sys_read_dir :: "os_env \<Rightarrow> path \<Rightarrow> (os_error, path list) io" where
  "sys_read_dir env p = sys env id (\<lambda>w.
     if is_dir w p
     then (Inr (filter (\<lambda>q. q \<noteq> [] \<and> butlast q = p) (map fst (dirs w) @ map fst (files w))), w)
     else (Inl (if lookup_file w p \<noteq> None then EOther 20 else ENotFound), w))"

text \<open>The permission gates look at the write bits of group and others only.\<close>

lemma gate_bits: "((m :: u32) AND 0x1FF) AND 0x12 = m AND 0x12"
proof -
  have "(m AND 0x1FF) AND 0x12 = m AND (0x1FF AND 0x12)" by (simp only: and.assoc)
  then show ?thesis by simp
qed

section \<open>Durability and directories\<close>

text \<open>\<open>fsync_parent_dir\<close> opens and syncs the directory and ignores every failure.\<close>

definition fsync_parent_dir :: "os_env \<Rightarrow> path \<Rightarrow> ('e, unit) io" where
  "fsync_parent_dir env p = io_ignore (sys env id (\<lambda>w. (Inr (), w)))"

definition ensure_parent_dir :: "os_env \<Rightarrow> path \<Rightarrow> (os_error, unit) io" where
  "ensure_parent_dir env p w =
     (case p of [] \<Rightarrow> (Inr (), w)
      | _ \<Rightarrow> (case sys_exists env (butlast p) w of
                (True, w1) \<Rightarrow> (Inr (), w1)
              | (False, w1) \<Rightarrow>
                io_bind (sys_create_dir_all env (butlast p)) (\<lambda>_. sys_chmod_dir env (butlast p) 0x1E8) w1))"

section \<open>The writers\<close>

definition with_file_name :: "path \<Rightarrow> string \<Rightarrow> path" where
  "with_file_name p n = butlast p @ [n]"

definition file_name :: "path \<Rightarrow> string option" where
  "file_name p = (if p = [] then None else Some (last p))"

definition cleanup :: "os_env \<Rightarrow> path \<Rightarrow> os_error \<Rightarrow> (os_error, 'a) io" where
  "cleanup env tmp e = io_bind (io_ignore (sys_remove_file env tmp)) (\<lambda>_. io_err e)"

definition write_atomic_tmp :: "os_env \<Rightarrow> u64 \<Rightarrow> path \<Rightarrow> path" where
  "write_atomic_tmp env n p =
     with_file_name p ((case file_name p of Some f \<Rightarrow> f | None \<Rightarrow> ''trust_store_tmp'')
       @ ''.tmp.'' @ show_u32 (process_id env) @ ''.'' @ show_nat (unat n))"

definition write_atomic :: "os_env \<Rightarrow> path \<Rightarrow> string \<Rightarrow> (os_error, unit) io" where
  "write_atomic env p content w =
     (let tmp = write_atomic_tmp env (seq w) p;
          w0 = w\<lparr>seq := seq w + 1\<rparr>
      in io_bind (sys_create_new env 0x1A0 tmp) (\<lambda>_.
         io_bind (io_catch (sys_write_all env tmp content) (cleanup env tmp)) (\<lambda>_.
         io_bind (io_catch (sys_chmod env tmp 0x1A0) (cleanup env tmp)) (\<lambda>_.
         io_bind (io_catch (sys_sync env tmp) (cleanup env tmp)) (\<lambda>_.
         io_bind (io_catch (sys_rename env tmp p) (cleanup env tmp)) (\<lambda>_.
         fsync_parent_dir env p))))) w0)"

definition write_atoms_tmp :: "os_env \<Rightarrow> path \<Rightarrow> path" where
  "write_atoms_tmp env p =
     with_file_name p ((case file_name p of Some f \<Rightarrow> f | None \<Rightarrow> ''atoms.system.txt'')
       @ ''.tmp.'' @ show_u32 (process_id env))"

definition write_atoms_bytes :: "os_env \<Rightarrow> path \<Rightarrow> string \<Rightarrow> (os_error, unit) io" where
  "write_atoms_bytes env p content =
     (let tmp = write_atoms_tmp env p
      in io_bind (case p of [] \<Rightarrow> io_ret () | _ \<Rightarrow> sys_create_dir_all env (butlast p)) (\<lambda>_.
         io_bind (sys_create_new env 0x1A0 tmp) (\<lambda>_.
         io_bind (io_catch (sys_write_all env tmp content) (cleanup env tmp)) (\<lambda>_.
         io_bind (io_catch (sys_chmod env tmp 0x1A0) (cleanup env tmp)) (\<lambda>_.
         io_bind (io_catch (sys_sync env tmp) (cleanup env tmp)) (\<lambda>_.
         io_bind (sys_rename env tmp p) (\<lambda>_.
         fsync_parent_dir env p)))))))"

definition write_snapshot_tmp :: "os_env \<Rightarrow> path \<Rightarrow> path" where
  "write_snapshot_tmp env p =
     butlast p @ [(case file_name p of Some f \<Rightarrow> f | None \<Rightarrow> ''atoms.drift.json'')
       @ ''.tmp.'' @ show_u32 (process_id env)]"

definition ensure_snapshot_dir :: "os_env \<Rightarrow> path \<Rightarrow> (os_error, unit) io" where
  "ensure_snapshot_dir env p w =
     (case p of [] \<Rightarrow> (Inr (), w)
      | _ \<Rightarrow> (case sys_exists env (butlast p) w of
                (True, w1) \<Rightarrow> (Inr (), w1) | (False, w1) \<Rightarrow> sys_create_dir_all env (butlast p) w1))"

definition write_snapshot_bytes :: "os_env \<Rightarrow> path \<Rightarrow> string \<Rightarrow> (os_error, unit) io" where
  "write_snapshot_bytes env p content =
     (let tmp = write_snapshot_tmp env p
      in io_bind (ensure_snapshot_dir env p) (\<lambda>_.
         io_bind (sys_create_new env 0x1B6 tmp) (\<lambda>_.
         io_bind (io_catch (sys_write_all env tmp content) (cleanup env tmp)) (\<lambda>_.
         io_bind (io_ignore (sys_chmod env tmp 0x1A0)) (\<lambda>_.
         io_bind (io_catch (sys_sync env tmp) (cleanup env tmp)) (\<lambda>_.
         io_bind (io_catch (sys_rename env tmp p) (cleanup env tmp)) (\<lambda>_.
         fsync_parent_dir env p)))))))"

section \<open>The start-up sweep\<close>

definition sweep_file :: "os_env \<Rightarrow> path \<Rightarrow> world \<Rightarrow> world" where
  "sweep_file env q w =
     (if q \<noteq> [] \<and> str_contains ''.tmp.'' (last q) then snd (sys_remove_file env q w) else w)"

definition sweep_dir :: "os_env \<Rightarrow> path \<Rightarrow> world \<Rightarrow> world" where
  "sweep_dir env d w =
     (let (isd, w1) = (fault env (ticks w) = None \<and> is_dir w d, commit w)
      in if \<not> isd then w1
         else (case sys_read_dir env d w1 of
                 (Inl _, w2) \<Rightarrow> w2
               | (Inr entries, w2) \<Rightarrow> fold (sweep_file env) entries w2))"

definition sweep_stale_tmp_files :: "os_env \<Rightarrow> path \<Rightarrow> world \<Rightarrow> world" where
  "sweep_stale_tmp_files env data_root w =
     (case sys_read_dir env data_root w of
        (Inl _, w1) \<Rightarrow> w1
      | (Inr entries, w1) \<Rightarrow> fold (sweep_dir env) entries w1)"

section \<open>Steps that touch one path\<close>

text \<open>
  \<open>only_tmp P t w w'\<close>: on the way from \<open>w\<close> to \<open>w'\<close> no path but \<open>t\<close> changes, and what \<open>t\<close> holds
  satisfies \<open>P\<close> after every call.
\<close>

definition only_tmp :: "(fs_file option \<Rightarrow> bool) \<Rightarrow> path \<Rightarrow> world \<Rightarrow> world \<Rightarrow> bool" where
  "only_tmp P t w w' \<longleftrightarrow>
     (\<forall>q. q \<noteq> t \<longrightarrow> lookup_file w' q = lookup_file w q) \<and>
     (\<exists>ts. trace w' = ts @ trace w \<and> (\<forall>s\<in>set ts. (\<forall>q. q \<noteq> t \<longrightarrow> map_of s q = lookup_file w q) \<and> P (map_of s t)))"

lemma only_tmp_refl [simp]: "only_tmp P t w w"
  by (simp add: only_tmp_def)

lemma only_tmp_trans: "only_tmp P t w w' \<Longrightarrow> only_tmp P t w' w'' \<Longrightarrow> only_tmp P t w w''"
  unfolding only_tmp_def by (elim conjE exE) (auto intro!: exI [of _ "b @ a" for a b])

lemma only_tmp_commit:
  assumes "\<And>q. q \<noteq> t \<Longrightarrow> lookup_file w' q = lookup_file w q" and "trace w' = trace w"
    and "P (lookup_file w' t)"
  shows "only_tmp P t w (commit w')"
  using assms by (auto simp: only_tmp_def commit_def intro!: exI [of _ "[files w']"])

lemma commit_simps [simp]:
  "files (commit w) = files w" "dirs (commit w) = dirs w" "seq (commit w) = seq w"
  "trace (commit w) = files w # trace w" "ticks (commit w) = Suc (ticks w)"
  by (simp_all add: commit_def)

lemma lookup_set_file [simp]:
  "lookup_file (set_file p g w) q = (if q = p then map_option g (lookup_file w p) else lookup_file w q)"
  by (simp add: set_file_def split: option.splits)

lemma set_file_simps [simp]:
  "trace (set_file p g w) = trace w" "dirs (set_file p g w) = dirs w" "ticks (set_file p g w) = ticks w"
  by (simp_all add: set_file_def split: option.splits)

text \<open>What a call on \<open>t\<close> does, by outcome.\<close>

lemma create_new_step:
  assumes "sys_create_new env m t w = (r, w')"
    and "P (lookup_file w t)" and "P (Some \<lparr>f_bytes = [], f_mode = m AND NOT (umask env), f_owner = euid env, f_synced = False\<rparr>)"
  shows "only_tmp P t w w' \<and> (case r of
           Inl e \<Rightarrow> lookup_file w' t = lookup_file w t
         | Inr _ \<Rightarrow> lookup_file w t = None \<and> lookup_file w' t =
                     Some \<lparr>f_bytes = [], f_mode = m AND NOT (umask env), f_owner = euid env, f_synced = False\<rparr>)"
  using assms
  by (auto simp: sys_create_new_def sys_def split: option.splits if_splits intro!: only_tmp_commit)

lemma write_all_step:
  assumes "sys_write_all env t c w = (r, w')" and "lookup_file w t = Some f" and "f_bytes f = []"
    and "\<And>b. P (Some (f\<lparr>f_bytes := b, f_synced := False\<rparr>))"
  shows "only_tmp P t w w' \<and> (r = Inr () \<longrightarrow> lookup_file w' t = Some (f\<lparr>f_bytes := c, f_synced := False\<rparr>))
    \<and> P (lookup_file w' t)"
  using assms
  by (auto simp: sys_write_all_def sys_def split: option.splits if_splits intro!: only_tmp_commit)

lemma chmod_step:
  assumes "sys_chmod env t m w = (r, w')" and "lookup_file w t = Some f"
    and "P (Some f)" and "P (Some (f\<lparr>f_mode := m\<rparr>))"
  shows "only_tmp P t w w' \<and> (r = Inr () \<longrightarrow> lookup_file w' t = Some (f\<lparr>f_mode := m\<rparr>))
    \<and> (r \<noteq> Inr () \<longrightarrow> lookup_file w' t = Some f)"
  using assms
  by (auto simp: sys_chmod_def sys_def split: option.splits if_splits intro!: only_tmp_commit)

lemma sync_step:
  assumes "sys_sync env t w = (r, w')" and "lookup_file w t = Some f"
    and "P (Some f)" and "P (Some (f\<lparr>f_synced := True\<rparr>))"
  shows "only_tmp P t w w' \<and> (r = Inr () \<longrightarrow> lookup_file w' t = Some (f\<lparr>f_synced := True\<rparr>))
    \<and> (r \<noteq> Inr () \<longrightarrow> lookup_file w' t = Some f)"
  using assms
  by (auto simp: sys_sync_def sys_def split: option.splits if_splits intro!: only_tmp_commit)

lemma remove_step:
  assumes "sys_remove_file env t w = (r, w')" and "P (lookup_file w t)" and "P None"
  shows "only_tmp P t w w'"
  using assms
  by (auto simp: sys_remove_file_def sys_def split: option.splits if_splits intro!: only_tmp_commit)

lemma rename_step:
  assumes "sys_rename env t p w = (r, w')" and "lookup_file w t = Some f" and "t \<noteq> p"
  shows "(case r of
      Inr _ \<Rightarrow> lookup_file w' = (lookup_file w)(t := None, p \<mapsto> f) \<and> trace w' = files w' # trace w
    | Inl _ \<Rightarrow> lookup_file w' = lookup_file w \<and> trace w' = files w # trace w)"
  using assms
  by (auto simp: sys_rename_def sys_def fun_eq_iff split: option.splits if_splits)

lemma cleanup_step:
  assumes "cleanup env t e w = (r, w')" and "P (lookup_file w t)" and "P None"
  shows "r = Inl e \<and> only_tmp P t w w'"
  using assms remove_step [of env t w "fst (sys_remove_file env t w)" "snd (sys_remove_file env t w)" P]
  by (auto simp: cleanup_def io_bind_def io_ignore_def io_err_def)

lemma fsync_parent_step:
  "fsync_parent_dir env p w = (r, w') \<Longrightarrow> r = Inr () \<and> files w' = files w \<and> trace w' = files w # trace w"
  by (auto simp: fsync_parent_dir_def io_ignore_def sys_def split: option.splits)

section \<open>The contract of an atomic writer\<close>

text \<open>
  \<open>publishes Q P t p w r w'\<close>: on success the path \<open>p\<close> holds a file that satisfies \<open>Q\<close>, the scratch
  path \<open>t\<close> is gone and no other path changed; on an error no path but \<open>t\<close> changed. After every call
  in between, \<open>p\<close> holds the old file or the finished new one, and the scratch file satisfies \<open>P\<close>.
\<close>

definition publishes :: "(fs_file \<Rightarrow> bool) \<Rightarrow> (fs_file option \<Rightarrow> bool) \<Rightarrow> path \<Rightarrow> path \<Rightarrow> world
    \<Rightarrow> ('e, 'a) result \<Rightarrow> world \<Rightarrow> bool" where
  "publishes Q P t p w r w' \<longleftrightarrow>
     (if is_Ok r then \<exists>f. Q f \<and> lookup_file w' = (lookup_file w)(t := None, p \<mapsto> f)
      else \<forall>q. q \<noteq> t \<longrightarrow> lookup_file w' q = lookup_file w q)
     \<and> (\<exists>ts. trace w' = ts @ trace w
          \<and> (\<forall>s\<in>set ts. (\<forall>q. q \<noteq> p \<and> q \<noteq> t \<longrightarrow> map_of s q = lookup_file w q)
               \<and> (map_of s p = lookup_file w p \<or> (\<exists>f. map_of s p = Some f \<and> Q f)) \<and> P (map_of s t)))"

lemma publishes_start:
  "files w1 = files w \<Longrightarrow> trace w1 = trace w \<Longrightarrow> publishes Q P t p w1 r w' \<longleftrightarrow> publishes Q P t p w r w'"
  by (simp only: publishes_def)

lemma publishes_fail: "only_tmp P t w w' \<Longrightarrow> t \<noteq> p \<Longrightarrow> publishes Q P t p w (Inl e) w'"
  unfolding only_tmp_def publishes_def by (elim conjE exE) (auto intro!: exI)

lemma publishes_prepend:
  assumes "only_tmp P t w w1" and "publishes Q P t p w1 r w'" and "t \<noteq> p"
  shows "publishes Q P t p w r w'"
proof -
  from assms(1) obtain ts where t1: "\<And>q. q \<noteq> t \<Longrightarrow> lookup_file w1 q = lookup_file w q"
      "trace w1 = ts @ trace w" "\<forall>s\<in>set ts. (\<forall>q. q \<noteq> t \<longrightarrow> map_of s q = lookup_file w q) \<and> P (map_of s t)"
    unfolding only_tmp_def by blast
  from assms(2) obtain us where t2: "trace w' = us @ trace w1"
      "\<forall>s\<in>set us. (\<forall>q. q \<noteq> p \<and> q \<noteq> t \<longrightarrow> map_of s q = lookup_file w1 q)
               \<and> (map_of s p = lookup_file w1 p \<or> (\<exists>f. map_of s p = Some f \<and> Q f)) \<and> P (map_of s t)"
    unfolding publishes_def by blast
  have "(lookup_file w1)(t := None, p \<mapsto> f) = (lookup_file w)(t := None, p \<mapsto> f)" for f
    using t1(1) by (auto simp: fun_eq_iff)
  with assms(2) t1(1) have main: "if is_Ok r then \<exists>f. Q f \<and> lookup_file w' = (lookup_file w)(t := None, p \<mapsto> f)
      else \<forall>q. q \<noteq> t \<longrightarrow> lookup_file w' q = lookup_file w q"
    unfolding publishes_def by (auto split: if_splits)
  have "\<forall>s\<in>set (us @ ts). (\<forall>q. q \<noteq> p \<and> q \<noteq> t \<longrightarrow> map_of s q = lookup_file w q)
       \<and> (map_of s p = lookup_file w p \<or> (\<exists>f. map_of s p = Some f \<and> Q f)) \<and> P (map_of s t)"
    using t1 t2(2) assms(3) by auto
  with main t1(2) t2(1) show ?thesis unfolding publishes_def by (intro conjI exI [of _ "us @ ts"]) simp_all
qed

lemma publishes_rename:
  assumes "io_bind (sys_rename env t p) (\<lambda>_. fsync_parent_dir env p) w = (r, w')"
    and "lookup_file w t = Some f" and "Q f" and "P None" and "P (Some f)" and "t \<noteq> p"
  shows "publishes Q P t p w r w'"
proof (cases "sys_rename env t p w")
  case (Pair r1 w1)
  note rn = rename_step [OF Pair assms(2,6)]
  show ?thesis
  proof (cases r1)
    case (Inl e)
    with Pair assms(1) have r: "r = Inl e" "w' = w1" by (simp_all add: io_bind_def)
    from Inl rn have w1: "lookup_file w1 = lookup_file w" "trace w1 = [files w] @ trace w" by simp_all
    have "only_tmp P t w w1"
      unfolding only_tmp_def w1 using assms(2,5) by (intro conjI exI [of _ "[files w]"]) simp_all
    with r show ?thesis by (simp add: publishes_fail [OF _ assms(6)])
  next
    case (Inr u)
    with Pair assms(1) have "fsync_parent_dir env p w1 = (r, w')" by (simp add: io_bind_def)
    from fsync_parent_step [OF this] Inr rn
    have "r = Inr ()" "lookup_file w' = (lookup_file w)(t := None, p \<mapsto> f)"
      "trace w' = [files w', files w'] @ trace w" by auto
    note w' = this
    show ?thesis
      unfolding publishes_def w'(1,3) using assms(3,4,6) w'(2)
      by (intro conjI exI [of _ "[files w', files w']"]) (simp_all, blast)
  qed
qed

lemma publishes_step:
  assumes "io_bind m k w = (r, w')" and "t \<noteq> p"
    and "\<And>r1 w1. m w = (r1, w1) \<Longrightarrow> only_tmp P t w w1"
    and "\<And>a w1. m w = (Inr a, w1) \<Longrightarrow> k a w1 = (r, w') \<Longrightarrow> publishes Q P t p w1 r w'"
  shows "publishes Q P t p w r w'"
proof (cases "m w")
  case (Pair r1 w1)
  then show ?thesis
  proof (cases r1)
    case (Inl e)
    with Pair assms(1,3) publishes_fail [OF _ assms(2)] show ?thesis by (auto simp: io_bind_def)
  next
    case (Inr a)
    with Pair assms publishes_prepend show ?thesis by (simp add: io_bind_def)
  qed
qed

lemma catch_cleanup_step:
  assumes "io_catch m (cleanup env t) w = (r1, w1)" and "P None"
    and "only_tmp P t w (snd (m w)) \<and> P (lookup_file (snd (m w)) t)"
  shows "only_tmp P t w w1 \<and> (r1 = Inr a \<longrightarrow> m w = (Inr a, w1))"
proof (cases "m w")
  case (Pair r2 w2)
  then show ?thesis
  proof (cases r2)
    case (Inl e)
    with Pair assms(1) have "cleanup env t e w2 = (r1, w1)" by (simp add: io_catch_def)
    from cleanup_step [where P = P, OF this] assms(2,3) Pair show ?thesis
      by (auto intro: only_tmp_trans)
  next
    case (Inr b)
    with Pair assms(1,3) show ?thesis by (auto simp: io_catch_def)
  qed
qed

lemma publishes_guarded:
  assumes "io_bind (io_catch m (cleanup env t)) k w = (r, w')" and "t \<noteq> p" and "P None"
    and "\<And>r1 w1. m w = (r1, w1) \<Longrightarrow> only_tmp P t w w1 \<and> P (lookup_file w1 t)"
    and "\<And>a w1. m w = (Inr a, w1) \<Longrightarrow> k a w1 = (r, w') \<Longrightarrow> publishes Q P t p w1 r w'"
  shows "publishes Q P t p w r w'"
proof (rule publishes_step [OF assms(1,2)])
  have m: "only_tmp P t w (snd (m w)) \<and> P (lookup_file (snd (m w)) t)"
    using assms(4) [of "fst (m w)" "snd (m w)"] by simp
  show "only_tmp P t w w1" if "io_catch m (cleanup env t) w = (r1, w1)" for r1 w1
    using catch_cleanup_step [where P = P, OF that assms(3) m] by blast
  show "publishes Q P t p w1 r w'" if "io_catch m (cleanup env t) w = (Inr a, w1)" "k a w1 = (r, w')" for a w1
    using catch_cleanup_step [where P = P, OF that(1) assms(3) m] assms(5) that(2) by blast
qed

section \<open>The writers keep the contract\<close>

abbreviation scratch :: "os_env \<Rightarrow> u32 \<Rightarrow> fs_file" where
  "scratch env m \<equiv> \<lparr>f_bytes = [], f_mode = m AND NOT (umask env), f_owner = euid env, f_synced = False\<rparr>"

definition within_0640 :: "u32 \<Rightarrow> bool" where
  "within_0640 m \<longleftrightarrow> m AND NOT 0x1A0 = 0"

lemma within_0640_simps [simp]: "within_0640 (0x1A0 AND NOT u)" "within_0640 0x1A0"
proof -
  have "((m :: u32) AND NOT u) AND NOT m = 0" for m u by (rule bit_word_eqI) (simp add: bit_simps)
  from this [of "0x1A0" u] this [of "0x1A0" 0] show "within_0640 (0x1A0 AND NOT u)" "within_0640 0x1A0"
    unfolding within_0640_def by simp_all
qed

text \<open>A scratch file is absent, what was there before, or readable by owner and group at most.\<close>

definition private_scratch :: "fs_file option \<Rightarrow> fs_file option \<Rightarrow> bool" where
  "private_scratch old f \<longleftrightarrow> f = None \<or> f = old \<or> (\<exists>g. f = Some g \<and> within_0640 (f_mode g))"

definition private_file :: "os_env \<Rightarrow> string \<Rightarrow> fs_file \<Rightarrow> bool" where
  "private_file env c f \<longleftrightarrow> f = \<lparr>f_bytes = c, f_mode = 0x1A0, f_owner = euid env, f_synced = True\<rparr>"

definition synced_file :: "os_env \<Rightarrow> string \<Rightarrow> fs_file \<Rightarrow> bool" where
  "synced_file env c f \<longleftrightarrow> f_bytes f = c \<and> f_owner f = euid env \<and> f_synced f"

lemma private_scratch_simps [simp]:
  "private_scratch old None" "private_scratch old old"
  "within_0640 (f_mode g) \<Longrightarrow> private_scratch old (Some g)"
  by (simp_all add: private_scratch_def)

lemma tmp_name_neq: "with_file_name p (last p @ CHR ''.'' # x) \<noteq> p"
proof
  assume "with_file_name p (last p @ CHR ''.'' # x) = p"
  then have "last p = last p @ CHR ''.'' # x" by (metis with_file_name_def last_snoc)
  then show False by simp
qed

lemma write_tmp_neq [simp]: "write_atomic_tmp env n p \<noteq> p" "write_atoms_tmp env p \<noteq> p"
  "write_snapshot_tmp env p \<noteq> p"
  using tmp_name_neq [of p]
  by (auto simp: write_atomic_tmp_def write_atoms_tmp_def write_snapshot_tmp_def file_name_def
        with_file_name_def)

lemma private_body:
  assumes "io_bind (sys_create_new env 0x1A0 t) (\<lambda>_.
         io_bind (io_catch (sys_write_all env t c) (cleanup env t)) (\<lambda>_.
         io_bind (io_catch (sys_chmod env t 0x1A0) (cleanup env t)) (\<lambda>_.
         io_bind (io_catch (sys_sync env t) (cleanup env t)) k))) w = (r, w')"
    and t: "t \<noteq> p" and P: "P = private_scratch (lookup_file w t)"
    and k: "\<And>w4. lookup_file w4 t = Some \<lparr>f_bytes = c, f_mode = 0x1A0, f_owner = euid env, f_synced = True\<rparr>
         \<Longrightarrow> k () w4 = (r, w') \<Longrightarrow> publishes (private_file env c) P t p w4 r w'"
  shows "publishes (private_file env c) P t p w r w'"
  using assms(1) t
proof (rule publishes_step)
  fix r1 w1
  assume "sys_create_new env 0x1A0 t w = (r1, w1)"
  from create_new_step [OF this, of P] show "only_tmp P t w w1" by (simp add: P)
next
  fix a w1
  assume "sys_create_new env 0x1A0 t w = (Inr a, w1)"
  from create_new_step [OF this, of P] have f1: "lookup_file w1 t = Some (scratch env 0x1A0)"
    by (simp add: P)
  assume "io_bind (io_catch (sys_write_all env t c) (cleanup env t)) (\<lambda>_.
         io_bind (io_catch (sys_chmod env t 0x1A0) (cleanup env t)) (\<lambda>_.
         io_bind (io_catch (sys_sync env t) (cleanup env t)) k)) w1 = (r, w')"
  then show "publishes (private_file env c) P t p w1 r w'" using t
  proof (rule publishes_guarded)
    show "P None" by (simp add: P)
    show "only_tmp P t w1 w2 \<and> P (lookup_file w2 t)" if "sys_write_all env t c w1 = (r2, w2)" for r2 w2
      using write_all_step [OF that f1, of P] by (simp add: P)
    fix a2 w2
    assume w2: "sys_write_all env t c w1 = (Inr a2, w2)"
    have f2: "lookup_file w2 t = Some (scratch env 0x1A0\<lparr>f_bytes := c\<rparr>)"
      using write_all_step [OF w2 f1, of P] by (simp add: P)
    assume "io_bind (io_catch (sys_chmod env t 0x1A0) (cleanup env t)) (\<lambda>_.
         io_bind (io_catch (sys_sync env t) (cleanup env t)) k) w2 = (r, w')"
    then show "publishes (private_file env c) P t p w2 r w'" using t \<open>P None\<close>
    proof (rule publishes_guarded)
      show "only_tmp P t w2 w3 \<and> P (lookup_file w3 t)" if "sys_chmod env t 0x1A0 w2 = (r3, w3)" for r3 w3
        using chmod_step [OF that f2, of P] by (cases "r3 = Inr ()") (simp_all add: P)
      fix a3 w3
      assume w3: "sys_chmod env t 0x1A0 w2 = (Inr a3, w3)"
      have f3: "lookup_file w3 t = Some \<lparr>f_bytes = c, f_mode = 0x1A0, f_owner = euid env, f_synced = False\<rparr>"
        using chmod_step [OF w3 f2, of P] by (simp add: P)
      assume "io_bind (io_catch (sys_sync env t) (cleanup env t)) k w3 = (r, w')"
      then show "publishes (private_file env c) P t p w3 r w'" using t \<open>P None\<close>
      proof (rule publishes_guarded)
        show "only_tmp P t w3 w4 \<and> P (lookup_file w4 t)" if "sys_sync env t w3 = (r4, w4)" for r4 w4
          using sync_step [OF that f3, of P] by (cases "r4 = Inr ()") (simp_all add: P)
        show "publishes (private_file env c) P t p w4 r w'"
          if "sys_sync env t w3 = (Inr a4, w4)" "k a4 w4 = (r, w')" for a4 w4
          using sync_step [OF that(1) f3, of P] that(2) by (intro k) (simp_all add: P)
      qed
    qed
  qed
qed

lemma publishes_guarded_rename:
  assumes "io_bind (io_catch (sys_rename env t p) (cleanup env t)) (\<lambda>_. fsync_parent_dir env p) w = (r, w')"
    and "lookup_file w t = Some f" and "Q f" and "P None" and "P (Some f)" and "t \<noteq> p"
  shows "publishes Q P t p w r w'"
proof (cases "sys_rename env t p w")
  case (Pair r1 w1)
  show ?thesis
  proof (cases r1)
    case (Inl e)
    from rename_step [OF Pair assms(2,6)] Inl
    have w1: "lookup_file w1 = lookup_file w" "trace w1 = [files w] @ trace w" by simp_all
    have o: "only_tmp P t w w1"
      unfolding only_tmp_def w1 using assms(2,5) by (intro conjI exI [of _ "[files w]"]) simp_all
    from Pair Inl assms(1) obtain r2 where c: "cleanup env t e w1 = (r2, w')" "r = r2 \<or> (\<exists>a. r2 = Inr a)"
      by (cases "cleanup env t e w1") (auto simp: io_bind_def io_catch_def split: sum.splits prod.splits
        dest: cleanup_step [where P = "\<lambda>_. True"])
    from cleanup_step [where P = P, OF c(1)] w1(1) assms(2,4,5) have "r2 = Inl e" "only_tmp P t w1 w'" by simp_all
    with o c(2) publishes_fail [OF only_tmp_trans [OF o] assms(6)] show ?thesis by auto
  next
    case (Inr u)
    with Pair assms(1) have "io_bind (sys_rename env t p) (\<lambda>_. fsync_parent_dir env p) w = (r, w')"
      by (simp add: io_bind_def io_catch_def)
    from publishes_rename [where Q = Q and P = P, OF this assms(2-6)] show ?thesis .
  qed
qed

locale atomic_publish =
  fixes publish :: "os_env \<Rightarrow> path \<Rightarrow> string \<Rightarrow> (os_error, unit) io" and tmp :: "os_env \<Rightarrow> world \<Rightarrow> path \<Rightarrow> path"
    and final :: "os_env \<Rightarrow> string \<Rightarrow> fs_file \<Rightarrow> bool" and shown :: "fs_file option \<Rightarrow> fs_file option \<Rightarrow> bool"
  assumes tmp_neq: "tmp env w p \<noteq> p"
    and publish_spec: "publish env p c w = (r, w') \<Longrightarrow>
      publishes (final env c) (shown (lookup_file w (tmp env w p))) (tmp env w p) p w r w'"
    and final_bytes: "final env c f \<Longrightarrow> f_bytes f = c \<and> f_synced f"
begin

lemma err_keeps:
  "publish env p c w = (Inl e, w') \<Longrightarrow> q \<noteq> tmp env w p \<Longrightarrow> lookup_file w' q = lookup_file w q"
  using publish_spec by (fastforce simp: publishes_def)

lemma ok_lookup:
  "publish env p c w = (Inr u, w') \<Longrightarrow>
     \<exists>f. final env c f \<and> lookup_file w' = (lookup_file w)(tmp env w p := None, p \<mapsto> f)"
  using publish_spec by (fastforce simp: publishes_def)

lemma read_after:
  assumes "publish env p c w = (Inr u, w')" and "fault env (ticks w') = None"
  shows "fst (sys_read env p w') = Inr c"
  using ok_lookup [OF assms(1)] final_bytes assms(2) by (auto simp: sys_read_def sys_def)

lemma never_torn:
  assumes "publish env p c w = (r, w')"
  shows "\<exists>ts. trace w' = ts @ trace w
    \<and> (\<forall>s\<in>set ts. (map_of s p = lookup_file w p \<or> (\<exists>f. map_of s p = Some f \<and> final env c f))
         \<and> shown (lookup_file w (tmp env w p)) (map_of s (tmp env w p)))"
  using publish_spec [OF assms] unfolding publishes_def by blast

end

lemma write_atomic_publishes:
  assumes "write_atomic env p c w = (r, w')"
  shows "publishes (private_file env c) (private_scratch (lookup_file w (write_atomic_tmp env (seq w) p)))
     (write_atomic_tmp env (seq w) p) p w r w'"
proof -
  let ?t = "write_atomic_tmp env (seq w) p"
  let ?w0 = "w\<lparr>seq := seq w + 1\<rparr>"
  let ?P = "private_scratch (lookup_file ?w0 ?t)"
  have "publishes (private_file env c) ?P ?t p ?w0 r w'"
  proof (rule private_body [of env ?t c _ ?w0 r w' p ?P, OF _ _ refl])
    show "io_bind (sys_create_new env 0x1A0 ?t) (\<lambda>_.
         io_bind (io_catch (sys_write_all env ?t c) (cleanup env ?t)) (\<lambda>_.
         io_bind (io_catch (sys_chmod env ?t 0x1A0) (cleanup env ?t)) (\<lambda>_.
         io_bind (io_catch (sys_sync env ?t) (cleanup env ?t)) (\<lambda>_.
         io_bind (io_catch (sys_rename env ?t p) (cleanup env ?t)) (\<lambda>_. fsync_parent_dir env p))))) ?w0 = (r, w')"
      using assms by (simp add: write_atomic_def Let_def)
    show "publishes (private_file env c) ?P ?t p w4 r w'"
      if "lookup_file w4 ?t = Some \<lparr>f_bytes = c, f_mode = 0x1A0, f_owner = euid env, f_synced = True\<rparr>"
        "io_bind (io_catch (sys_rename env ?t p) (cleanup env ?t)) (\<lambda>_. fsync_parent_dir env p) w4 = (r, w')" for w4
      using publishes_guarded_rename [OF that(2,1)] by (simp add: private_file_def)
  qed simp
  then show ?thesis by (simp add: publishes_start [of ?w0 w])
qed

interpretation trust_file: atomic_publish write_atomic "\<lambda>env w p. write_atomic_tmp env (seq w) p" private_file private_scratch
  by unfold_locales (auto intro: write_atomic_publishes simp: private_file_def)

lemma mkdirs_files [simp]: "files (snd (mkdirs env p qs w)) = files w" "trace (snd (mkdirs env p qs w)) = trace w"
  by (induction env p qs w rule: mkdirs.induct) auto

lemma mkdirs_files_eq: "mkdirs env p qs w = (r, w') \<Longrightarrow> files w' = files w \<and> trace w' = trace w"
  using mkdirs_files [of env p qs w] by simp

lemma create_dir_all_step:
  "sys_create_dir_all env d w = (r, w') \<Longrightarrow> P (lookup_file w t) \<Longrightarrow> files w' = files w \<and> only_tmp P t w w'"
  by (auto simp: sys_create_dir_all_def sys_def split: option.splits prod.splits
      dest!: mkdirs_files_eq intro!: only_tmp_commit)

lemma write_atoms_publishes:
  assumes "write_atoms_bytes env p c w = (r, w')"
  shows "publishes (private_file env c) (private_scratch (lookup_file w (write_atoms_tmp env p)))
     (write_atoms_tmp env p) p w r w'"
proof -
  let ?t = "write_atoms_tmp env p"
  let ?P = "private_scratch (lookup_file w ?t)"
  let ?mk = "case p of [] \<Rightarrow> io_ret () | _ \<Rightarrow> sys_create_dir_all env (butlast p)"
  have mk: "files w1 = files w \<and> only_tmp ?P ?t w w1" if "?mk w = (r1, w1)" for r1 w1
    using that create_dir_all_step [of env "butlast p" w r1 w1 ?P ?t]
    by (cases p) (auto simp: io_ret_def)
  show ?thesis
    using assms unfolding write_atoms_bytes_def Let_def
  proof (rule publishes_step [OF _ write_tmp_neq(2)])
    show "only_tmp ?P ?t w w1" if "?mk w = (r1, w1)" for r1 w1 using mk [OF that] ..
    fix a w1
    assume "?mk w = (Inr a, w1)"
    then have f: "files w1 = files w" using mk by blast
    assume body: "io_bind (sys_create_new env 0x1A0 ?t) (\<lambda>_.
         io_bind (io_catch (sys_write_all env ?t c) (cleanup env ?t)) (\<lambda>_.
         io_bind (io_catch (sys_chmod env ?t 0x1A0) (cleanup env ?t)) (\<lambda>_.
         io_bind (io_catch (sys_sync env ?t) (cleanup env ?t)) (\<lambda>_.
         io_bind (sys_rename env ?t p) (\<lambda>_. fsync_parent_dir env p))))) w1 = (r, w')"
    show "publishes (private_file env c) ?P ?t p w1 r w'"
    proof (rule private_body [OF body write_tmp_neq(2)])
      show "?P = private_scratch (lookup_file w1 ?t)" by (simp add: f)
      show "publishes (private_file env c) ?P ?t p w4 r w'"
        if "lookup_file w4 ?t = Some \<lparr>f_bytes = c, f_mode = 0x1A0, f_owner = euid env, f_synced = True\<rparr>"
          "io_bind (sys_rename env ?t p) (\<lambda>_. fsync_parent_dir env p) w4 = (r, w')" for w4
        using publishes_rename [OF that(2,1)] by (simp add: private_file_def)
    qed
  qed
qed

interpretation corpus_file: atomic_publish write_atoms_bytes "\<lambda>env w p. write_atoms_tmp env p" private_file private_scratch
  by unfold_locales (auto intro: write_atoms_publishes simp: private_file_def)

lemma snapshot_tail:
  assumes "io_bind (io_ignore (sys_chmod env t 0x1A0)) (\<lambda>_.
         io_bind (io_catch (sys_sync env t) (cleanup env t)) (\<lambda>_.
         io_bind (io_catch (sys_rename env t p) (cleanup env t)) (\<lambda>_. fsync_parent_dir env p))) w = (r, w')"
    and t: "t \<noteq> p" and f: "lookup_file w t = Some f" "f_bytes f = c" "f_owner f = euid env"
  shows "publishes (synced_file env c) (\<lambda>_. True) t p w r w'"
  using assms(1) t
proof (rule publishes_step)
  let ?P = "\<lambda>_ :: fs_file option. True"
  show "only_tmp ?P t w w1" if "io_ignore (sys_chmod env t 0x1A0) w = (r1 :: (os_error, unit) result, w1)" for r1 w1
    using that chmod_step [of env t "0x1A0" w "fst (sys_chmod env t 0x1A0 w)" "snd (sys_chmod env t 0x1A0 w)" f ?P] f
    by (auto simp: io_ignore_def)
  fix a w1
  assume "io_ignore (sys_chmod env t 0x1A0) w = (Inr a :: (os_error, unit) result, w1)"
  then obtain r0 where m: "sys_chmod env t 0x1A0 w = (r0, w1)"
    by (cases "sys_chmod env t 0x1A0 w") (auto simp: io_ignore_def)
  have "\<exists>g. lookup_file w1 t = Some g \<and> f_bytes g = c \<and> f_owner g = euid env"
    using chmod_step [OF m f(1), of ?P] f by (cases "r0 = Inr ()") auto
  then obtain g where g: "lookup_file w1 t = Some g" "f_bytes g = c" "f_owner g = euid env" by blast
  assume "io_bind (io_catch (sys_sync env t) (cleanup env t)) (\<lambda>_.
         io_bind (io_catch (sys_rename env t p) (cleanup env t)) (\<lambda>_. fsync_parent_dir env p)) w1 = (r, w')"
  then show "publishes (synced_file env c) ?P t p w1 r w'"
  proof (rule publishes_guarded [OF _ t])
    show "only_tmp ?P t w1 w2 \<and> True" if "sys_sync env t w1 = (r2, w2)" for r2 w2
      using sync_step [OF that g(1), of ?P] by simp
    fix a2 w2
    assume "sys_sync env t w1 = (Inr a2, w2)"
    from sync_step [OF this g(1), of ?P] have "lookup_file w2 t = Some (g\<lparr>f_synced := True\<rparr>)" by simp
    moreover assume "io_bind (io_catch (sys_rename env t p) (cleanup env t)) (\<lambda>_. fsync_parent_dir env p) w2 = (r, w')"
    ultimately show "publishes (synced_file env c) ?P t p w2 r w'"
      using g t by (intro publishes_guarded_rename [of env t p w2 r w' "g\<lparr>f_synced := True\<rparr>"])
        (simp_all add: synced_file_def)
  qed simp
qed

lemma write_snapshot_publishes:
  assumes "write_snapshot_bytes env p c w = (r, w')"
  shows "publishes (synced_file env c) (\<lambda>_. True) (write_snapshot_tmp env p) p w r w'"
proof -
  let ?t = "write_snapshot_tmp env p"
  let ?P = "\<lambda>_ :: fs_file option. True"
  have T: "?P None" by simp
  have dir: "only_tmp ?P ?t w w1" if "ensure_snapshot_dir env p w = (r1, w1)" for r1 w1
    using that create_dir_all_step [of env "butlast p" "commit w" r1 w1 ?P ?t]
      only_tmp_commit [of ?t w w ?P]
    by (cases p) (auto simp: ensure_snapshot_dir_def sys_exists_def split: if_splits bool.splits intro: only_tmp_trans)
  show ?thesis
    using assms unfolding write_snapshot_bytes_def Let_def
  proof (rule publishes_step [OF _ write_tmp_neq(3) dir])
    fix a w1
    assume "io_bind (sys_create_new env 0x1B6 ?t) (\<lambda>_.
         io_bind (io_catch (sys_write_all env ?t c) (cleanup env ?t)) (\<lambda>_.
         io_bind (io_ignore (sys_chmod env ?t 0x1A0)) (\<lambda>_.
         io_bind (io_catch (sys_sync env ?t) (cleanup env ?t)) (\<lambda>_.
         io_bind (io_catch (sys_rename env ?t p) (cleanup env ?t)) (\<lambda>_. fsync_parent_dir env p))))) w1 = (r, w')"
    then show "publishes (synced_file env c) ?P ?t p w1 r w'"
    proof (rule publishes_step [OF _ write_tmp_neq(3)])
      show "only_tmp ?P ?t w1 w2" if "sys_create_new env 0x1B6 ?t w1 = (r2, w2)" for r2 w2
        using create_new_step [OF that, of ?P] by simp
      fix a2 w2
      assume "sys_create_new env 0x1B6 ?t w1 = (Inr a2, w2)"
      from create_new_step [OF this, of ?P] have f2: "lookup_file w2 ?t = Some (scratch env 0x1B6)" by simp
      assume "io_bind (io_catch (sys_write_all env ?t c) (cleanup env ?t)) (\<lambda>_.
         io_bind (io_ignore (sys_chmod env ?t 0x1A0)) (\<lambda>_.
         io_bind (io_catch (sys_sync env ?t) (cleanup env ?t)) (\<lambda>_.
         io_bind (io_catch (sys_rename env ?t p) (cleanup env ?t)) (\<lambda>_. fsync_parent_dir env p)))) w2 = (r, w')"
      then show "publishes (synced_file env c) ?P ?t p w2 r w'"
      proof (rule publishes_guarded [OF _ write_tmp_neq(3) T])
        show "only_tmp ?P ?t w2 w3 \<and> True" if "sys_write_all env ?t c w2 = (r3, w3)" for r3 w3
          using write_all_step [OF that f2, of ?P] by simp
        fix a3 w3
        assume "sys_write_all env ?t c w2 = (Inr a3, w3)"
        from write_all_step [OF this f2, of ?P] have f3: "lookup_file w3 ?t = Some (scratch env 0x1B6\<lparr>f_bytes := c\<rparr>)"
          by simp
        assume "io_bind (io_ignore (sys_chmod env ?t 0x1A0)) (\<lambda>_.
           io_bind (io_catch (sys_sync env ?t) (cleanup env ?t)) (\<lambda>_.
           io_bind (io_catch (sys_rename env ?t p) (cleanup env ?t)) (\<lambda>_. fsync_parent_dir env p))) w3 = (r, w')"
        then show "publishes (synced_file env c) ?P ?t p w3 r w'"
          by (rule snapshot_tail [OF _ write_tmp_neq(3) f3]) simp_all
      qed
    qed
  qed
qed

interpretation drift_file: atomic_publish write_snapshot_bytes "\<lambda>env w p. write_snapshot_tmp env p" synced_file "\<lambda>_ _. True"
  by unfold_locales (auto intro: write_snapshot_publishes simp: synced_file_def)

section \<open>Properties of the writers\<close>

text \<open>
  C7. \<open>write_atomic\<close> is all or nothing under every schedule of system-call failures. If it returns
  \<open>Ok\<close>, the target holds exactly the new bytes, flushed, mode 0640 and owned by the daemon, the
  scratch file is gone and no other file changed. If it returns an error, no file but the scratch
  file changed. After every single system call the target is the old file or the finished new one,
  so that neither a reader nor a crash ever sees a partial file.
\<close>

theorem write_atomic_all_or_nothing:
  assumes "write_atomic env p c w = (r, w')"
  shows "(is_Ok r \<longrightarrow> lookup_file w' =
            (lookup_file w)(write_atomic_tmp env (seq w) p := None,
                            p \<mapsto> \<lparr>f_bytes = c, f_mode = 0x1A0, f_owner = euid env, f_synced = True\<rparr>))
    \<and> (\<not> is_Ok r \<longrightarrow> (\<forall>q. q \<noteq> write_atomic_tmp env (seq w) p \<longrightarrow> lookup_file w' q = lookup_file w q))
    \<and> (\<exists>ts. trace w' = ts @ trace w
         \<and> (\<forall>s\<in>set ts. map_of s p = lookup_file w p
              \<or> map_of s p = Some \<lparr>f_bytes = c, f_mode = 0x1A0, f_owner = euid env, f_synced = True\<rparr>))"
proof (intro conjI impI)
  assume "is_Ok r"
  then obtain u where "r = Inr u" by (auto simp: is_Ok_conv)
  with assms trust_file.ok_lookup
  show "lookup_file w' = (lookup_file w)(write_atomic_tmp env (seq w) p := None,
          p \<mapsto> \<lparr>f_bytes = c, f_mode = 0x1A0, f_owner = euid env, f_synced = True\<rparr>)"
    unfolding private_file_def by blast
next
  assume "\<not> is_Ok r"
  then obtain e where "r = Inl e" by (cases r) simp_all
  with assms show "\<forall>q. q \<noteq> write_atomic_tmp env (seq w) p \<longrightarrow> lookup_file w' q = lookup_file w q"
    using trust_file.err_keeps [of env p c w e w'] by simp
next
  show "\<exists>ts. trace w' = ts @ trace w \<and> (\<forall>s\<in>set ts. map_of s p = lookup_file w p
      \<or> map_of s p = Some \<lparr>f_bytes = c, f_mode = 0x1A0, f_owner = euid env, f_synced = True\<rparr>)"
    using trust_file.never_torn [OF assms] unfolding private_file_def by metis
qed

lemmas io_defs = io_bind_def io_catch_def io_ignore_def io_ret_def io_err_def

lemmas sys_defs = sys_def sys_create_new_def sys_write_all_def sys_chmod_def sys_sync_def sys_rename_def
  sys_remove_file_def fsync_parent_dir_def

lemma is_dir_simps [simp]:
  "is_dir (commit w) p = is_dir w p" "is_dir (set_file q g w) p = is_dir w p"
  "is_dir (w\<lparr>files := fs\<rparr>) p = is_dir w p" "is_dir (w\<lparr>seq := n\<rparr>) p = is_dir w p"
  by (simp_all add: is_dir_def)

lemma write_atomic_ok:
  assumes "fault env (ticks w) = None" "fault env (ticks w + 1) = None" "fault env (ticks w + 2) = None"
    "fault env (ticks w + 3) = None" "fault env (ticks w + 4) = None"
    and "is_dir w (butlast p)" and "\<not> is_dir w p"
    and "lookup_file w (write_atomic_tmp env (seq w) p) = None"
    and "\<not> is_dir w (write_atomic_tmp env (seq w) p)"
  shows "fst (write_atomic env p c w) = Inr () \<and> ticks (snd (write_atomic env p c w)) = ticks w + 6"
proof -
  obtain t where t: "t = write_atomic_tmp env (seq w) p" by blast
  have "butlast t = butlast p" by (simp add: t write_atomic_tmp_def with_file_name_def)
  then show ?thesis
    using assms unfolding write_atomic_def Let_def t [symmetric]
    by (simp add: io_defs sys_defs eval_nat_numeral split: prod.splits option.splits)
qed

text \<open>
  Without system-call failures, into an existing directory and with a free scratch name,
  \<open>write_atomic\<close> succeeds.
\<close>

theorem write_atomic_succeeds:
  assumes "\<forall>n. fault env n = None" and "is_dir w (butlast p)" and "\<not> is_dir w p"
    and "lookup_file w (write_atomic_tmp env (seq w) p) = None"
    and "\<not> is_dir w (write_atomic_tmp env (seq w) p)"
  shows "fst (write_atomic env p c w) = Inr ()"
  using assms by (intro conjunct1 [OF write_atomic_ok]) simp_all

abbreviation calm_env :: "(nat \<Rightarrow> os_error option) \<Rightarrow> os_env" where
  "calm_env fl \<equiv> \<lparr>fault = fl, partial = (\<lambda>_. 0), umask = 0x12, euid = 7, process_id = 42, now_secs = 0\<rparr>"

abbreviation demo_world :: world where
  "demo_world \<equiv> \<lparr>files = [([''d'', ''f''], \<lparr>f_bytes = ''old'', f_mode = 0x1A0, f_owner = 7, f_synced = True\<rparr>)],
     dirs = [([''d''], 0x1E8)], ticks = 0, seq = 0, trace = []\<rparr>"

lemma demo_tmp_free:
  "lookup_file demo_world (write_atomic_tmp (calm_env fl) n [''d'', ''f'']) = None"
  "\<not> is_dir demo_world (write_atomic_tmp (calm_env fl) n [''d'', ''f''])"
  by (simp_all add: write_atomic_tmp_def with_file_name_def file_name_def is_dir_def)

theorem write_atomic_succeeds_witness:
  "fst (write_atomic (calm_env (\<lambda>_. None)) [''d'', ''f''] ''new'' demo_world) = Inr ()"
  by (rule write_atomic_succeeds) (simp_all add: demo_tmp_free, simp_all add: is_dir_def)

theorem write_atomic_all_or_nothing_witness:
  "lookup_file (snd (write_atomic (calm_env (\<lambda>_. Some (EOther 28))) [''d'', ''f''] ''new'' demo_world)) [''d'', ''f'']
     = Some \<lparr>f_bytes = ''old'', f_mode = 0x1A0, f_owner = 7, f_synced = True\<rparr>"
proof -
  let ?e = "calm_env (\<lambda>_. Some (EOther 28))" and ?p = "[''d'', ''f'']"
  have "\<not> is_Ok (fst (write_atomic ?e ?p ''new'' demo_world))"
    by (simp add: write_atomic_def Let_def io_defs sys_defs)
  with write_atomic_all_or_nothing [of ?e ?p "''new''" demo_world, OF prod.collapse [symmetric]]
  have "\<forall>q. q \<noteq> write_atomic_tmp ?e (seq demo_world) ?p
      \<longrightarrow> lookup_file (snd (write_atomic ?e ?p ''new'' demo_world)) q = lookup_file demo_world q" by blast
  from mp [OF spec [OF this] write_tmp_neq(1) [symmetric]] show ?thesis by simp
qed

section \<open>A scratch file that stays behind\<close>

lemma mkdirs_existing: "\<forall>q\<in>set qs. is_dir w q \<Longrightarrow> mkdirs env p qs w = (Inr (), w)"
  by (induction qs) auto


text \<open>
  The corpus writer does not remove its scratch file when the final rename fails, and the
  scratch name depends on the process only. If the rename of one refresh fails, every later refresh
  of the same process fails with \<open>EEXIST\<close>, even when no further call fails.
\<close>

theorem write_atoms_stuck:
  assumes "\<forall>n. fault env n = (if n = ticks w + 5 then Some e else None)" and "p \<noteq> []"
    and "\<forall>q\<in>set (prefixes (butlast p)). is_dir w q"
    and "lookup_file w (write_atoms_tmp env p) = None" and "\<not> is_dir w (write_atoms_tmp env p)"
  shows "fst (write_atoms_bytes env p c w) = Inl e
    \<and> fst (write_atoms_bytes env p c' (snd (write_atoms_bytes env p c w))) = Inl EAlreadyExists"
proof -
  obtain t where t: "t = write_atoms_tmp env p" by blast
  have b: "butlast t = butlast p" "t \<noteq> p"
    using write_tmp_neq(2) [of env p] by (simp_all add: t write_atoms_tmp_def with_file_name_def)
  have d: "is_dir w (butlast p)" using assms(3) by simp
  have first: "(case p of [] \<Rightarrow> io_ret () | _ \<Rightarrow> sys_create_dir_all env (butlast p)) = sys_create_dir_all env (butlast p)"
    using assms(2) by (cases p) simp_all
  have mk: "mkdirs env d (prefixes (butlast p)) v = (Inr (), v)" if "dirs v = dirs w" for v d
    using assms(3) that by (intro mkdirs_existing) (simp add: is_dir_def)
  show ?thesis
    using assms(1,4,5) b d unfolding write_atoms_bytes_def Let_def first t [symmetric]
    by (simp add: io_defs sys_defs sys_create_dir_all_def mk)
qed

theorem write_atoms_stuck_witness:
  "fst (write_atoms_bytes (calm_env (\<lambda>n. if n = 5 then Some (EOther 28) else None)) [''d'', ''f''] ''x''
     (demo_world\<lparr>dirs := [([], 0x1ED), ([''d''], 0x1E8)]\<rparr>)) = Inl (EOther 28)"
  by (rule conjunct1 [OF write_atoms_stuck])
    (simp_all add: is_dir_def write_atoms_tmp_def with_file_name_def file_name_def)

section \<open>What the sweep removes\<close>

definition sweepable :: "path \<Rightarrow> path \<Rightarrow> bool" where
  "sweepable data_root q \<longleftrightarrow>
     q \<noteq> [] \<and> str_contains ''.tmp.'' (last q) \<and> butlast q \<noteq> [] \<and> butlast (butlast q) = data_root"

definition sweeps :: "path \<Rightarrow> world \<Rightarrow> world \<Rightarrow> bool" where
  "sweeps r w w' \<longleftrightarrow> dirs w' = dirs w
     \<and> (\<forall>q. lookup_file w' q = lookup_file w q \<or> (lookup_file w' q = None \<and> sweepable r q))"

lemma sweeps_refl [simp]: "sweeps r w w"
  by (simp add: sweeps_def)

lemma sweeps_trans: "sweeps r w w' \<Longrightarrow> sweeps r w' w'' \<Longrightarrow> sweeps r w w''"
  unfolding sweeps_def by metis

lemma sweeps_commit [simp]: "sweeps r w (commit w)"
  by (simp add: sweeps_def)

lemma sweeps_fold:
  assumes "\<And>x w. x \<in> set xs \<Longrightarrow> sweeps r w (f x w)"
  shows "sweeps r w (fold f xs w)"
  using assms by (induction xs arbitrary: w) (auto intro: sweeps_trans)

lemma remove_file_sweeps: "sweepable r q \<Longrightarrow> sweeps r w (snd (sys_remove_file env q w))"
  by (auto simp: sweeps_def sys_remove_file_def sys_def split: option.splits)

lemma read_dir_entries:
  "sys_read_dir env d w = (Inr es, w') \<Longrightarrow> w' = commit w
     \<and> es = filter (\<lambda>q. q \<noteq> [] \<and> butlast q = d) (map fst (dirs w) @ map fst (files w))"
  by (auto simp: sys_read_dir_def sys_def split: option.splits if_splits)

lemma read_dir_err: "sys_read_dir env d w = (Inl e, w') \<Longrightarrow> w' = commit w"
  by (auto simp: sys_read_dir_def sys_def split: option.splits if_splits)

lemma sweep_file_sweeps:
  assumes "d \<noteq> []" and "butlast d = r" and "butlast q = d"
  shows "sweeps r w (sweep_file env q w)"
  using assms remove_file_sweeps [of r q w env] by (auto simp: sweep_file_def sweepable_def)

lemma sweep_dir_sweeps:
  assumes "d \<noteq> []" and "butlast d = r"
  shows "sweeps r w (sweep_dir env d w)"
proof (cases "sys_read_dir env d (commit w)")
  case (Pair res w2)
  show ?thesis
  proof (cases res)
    case (Inl e)
    with Pair read_dir_err [of env d "commit w"] show ?thesis
      by (auto simp: sweep_dir_def intro: sweeps_trans [OF sweeps_commit sweeps_commit])
  next
    case (Inr es)
    note e = read_dir_entries [OF Pair [unfolded Inr]]
    have "sweeps r v (sweep_file env q v)" if "q \<in> set es" for q v
      using e assms that by (intro sweep_file_sweeps [of d]) auto
    then have "sweeps r w2 (fold (sweep_file env) es w2)" by (rule sweeps_fold)
    then have "sweeps r w (fold (sweep_file env) es w2)"
      using e by (auto intro: sweeps_trans [OF sweeps_commit] sweeps_trans [OF sweeps_trans [OF sweeps_commit sweeps_commit]])
    with Pair Inr show ?thesis by (auto simp: sweep_dir_def)
  qed
qed

lemma sweeps_None: "sweeps r w w' \<Longrightarrow> lookup_file w q = None \<Longrightarrow> lookup_file w' q = None"
  unfolding sweeps_def by metis

text \<open>One element of the fold removes the file, and no later one brings it back.\<close>

lemma fold_sweeps_removes:
  assumes "x \<in> set xs" and "\<And>y v. y \<in> set xs \<Longrightarrow> sweeps r v (f y v)"
    and "\<And>v. dirs v = dirs w \<Longrightarrow> lookup_file (f x v) q = None"
  shows "lookup_file (fold f xs w) q = None"
proof -
  from split_list [OF assms(1)] obtain as bs where xs: "xs = as @ x # bs" by blast
  have 1: "sweeps r w (fold f as w)" by (rule sweeps_fold) (simp add: assms(2) xs)
  then have "lookup_file (f x (fold f as w)) q = None" by (intro assms(3)) (simp add: sweeps_def)
  moreover have "sweeps r (f x (fold f as w)) (fold f bs (f x (fold f as w)))"
    by (rule sweeps_fold) (simp add: assms(2) xs)
  ultimately show ?thesis using sweeps_None by (auto simp: xs)
qed

lemma sweep_dir_removes:
  assumes "\<forall>n. fault env n = None" and "is_dir v d" and "sweepable r q" and "butlast q = d"
  shows "lookup_file (sweep_dir env d v) q = None"
proof (cases "lookup_file v q")
  case None
  have "sweeps r v (sweep_dir env d v)" using assms(3,4) by (intro sweep_dir_sweeps) (auto simp: sweepable_def)
  with None show ?thesis by (rule sweeps_None [rotated])
next
  case (Some f)
  let ?es = "filter (\<lambda>q. q \<noteq> [] \<and> butlast q = d) (map fst (dirs v) @ map fst (files v))"
  have rd: "sys_read_dir env d (commit v) = (Inr ?es, commit (commit v))"
    using assms(1,2) by (simp add: sys_read_dir_def sys_def)
  have "q \<in> set ?es" using map_of_SomeD [OF Some] assms(3,4) by (force simp: sweepable_def)
  moreover have "sweeps r u (sweep_file env y u)" if "y \<in> set ?es" for y u
    using that assms(3,4) by (intro sweep_file_sweeps [of d]) (auto simp: sweepable_def)
  moreover have "lookup_file (sweep_file env q u) q = None" for u
    using assms(1,3) by (auto simp: sweep_file_def sweepable_def sys_remove_file_def sys_def split: option.splits)
  ultimately have "lookup_file (fold (sweep_file env) ?es (commit (commit v))) q = None"
    by (rule fold_sweeps_removes)
  with rd assms(1,2) show ?thesis by (simp add: sweep_dir_def)
qed

text \<open>
  The start-up sweep removes nothing but files whose name contains \<open>.tmp.\<close> directly inside a
  directory directly below the data root, whatever calls fail; without failures it removes all of
  them.
\<close>

theorem sweep_exact:
  "(lookup_file (sweep_stale_tmp_files env r w) q = lookup_file w q
      \<or> (lookup_file (sweep_stale_tmp_files env r w) q = None \<and> sweepable r q))
   \<and> ((\<forall>n. fault env n = None) \<and> sweepable r q \<and> is_dir w r \<and> is_dir w (butlast q)
       \<longrightarrow> lookup_file (sweep_stale_tmp_files env r w) q = None)"
proof (cases "sys_read_dir env r w")
  case (Pair res w1)
  show ?thesis
  proof (cases res)
    case (Inl e)
    with Pair have "sweep_stale_tmp_files env r w = commit w"
      by (simp add: sweep_stale_tmp_files_def read_dir_err)
    moreover have "fault env (ticks w) \<noteq> None \<or> \<not> is_dir w r"
      using Pair Inl by (auto simp: sys_read_dir_def sys_def split: option.splits)
    ultimately show ?thesis by auto
  next
    case (Inr es)
    note e = read_dir_entries [OF Pair [unfolded Inr]]
    have sw: "sweep_stale_tmp_files env r w = fold (sweep_dir env) es (commit w)"
      using Pair Inr e by (simp add: sweep_stale_tmp_files_def)
    have each: "sweeps r v (sweep_dir env d v)" if "d \<in> set es" for d v
      using that e by (intro sweep_dir_sweeps) auto
    have "sweeps r w (fold (sweep_dir env) es (commit w))"
      by (rule sweeps_trans [OF sweeps_commit sweeps_fold]) (rule each)
    then have 1: "lookup_file (fold (sweep_dir env) es (commit w)) q = lookup_file w q
        \<or> (lookup_file (fold (sweep_dir env) es (commit w)) q = None \<and> sweepable r q)"
      by (simp add: sweeps_def)
    have 2: "lookup_file (fold (sweep_dir env) es (commit w)) q = None"
      if h: "\<forall>n. fault env n = None" "sweepable r q" "is_dir w (butlast q)"
    proof (rule fold_sweeps_removes [where x = "butlast q"])
      show "butlast q \<in> set es" using h e by (force simp: sweepable_def is_dir_def dest: map_of_SomeD)
      show "lookup_file (sweep_dir env (butlast q) v) q = None" if "dirs v = dirs (commit w)" for v
        using that h by (intro sweep_dir_removes [of env v "butlast q" r]) (auto simp: is_dir_def)
    qed (rule each)
    show ?thesis unfolding sw using 1 2 by blast
  qed
qed

theorem sweep_exact_witness:
  "lookup_file (sweep_stale_tmp_files (calm_env (\<lambda>_. None)) [''u'']
     \<lparr>files = [([''u'', ''7'', ''a.tmp.9.0''], \<lparr>f_bytes = [], f_mode = 0, f_owner = 7, f_synced = False\<rparr>)],
      dirs = [([''u''], 0), ([''u'', ''7''], 0)], ticks = 0, seq = 0, trace = []\<rparr>) [''u'', ''7'', ''a.tmp.9.0''] = None"
proof -
  have "str_contains ''.tmp.'' ''a.tmp.9.0''" by code_simp
  then show ?thesis by (intro conjunct2 [OF sweep_exact, THEN mp]) (simp add: sweepable_def is_dir_def)
qed

end
