(* ===== verification/Atom_Pins.thy ===== *)
theory Atom_Pins
  imports Fs_World Sanitize
begin

text \<open>
  The atom fetcher's types and its pin file (\<open>atom_fetcher/mod.rs\<close>, \<open>atom_fetcher/pins.rs\<close>): sources, the
  operator's commit pins, the errors of a fetch, and the loading of the pin file behind its permission gate.
  The TOML parser is the parameter \<open>toml\<close>. The time-out and the user agent of the configuration are only
  handed to the HTTP client and are left out of \<open>fetcher_config\<close>. The builds modelled are the ones with the
  \<open>atoms-fetch\<close> feature; without it every operation here answers \<open>FeatureNotBuilt\<close> or no pins.
\<close>

unbundle bit_operations_syntax

section \<open>Types\<close>

datatype SourceId = Gtfobins | Sigma

definition source_parse :: "string \<Rightarrow> SourceId option" where
  "source_parse s = (if s = ''gtfobins'' then Some Gtfobins else if s = ''sigma'' then Some Sigma else None)"

fun source_name :: "SourceId \<Rightarrow> string" where
  "source_name Gtfobins = ''gtfobins''"
| "source_name Sigma = ''sigma''"

fun source_repo :: "SourceId \<Rightarrow> string" where
  "source_repo Gtfobins = ''GTFOBins/GTFOBins.github.io''"
| "source_repo Sigma = ''SigmaHQ/sigma''"

definition default_enabled :: "SourceId list" where
  "default_enabled = [Gtfobins, Sigma]"

record pin_entry =
  pin_commit :: string
  pin_sha256 :: string

record atom_pins =
  pins_gtfobins :: "pin_entry option"
  pins_sigma :: "pin_entry option"

definition tarball_url :: "pin_entry \<Rightarrow> string \<Rightarrow> string" where
  "tarball_url p owner_repo = ''https://codeload.github.com/'' @ owner_repo @ ''/tar.gz/'' @ pin_commit p"

text \<open>The errors carry what their messages print.\<close>

datatype net_reason = HttpFailed string | TarballTooLarge string nat

datatype decompress_reason = TarEntries | TarEntry | DeclaredTotal | DeclaredEntry u64

datatype parse_reason =
    PinStat os_error
  | PinNotRegular
  | PinOwner u32 u32
  | PinMode u32
  | PinRead os_error
  | PinEmpty
  | PinNotUtf8
  | PinSyntax
  | PinCommit string string
  | PinSha256 string string
  | PinNoEntry
  | AllSourcesFailed
  | AtomCountCap nat
  | AtomCapInWalk

datatype fetch_error =
    FeatureNotBuilt
  | NetworkError net_reason
  | DecompressError decompress_reason
  | ParseError parse_reason
  | WriteError os_error
  | DigestMismatch string string string

record fetcher_config =
  fc_output_path :: path
  fc_pins :: "atom_pins option"

text \<open>\<open>STATE_DIRECTORY\<close> may hold several directories, separated by colons; the first counts.\<close>

definition default_atoms_path :: "string option \<Rightarrow> (string \<Rightarrow> path) \<Rightarrow> path" where
  "default_atoms_path state_dir path_of =
     (case state_dir of
        Some d \<Rightarrow>
          (let first = takeWhile (\<lambda>c. c \<noteq> CHR '':'') d
           in if first \<noteq> [] then path_of first @ [''atoms.system.txt'']
              else path_of ''/var/lib/atty-guard'' @ [''atoms.system.txt''])
      | None \<Rightarrow> path_of ''/var/lib/atty-guard'' @ [''atoms.system.txt''])"

section \<open>The pin file\<close>

definition is_hexdigit :: "char \<Rightarrow> bool" where
  "is_hexdigit c \<longleftrightarrow> is_digit c \<or> (97 \<le> byte_of c \<and> byte_of c \<le> (102::nat)) \<or> (65 \<le> byte_of c \<and> byte_of c \<le> (70::nat))"

definition is_ascii_whitespace :: "char \<Rightarrow> bool" where
  "is_ascii_whitespace c \<longleftrightarrow> c \<in> set [CHR 0x20, TAB, NL, CHR 0x0C, CR]"

definition check_pin_file_perms :: "u32 \<Rightarrow> u32 \<times> u32 \<Rightarrow> (fetch_error, unit) result" where
  "check_pin_file_perms expected_uid meta =
     (case meta of (uid, m) \<Rightarrow>
        if uid \<noteq> expected_uid then Inl (ParseError (PinOwner uid expected_uid))
        else let mo = m AND 0x1FF
             in if mo AND 0x12 \<noteq> 0 then Inl (ParseError (PinMode mo)) else Inr ())"

definition check_pin_entry :: "string \<Rightarrow> pin_entry \<Rightarrow> (fetch_error, unit) result" where
  "check_pin_entry label entry =
     (if length (pin_commit entry) \<noteq> 40 \<or> \<not> list_all is_hexdigit (pin_commit entry)
      then Inl (ParseError (PinCommit label (pin_commit entry)))
      else if length (pin_sha256 entry) \<noteq> 64 \<or> \<not> list_all is_hexdigit (pin_sha256 entry)
      then Inl (ParseError (PinSha256 label (pin_sha256 entry)))
      else Inr ())"

definition validate_pins :: "atom_pins \<Rightarrow> (fetch_error, unit) result" where
  "validate_pins pins =
     (case (case pins_gtfobins pins of Some g \<Rightarrow> check_pin_entry ''gtfobins'' g | None \<Rightarrow> Inr ()) of
        Inl e \<Rightarrow> Inl e
      | Inr _ \<Rightarrow> (case pins_sigma pins of Some s \<Rightarrow> check_pin_entry ''sigma'' s | None \<Rightarrow> Inr ()))"

text \<open>What is decided from the bytes of the file.\<close>

definition parse_pins :: "(string \<Rightarrow> atom_pins option) \<Rightarrow> string \<Rightarrow> (fetch_error, atom_pins) result" where
  "parse_pins toml bytes =
     (if list_all is_ascii_whitespace bytes then Inl (ParseError PinEmpty)
      else if \<not> utf8_valid bytes then Inl (ParseError PinNotUtf8)
      else case toml bytes of
             None \<Rightarrow> Inl (ParseError PinSyntax)
           | Some pins \<Rightarrow>
               (case validate_pins pins of
                  Inl e \<Rightarrow> Inl e
                | Inr _ \<Rightarrow> if pins_gtfobins pins = None \<and> pins_sigma pins = None
                           then Inl (ParseError PinNoEntry) else Inr pins))"

definition load_pins_with_owner ::
    "os_env \<Rightarrow> (string \<Rightarrow> atom_pins option) \<Rightarrow> path \<Rightarrow> u32 \<Rightarrow> (fetch_error, atom_pins option) io" where
  "load_pins_with_owner env toml p expected_uid w =
     (case sys_metadata env p w of
        (Inl ENotFound, w1) \<Rightarrow> (Inr None, w1)
      | (Inl e, w1) \<Rightarrow> (Inl (ParseError (PinStat e)), w1)
      | (Inr meta, w1) \<Rightarrow>
          if lookup_file w p = None then (Inl (ParseError PinNotRegular), w1)
          else case check_pin_file_perms expected_uid meta of
                 Inl e \<Rightarrow> (Inl e, w1)
               | Inr _ \<Rightarrow>
                   (case sys_read env p w1 of
                      (Inl e, w2) \<Rightarrow> (Inl (ParseError (PinRead e)), w2)
                    | (Inr bytes, w2) \<Rightarrow>
                        (case parse_pins toml bytes of Inl e \<Rightarrow> (Inl e, w2) | Inr pins \<Rightarrow> (Inr (Some pins), w2))))"

definition load_pins :: "os_env \<Rightarrow> (string \<Rightarrow> atom_pins option) \<Rightarrow> path \<Rightarrow> (fetch_error, atom_pins option) io" where
  "load_pins env toml p = load_pins_with_owner env toml p 0"

definition default_with_pins_from ::
    "os_env \<Rightarrow> (string \<Rightarrow> atom_pins option) \<Rightarrow> path \<Rightarrow> path \<Rightarrow> (fetch_error, fetcher_config) io" where
  "default_with_pins_from env toml out p =
     io_bind (load_pins env toml p) (\<lambda>pins. io_ret \<lparr>fc_output_path = out, fc_pins = pins\<rparr>)"

fun pin_of :: "atom_pins option \<Rightarrow> SourceId \<Rightarrow> pin_entry option" where
  "pin_of None sid = None"
| "pin_of (Some p) Gtfobins = pins_gtfobins p"
| "pin_of (Some p) Sigma = pins_sigma p"

section \<open>The gate\<close>

definition pin_ok :: "pin_entry \<Rightarrow> bool" where
  "pin_ok e \<longleftrightarrow> length (pin_commit e) = 40 \<and> length (pin_sha256 e) = 64
     \<and> list_all is_hexdigit (pin_commit e @ pin_sha256 e)"

lemma check_pin_entry_Ok: "check_pin_entry l e = Inr u \<longleftrightarrow> pin_ok e"
  by (auto simp: check_pin_entry_def pin_ok_def)

lemma all_sources: "(\<forall>sid. P sid) \<longleftrightarrow> P Gtfobins \<and> P Sigma"
  by (metis SourceId.exhaust)

lemma ex_source: "(\<exists>sid. P sid) \<longleftrightarrow> P Gtfobins \<or> P Sigma"
  using all_sources [of "\<lambda>sid. \<not> P sid"] by blast

lemma validate_pins_Ok:
  "validate_pins pins = Inr u \<longleftrightarrow> (\<forall>sid e. pin_of (Some pins) sid = Some e \<longrightarrow> pin_ok e)"
proof -
  have "(case check_pin_entry l e of Inl x \<Rightarrow> Inl x | Inr v \<Rightarrow> k) = Inr () \<longleftrightarrow> pin_ok e \<and> k = Inr ()" for l e and k :: "(fetch_error, unit) result"
    using check_pin_entry_Ok [of l e "()"] by (cases "check_pin_entry l e") auto
  then show ?thesis
    by (cases "pins_gtfobins pins"; cases "pins_sigma pins")
       (simp_all add: validate_pins_def all_sources check_pin_entry_Ok)
qed

lemma parse_pins_Ok:
  assumes "parse_pins toml bytes = Inr pins"
  shows "(\<forall>sid e. pin_of (Some pins) sid = Some e \<longrightarrow> pin_ok e) \<and> (\<exists>sid. pin_of (Some pins) sid \<noteq> None)
    \<and> toml bytes = Some pins \<and> utf8_valid bytes"
proof -
  from assms have a: "utf8_valid bytes" "toml bytes = Some pins" "validate_pins pins = Inr ()"
      "pins_gtfobins pins \<noteq> None \<or> pins_sigma pins \<noteq> None"
    by (auto simp: parse_pins_def split: if_splits option.splits sum.splits)
  then have "\<exists>sid. pin_of (Some pins) sid \<noteq> None" by (simp add: ex_source)
  with a(1,2) validate_pins_Ok [THEN iffD1, OF a(3)] show ?thesis by blast
qed

text \<open>Loading answers "no pins" only for an absent file, and pins only from a file that passes the gate.\<close>

lemma load_pins_gate:
  assumes "load_pins env toml p w = (r, w')"
  shows "files w' = files w \<and> dirs w' = dirs w
    \<and> (case r of
        Inl _ \<Rightarrow> True
      | Inr None \<Rightarrow> fault env (ticks w) = Some ENotFound \<or> (lookup_file w p = None \<and> \<not> is_dir w p)
      | Inr (Some pins) \<Rightarrow>
          (\<exists>f. lookup_file w p = Some f \<and> f_owner f = 0 \<and> f_mode f AND 0x12 = 0 \<and> toml (f_bytes f) = Some pins)
          \<and> (\<exists>sid. pin_of (Some pins) sid \<noteq> None) \<and> (\<forall>sid e. pin_of (Some pins) sid = Some e \<longrightarrow> pin_ok e))"
proof (cases "sys_metadata env p w")
  case (Pair q w1)
  have w1: "files w1 = files w" "dirs w1 = dirs w" using Pair
    by (auto simp: sys_metadata_def sys_def commit_def split: option.splits)
  show ?thesis
  proof (cases q)
    case (Inl e)
    with Pair assms w1 show ?thesis
      by (cases e) (auto simp: load_pins_def load_pins_with_owner_def sys_metadata_def sys_def is_dir_def split: option.splits)
  next
    case (Inr meta)
    show ?thesis
    proof (cases "lookup_file w p")
      case None
      with Pair Inr assms w1 show ?thesis by (auto simp: load_pins_def load_pins_with_owner_def)
    next
      case (Some f)
      then have meta: "meta = (f_owner f, f_mode f)" using Pair Inr
        by (auto simp: sys_metadata_def sys_def split: option.splits)
      obtain q2 w2 where rd: "sys_read env p w1 = (q2, w2)" by (cases "sys_read env p w1")
      then have w2: "files w2 = files w" "dirs w2 = dirs w" "q2 = Inr bs \<Longrightarrow> bs = f_bytes f" for bs
        using w1 Some by (auto simp: sys_read_def sys_def commit_def split: option.splits)
      from assms Pair Inr Some meta rd
      have "(r, w') = (case check_pin_file_perms 0 (f_owner f, f_mode f) of Inl e \<Rightarrow> (Inl e, w1)
          | Inr _ \<Rightarrow> (case q2 of Inl e \<Rightarrow> (Inl (ParseError (PinRead e)), w2)
               | Inr bytes \<Rightarrow> (case parse_pins toml bytes of Inl e \<Rightarrow> (Inl e, w2) | Inr pins \<Rightarrow> (Inr (Some pins), w2))))"
        by (cases "check_pin_file_perms 0 (f_owner f, f_mode f)"; cases q2) (simp_all add: load_pins_def load_pins_with_owner_def)
      with w1 w2 Some parse_pins_Ok [of toml "f_bytes f"] show ?thesis
        by (auto simp: check_pin_file_perms_def Let_def gate_bits split: if_splits sum.splits)
    qed
  qed
qed

end
