(* ===== verification/Atom_Extract.thy ===== *)
theory Atom_Extract
  imports Atom_Pins
begin

text \<open>
  Extraction of atoms from an upstream tarball (\<open>atom_fetcher/extr.rs\<close>): the walk with its caps, the path
  filters, the two source parsers and the atom rules. The gzip and tar readers are the parameter \<open>untar\<close>, the
  YAML parser the parameter \<open>yaml_of\<close>; \<open>yaml\<close> is the value type its interface documents. A \<open>BTreeSet\<close> is a
  list without repetitions, sorted when it is iterated.
\<close>

section \<open>YAML values\<close>

datatype yaml =
    YNull
  | YBool bool
  | YNumber string
  | YString string
  | YSeq "yaml list"
  | YMap "(yaml \<times> yaml) list"
  | YTagged string yaml

fun untag :: "yaml \<Rightarrow> yaml" where
  "untag (YTagged _ v) = untag v"
| "untag v = v"

definition yaml_mapping :: "yaml \<Rightarrow> (yaml \<times> yaml) list option" where
  "yaml_mapping v = (case untag v of YMap m \<Rightarrow> Some m | _ \<Rightarrow> None)"

definition yaml_sequence :: "yaml \<Rightarrow> yaml list option" where
  "yaml_sequence v = (case untag v of YSeq xs \<Rightarrow> Some xs | _ \<Rightarrow> None)"

definition yaml_str :: "yaml \<Rightarrow> string option" where
  "yaml_str v = (case untag v of YString s \<Rightarrow> Some s | _ \<Rightarrow> None)"

definition yaml_get :: "string \<Rightarrow> yaml \<Rightarrow> yaml option" where
  "yaml_get key v = Option.bind (yaml_mapping v) (\<lambda>m. map_option snd (find (\<lambda>kv. fst kv = YString key) m))"

section \<open>Atom rules\<close>

text \<open>\<open>ATOM_MAX_LEN\<close> and \<open>ATOM_MIN_LEN\<close> have the values of the trust store's constants of the same name.\<close>

definition ascii_lowercase :: "string \<Rightarrow> string" where
  "ascii_lowercase = List.map (\<lambda>c. if 65 \<le> byte_of c \<and> byte_of c \<le> (90::nat) then char_of (byte_of c + 32 :: nat) else c)"

definition common_commands :: "string list" where
  "common_commands =
     [''ls'', ''cd'', ''cp'', ''mv'', ''rm'', ''cat'', ''echo'', ''pwd'', ''env'', ''set'', ''git'', ''ssh'', ''scp'',
      ''top'', ''ps'', ''df'', ''du'', ''man'', ''vi'', ''vim'', ''nano'', ''npm'', ''pip'', ''cargo'', ''make'', ''sudo'',
      ''sh'', ''bash'', ''zsh'', ''tar'', ''gzip'', ''curl'', ''wget'', ''grep'', ''sed'', ''awk'', ''find'', ''kill'',
      ''chmod'', ''chown'', ''export'', ''source'', ''which'', ''whoami'', ''ln'', ''touch'', ''mkdir'']"

definition is_low_value_atom :: "string \<Rightarrow> bool" where
  "is_low_value_atom atom =
     (if list_ex (\<lambda>ch. ch \<in> set ws_chars) (utf8_chars atom) then False
      else if ascii_lowercase atom \<in> set common_commands then True
      else let has_structure = list_ex (\<lambda>c. c \<in> set ''/-|=.:$(;'') atom
           in length atom < 5 \<and> \<not> has_structure)"

definition accept_line :: "(string \<Rightarrow> bool) \<Rightarrow> string \<Rightarrow> string option" where
  "accept_line alnum t =
     (let clean = str_trim (case str_find '' #'' t of Some i \<Rightarrow> take i t | None \<Rightarrow> t)
      in if length clean < ATOM_MIN_LEN \<or> ATOM_MAX_LEN < length clean then None
         else if starts_with ''#'' clean then None
         else if is_placeholder_atom alnum clean then None
         else if is_low_value_atom clean then None
         else Some clean)"

fun atom_from_lines :: "(string \<Rightarrow> bool) \<Rightarrow> string list \<Rightarrow> string option" where
  "atom_from_lines alnum [] = None"
| "atom_from_lines alnum (l # ls) =
     (let t = str_trim l in if t = [] then atom_from_lines alnum ls else accept_line alnum t)"

definition atom_from_code :: "(string \<Rightarrow> bool) \<Rightarrow> string \<Rightarrow> string option" where
  "atom_from_code alnum code = atom_from_lines alnum (str_lines code)"

definition add_atom_from :: "(string \<Rightarrow> bool) \<Rightarrow> string \<Rightarrow> string hashset \<Rightarrow> string hashset" where
  "add_atom_from alnum code atoms =
     (case atom_from_code alnum code of Some a \<Rightarrow> hs_insert a atoms | None \<Rightarrow> atoms)"

section \<open>The two sources\<close>

definition front_matter :: "string \<Rightarrow> string option" where
  "front_matter content =
     (let stripped = (if starts_with (''---'' @ [NL]) content then Some (drop 4 content)
                      else if starts_with (''---'' @ [CR, NL]) content then Some (drop 5 content) else None)
      in map_option (\<lambda>rest.
           case str_find (NL # ''---'' @ [NL]) rest of
             Some i \<Rightarrow> take i rest
           | None \<Rightarrow> (case str_find (NL # ''---'' @ [CR, NL]) rest of Some i \<Rightarrow> take i rest | None \<Rightarrow> rest)) stripped)"

definition gtfobins_entry :: "(string \<Rightarrow> bool) \<Rightarrow> yaml \<Rightarrow> string hashset \<Rightarrow> string hashset" where
  "gtfobins_entry alnum entry atoms =
     (case Option.bind (yaml_get ''code'' entry) yaml_str of
        Some code \<Rightarrow> add_atom_from alnum code atoms | None \<Rightarrow> atoms)"

definition gtfobins_function :: "(string \<Rightarrow> bool) \<Rightarrow> yaml \<times> yaml \<Rightarrow> string hashset \<Rightarrow> string hashset" where
  "gtfobins_function alnum f atoms =
     (case yaml_sequence (snd f) of Some arr \<Rightarrow> fold (gtfobins_entry alnum) arr atoms | None \<Rightarrow> atoms)"

definition extract_gtfobins_atoms ::
    "(string \<Rightarrow> yaml option) \<Rightarrow> (string \<Rightarrow> bool) \<Rightarrow> string \<Rightarrow> string hashset \<Rightarrow> string hashset" where
  "extract_gtfobins_atoms yaml_of alnum content atoms =
     (case front_matter content of
        None \<Rightarrow> atoms
      | Some y \<Rightarrow>
          (case Option.bind (Option.bind (yaml_of y) (yaml_get ''functions'')) yaml_mapping of
             Some funcs \<Rightarrow> fold (gtfobins_function alnum) funcs atoms
           | None \<Rightarrow> atoms))"

definition sigma_value :: "(string \<Rightarrow> bool) \<Rightarrow> yaml \<Rightarrow> string hashset \<Rightarrow> string hashset" where
  "sigma_value alnum v atoms =
     (case yaml_str v of Some s \<Rightarrow> add_atom_from alnum s atoms | None \<Rightarrow> atoms)"

definition sigma_field :: "(string \<Rightarrow> bool) \<Rightarrow> yaml \<times> yaml \<Rightarrow> string hashset \<Rightarrow> string hashset" where
  "sigma_field alnum kv atoms =
     (case yaml_str (fst kv) of
        None \<Rightarrow> atoms
      | Some ks \<Rightarrow>
          if \<not> str_contains ''|contains'' ks then atoms
          else case yaml_str (snd kv) of
                 Some s \<Rightarrow> add_atom_from alnum s atoms
               | None \<Rightarrow> (case yaml_sequence (snd kv) of
                            Some vs \<Rightarrow> fold (sigma_value alnum) vs atoms | None \<Rightarrow> atoms))"

definition sigma_selector :: "(string \<Rightarrow> bool) \<Rightarrow> yaml \<times> yaml \<Rightarrow> string hashset \<Rightarrow> string hashset" where
  "sigma_selector alnum kv atoms =
     (if yaml_str (fst kv) = Some ''condition'' then atoms
      else case yaml_mapping (snd kv) of
             Some m \<Rightarrow> fold (sigma_field alnum) m atoms | None \<Rightarrow> atoms)"

definition extract_sigma_atoms ::
    "(string \<Rightarrow> yaml option) \<Rightarrow> (string \<Rightarrow> bool) \<Rightarrow> string \<Rightarrow> string hashset \<Rightarrow> string hashset" where
  "extract_sigma_atoms yaml_of alnum content atoms =
     (case Option.bind (Option.bind (yaml_of content) (yaml_get ''detection'')) yaml_mapping of
        Some detection \<Rightarrow> fold (sigma_selector alnum) detection atoms
      | None \<Rightarrow> atoms)"

section \<open>Paths\<close>

text \<open>The components of a path as the standard library splits it: repeated and inner \<open>.\<close> separators vanish.\<close>

datatype component = RootDir | CurDir | ParentDir | Normal string

fun split_slash :: "string \<Rightarrow> string list" where
  "split_slash [] = [[]]"
| "split_slash (c # cs) =
     (if c = CHR ''/'' then [] # split_slash cs
      else case split_slash cs of [] \<Rightarrow> [[c]] | p # ps \<Rightarrow> (c # p) # ps)"

definition path_components :: "string \<Rightarrow> component list" where
  "path_components p =
     (let parts = split_slash p;
          named = (\<lambda>s. if s = ''..'' then ParentDir else Normal s);
          inner = (\<lambda>ps. List.map named (filter (\<lambda>s. s \<noteq> [] \<and> s \<noteq> ''.'') ps))
      in if starts_with ''/'' p then RootDir # inner parts
         else if hd parts = ''.'' then CurDir # inner (tl parts)
         else inner parts)"

definition parent_components :: "component list \<Rightarrow> component list option" where
  "parent_components cs = (if cs = [] \<or> last cs = RootDir then None else Some (butlast cs))"

definition last_name :: "component list \<Rightarrow> string option" where
  "last_name cs = (if cs = [] then None else case last cs of Normal n \<Rightarrow> Some n | _ \<Rightarrow> None)"

record tar_entry =
  te_path :: "string option" \<comment> \<open>\<open>None\<close> when the header's path is unusable\<close>
  te_is_file :: bool
  te_size :: u64 \<comment> \<open>declared in the header, 0 when unreadable\<close>
  te_data :: "string option" \<comment> \<open>\<open>None\<close> when reading it fails\<close>

definition is_gtfobins_entry_file :: "string \<Rightarrow> bool \<Rightarrow> bool" where
  "is_gtfobins_entry_file p is_file =
     (if \<not> is_file then False
      else case parent_components (path_components p) of
             None \<Rightarrow> False
           | Some parent \<Rightarrow> last_name parent = Some ''_gtfobins'')"

definition is_sigma_linux_rule :: "string \<Rightarrow> bool \<Rightarrow> bool" where
  "is_sigma_linux_rule p is_file =
     (if \<not> is_file then False
      else let path_str = from_utf8_lossy p
           in str_contains ''/rules/linux/'' path_str \<and> ends_with ''.yml'' path_str)"

section \<open>The walk\<close>

definition MAX_ATOMS_TOTAL :: nat where "MAX_ATOMS_TOTAL = 10000"
definition TOTAL_DECOMPRESSED_MAX :: u64 where "TOTAL_DECOMPRESSED_MAX = 0x4000000"
definition PER_ENTRY_MAX_BYTES :: u64 where "PER_ENTRY_MAX_BYTES = 0x400000"

text \<open>What \<open>read_to_string\<close> gives for the first \<open>PER_ENTRY_MAX_BYTES\<close> of an entry.\<close>

definition entry_content :: "tar_entry \<Rightarrow> string option" where
  "entry_content e =
     (case te_data e of
        None \<Rightarrow> None
      | Some d \<Rightarrow> let s = take (unat PER_ENTRY_MAX_BYTES) d in if utf8_valid s then Some s else None)"

fun walk_entries ::
    "(string \<Rightarrow> bool \<Rightarrow> bool) \<Rightarrow> (string \<Rightarrow> string hashset \<Rightarrow> string hashset) \<Rightarrow> u64 \<Rightarrow> string hashset
     \<Rightarrow> tar_entry option list \<Rightarrow> (fetch_error, string list) result" where
  "walk_entries pred extr total_bytes atoms [] = Inr (sorted_vec atoms)"
| "walk_entries pred extr total_bytes atoms (None # es) = Inl (DecompressError TarEntry)"
| "walk_entries pred extr total_bytes atoms (Some e # es) =
     (case te_path e of
        None \<Rightarrow> walk_entries pred extr total_bytes atoms es
      | Some p \<Rightarrow>
          let declared = te_size e; total_bytes = sat_add64 total_bytes declared
          in if TOTAL_DECOMPRESSED_MAX < total_bytes then Inl (DecompressError DeclaredTotal)
             else if \<not> pred p (te_is_file e) then walk_entries pred extr total_bytes atoms es
             else if PER_ENTRY_MAX_BYTES < declared then Inl (DecompressError (DeclaredEntry declared))
             else case entry_content e of
                    None \<Rightarrow> walk_entries pred extr total_bytes atoms es
                  | Some content \<Rightarrow>
                      let atoms = extr content atoms
                      in if MAX_ATOMS_TOTAL < length atoms then Inl (ParseError AtomCapInWalk)
                         else walk_entries pred extr total_bytes atoms es)"

definition walk_tarball_atoms ::
    "(string \<Rightarrow> tar_entry option list option) \<Rightarrow> string \<Rightarrow> (string \<Rightarrow> bool \<Rightarrow> bool)
     \<Rightarrow> (string \<Rightarrow> string hashset \<Rightarrow> string hashset) \<Rightarrow> (fetch_error, string list) result" where
  "walk_tarball_atoms untar gz pred extr =
     (case untar gz of None \<Rightarrow> Inl (DecompressError TarEntries) | Some es \<Rightarrow> walk_entries pred extr 0 [] es)"

section \<open>What extraction adds\<close>

text \<open>
  An \<open>adder\<close> puts a fixed set of good elements into any set it is given. The parsers are built from adders by
  iteration, and the walk relies on nothing else of a parser.
\<close>

definition adder :: "('a \<Rightarrow> bool) \<Rightarrow> ('a hashset \<Rightarrow> 'a hashset) \<Rightarrow> bool" where
  "adder good f \<longleftrightarrow> (\<exists>B. (\<forall>a\<in>B. good a) \<and> (\<forall>A. set (f A) = set A \<union> B \<and> (distinct A \<longrightarrow> distinct (f A))))"

lemma adder_id: "adder good (\<lambda>A. A)"
  unfolding adder_def by (rule exI [of _ "{}"]) simp

lemma adder_insert: "good a \<Longrightarrow> adder good (hs_insert a)"
  unfolding adder_def by (rule exI [of _ "{a}"]) simp

lemma adder_comp:
  assumes "adder good f" and "adder good g" shows "adder good (\<lambda>A. g (f A))"
proof -
  from assms obtain B C where "\<forall>a\<in>B. good a" "\<And>A. set (f A) = set A \<union> B \<and> (distinct A \<longrightarrow> distinct (f A))"
      "\<forall>a\<in>C. good a" "\<And>A. set (g A) = set A \<union> C \<and> (distinct A \<longrightarrow> distinct (g A))"
    unfolding adder_def by blast
  then show ?thesis unfolding adder_def by (intro exI [of _ "B \<union> C"]) auto
qed

lemma adder_fold: "(\<And>x. x \<in> set xs \<Longrightarrow> adder good (f x)) \<Longrightarrow> adder good (fold f xs)"
proof (induction xs)
  case (Cons x xs)
  then have "adder good (f x)" "adder good (fold f xs)" by simp_all
  from adder_comp [OF this] show ?case by (simp add: comp_def)
qed (simp add: adder_id id_def)

lemma adder_option:
  "(\<And>x. v = Some x \<Longrightarrow> adder good (f x)) \<Longrightarrow> adder good (\<lambda>A. case v of None \<Rightarrow> A | Some x \<Rightarrow> f x A)"
  by (cases v) (simp_all add: adder_id)

lemma adder_either:
  "(\<And>x. v = Some x \<Longrightarrow> adder good (f x)) \<Longrightarrow> adder good g
   \<Longrightarrow> adder good (\<lambda>A. case v of None \<Rightarrow> g A | Some x \<Rightarrow> f x A)"
  by (cases v) simp_all

lemma adder_unless: "adder good f \<Longrightarrow> adder good (\<lambda>A. if b then A else f A)"
  by (cases b) (simp_all add: adder_id)

lemma adder_set: "adder good f \<Longrightarrow> set (f A) = set A \<union> set (f [])"
  by (auto simp: adder_def)

lemma adder_distinct: "adder good f \<Longrightarrow> distinct A \<Longrightarrow> distinct (f A)"
  by (auto simp: adder_def)

lemma adder_good: "adder good f \<Longrightarrow> a \<in> set (f []) \<Longrightarrow> good a"
  by (auto simp: adder_def)

definition read_entries :: "(string \<Rightarrow> bool \<Rightarrow> bool) \<Rightarrow> tar_entry option list \<Rightarrow> (tar_entry \<times> string) list" where
  "read_entries pred es = List.map_filter (\<lambda>oe. case oe of None \<Rightarrow> None | Some e \<Rightarrow>
     (case te_path e of None \<Rightarrow> None | Some p \<Rightarrow>
        if pred p (te_is_file e) then map_option (Pair e) (entry_content e) else None)) es"

definition declared_sum :: "tar_entry option list \<Rightarrow> nat" where
  "declared_sum es = sum_list (List.map (\<lambda>oe. case oe of None \<Rightarrow> 0 | Some e \<Rightarrow>
     if te_path e = None then 0 else unat (te_size e)) es)"

locale atom_extractor =
  fixes extr :: "string \<Rightarrow> string hashset \<Rightarrow> string hashset" and good :: "string \<Rightarrow> bool"
  assumes adds: "adder good (extr c)"
begin

lemma walk_entries_spec:
  assumes "walk_entries pred extr n A es = Inr atoms" and "unat n \<le> unat TOTAL_DECOMPRESSED_MAX"
    and "distinct A" and "length A \<le> MAX_ATOMS_TOTAL"
  shows "set atoms = set A \<union> (\<Union>(e, c)\<in>set (read_entries pred es). set (extr c []))
    \<and> sorted atoms \<and> distinct atoms \<and> length atoms \<le> MAX_ATOMS_TOTAL
    \<and> unat n + declared_sum es \<le> unat TOTAL_DECOMPRESSED_MAX
    \<and> (\<forall>(e, c)\<in>set (read_entries pred es). te_size e \<le> PER_ENTRY_MAX_BYTES) \<and> None \<notin> set es"
  using assms
proof (induction es arbitrary: n A)
  case (Cons oe es)
  note run = Cons.prems(1) and bnds = Cons.prems(2-4)
  from run obtain e where oe: "oe = Some e" by (cases oe) auto
  show ?case
  proof (cases "te_path e")
    case None
    with Cons.IH [OF _ bnds] run oe show ?thesis by (simp add: read_entries_def declared_sum_def map_filter_simps)
  next
    case (Some p)
    let ?t = "sat_add64 n (te_size e)"
    from run Some oe have cap: "\<not> TOTAL_DECOMPRESSED_MAX < ?t" by (auto simp: Let_def split: if_splits)
    then have le: "unat ?t \<le> unat TOTAL_DECOMPRESSED_MAX" by (simp add: not_less word_le_nat_alt)
    have t: "unat ?t = unat n + unat (te_size e)"
      using le by (auto simp: unat_sat_add64 TOTAL_DECOMPRESSED_MAX_def min_def split: if_splits)
    have sum: "declared_sum (oe # es) = unat (te_size e) + declared_sum es"
      using oe Some by (simp add: declared_sum_def)
    show ?thesis
    proof (cases "pred p (te_is_file e) \<and> entry_content e \<noteq> None")
      case False
      then have rest: "read_entries pred (oe # es) = read_entries pred es" using oe Some
        by (auto simp: read_entries_def map_filter_simps)
      from False run oe Some cap have "walk_entries pred extr ?t A es = Inr atoms"
        by (auto simp: Let_def split: if_splits option.splits)
      from Cons.IH [OF this le bnds(2,3)] show ?thesis unfolding rest sum using t oe by simp
    next
      case True
      then obtain c where c: "entry_content e = Some c" by auto
      have rest: "read_entries pred (oe # es) = (e, c) # read_entries pred es" using True c oe Some
        by (simp add: read_entries_def map_filter_simps)
      from True c run oe Some cap have sz: "te_size e \<le> PER_ENTRY_MAX_BYTES"
        and len: "length (extr c A) \<le> MAX_ATOMS_TOTAL" and "walk_entries pred extr ?t (extr c A) es = Inr atoms"
        by (auto simp: Let_def split: if_splits)
      from Cons.IH [OF this(3) le adder_distinct [OF adds bnds(2)] len] show ?thesis
        unfolding rest sum adder_set [OF adds, of c A] using t oe sz by auto
    qed
  qed
qed (auto simp: read_entries_def declared_sum_def map_filter_simps sorted_vec_def)

lemma walk_spec:
  assumes "walk_tarball_atoms untar gz pred extr = Inr atoms"
  shows "\<exists>es. untar gz = Some es \<and> None \<notin> set es \<and> declared_sum es \<le> unat TOTAL_DECOMPRESSED_MAX
    \<and> (\<forall>(e, c)\<in>set (read_entries pred es). te_size e \<le> PER_ENTRY_MAX_BYTES)
    \<and> set atoms = (\<Union>(e, c)\<in>set (read_entries pred es). set (extr c []))
    \<and> sorted atoms \<and> distinct atoms \<and> length atoms \<le> MAX_ATOMS_TOTAL \<and> (\<forall>a\<in>set atoms. good a)"
proof -
  from assms obtain es where es: "untar gz = Some es" "walk_entries pred extr 0 [] es = Inr atoms"
    by (auto simp: walk_tarball_atoms_def split: option.splits)
  from walk_entries_spec [OF es(2)] have spec: "set atoms = (\<Union>(e, c)\<in>set (read_entries pred es). set (extr c []))"
    "sorted atoms \<and> distinct atoms \<and> length atoms \<le> MAX_ATOMS_TOTAL
     \<and> declared_sum es \<le> unat TOTAL_DECOMPRESSED_MAX
     \<and> (\<forall>(e, c)\<in>set (read_entries pred es). te_size e \<le> PER_ENTRY_MAX_BYTES) \<and> None \<notin> set es"
    by simp_all
  moreover have "\<forall>a\<in>set atoms. good a" unfolding spec(1) using adder_good [OF adds] by fastforce
  ultimately show ?thesis using es(1) by blast
qed

end

section \<open>The atoms of the two sources\<close>

text \<open>What every fetched atom is: it fits the store's rules and the line format, and it is worth matching.\<close>

definition fetchable :: "(string \<Rightarrow> bool) \<Rightarrow> string \<Rightarrow> bool" where
  "fetchable alnum a \<longleftrightarrow> ATOM_MIN_LEN \<le> length a \<and> length a \<le> ATOM_MAX_LEN \<and> str_trim a = a \<and> storable a
     \<and> \<not> is_placeholder_atom alnum a \<and> \<not> is_low_value_atom a"

lemma cut_no_comment:
  assumes "str_find '' #'' t = Some i" shows "\<not> str_contains '' #'' (take i t)"
proof
  assume "str_contains '' #'' (take i t)"
  then obtain j where j: "str_find '' #'' (take i t) = Some j" by (auto simp: str_contains_def)
  note occ = str_find_Some [OF this]
  then have "take 2 (drop j t) = '' #''" "j < i" by (auto simp: take_drop min_def split: if_splits)
  then have "prefix '' #'' (drop j t)" by (metis take_is_prefix)
  with str_find_first [OF assms \<open>j < i\<close>] show False by simp
qed

lemma accept_line_fetchable:
  assumes "accept_line alnum t = Some a" and "NL \<notin> set t"
  shows "fetchable alnum a"
proof -
  let ?cut = "case str_find '' #'' t of Some i \<Rightarrow> take i t | None \<Rightarrow> t"
  from assms(1) have a: "a = str_trim ?cut" "ATOM_MIN_LEN \<le> length a" "length a \<le> ATOM_MAX_LEN"
      "\<not> starts_with ''#'' a" "\<not> is_placeholder_atom alnum a" "\<not> is_low_value_atom a"
    by (auto simp: accept_line_def Let_def split: if_splits)
  have cut: "\<not> str_contains '' #'' ?cut" "set ?cut \<subseteq> set t"
    by (auto simp: cut_no_comment str_contains_def [of _ t] split: option.splits dest: in_set_takeD)
  have "\<not> sublist '' #'' a" using cut(1) str_trim_sublist [of ?cut] sublist_order.order_trans
    unfolding a(1) str_contains_sublist by blast
  moreover have "NL \<notin> set a" using cut(2) set_str_trim [of ?cut] assms(2) unfolding a(1) by blast
  ultimately show ?thesis using a(2-6)
    by (auto simp: fetchable_def storable_def str_contains_sublist ATOM_MIN_LEN_def a(1))
qed

lemma atom_from_code_fetchable: "atom_from_code alnum code = Some a \<Longrightarrow> fetchable alnum a"
proof -
  have "fetchable alnum a" if "atom_from_lines alnum ls = Some a" "\<forall>l\<in>set ls. NL \<notin> set l" for ls
    using that
  proof (induction ls)
    case (Cons l ls)
    have "NL \<notin> set (str_trim l)" using Cons.prems(2) set_str_trim [of l] by auto
    with Cons show ?case by (auto simp: Let_def accept_line_fetchable split: if_splits)
  qed simp
  then show "atom_from_code alnum code = Some a \<Longrightarrow> fetchable alnum a"
    unfolding atom_from_code_def using str_lines_no_NL by blast
qed

lemma adder_atom: "adder (fetchable alnum) (add_atom_from alnum code)"
  unfolding add_atom_from_def [abs_def] by (intro adder_option adder_insert) (rule atom_from_code_fetchable)

lemma adder_gtfobins: "adder (fetchable alnum) (extract_gtfobins_atoms yaml_of alnum c)"
  unfolding extract_gtfobins_atoms_def [abs_def] gtfobins_function_def [abs_def] gtfobins_entry_def [abs_def]
  by (intro adder_option adder_fold adder_atom)

lemma adder_sigma: "adder (fetchable alnum) (extract_sigma_atoms yaml_of alnum c)"
  unfolding extract_sigma_atoms_def [abs_def] sigma_selector_def [abs_def] sigma_field_def [abs_def] sigma_value_def [abs_def]
  by (intro adder_option adder_either adder_unless adder_fold adder_atom)

interpretation gtfobins: atom_extractor "extract_gtfobins_atoms yaml_of alnum" "fetchable alnum" for yaml_of alnum
  by unfold_locales (rule adder_gtfobins)

interpretation sigma: atom_extractor "extract_sigma_atoms yaml_of alnum" "fetchable alnum" for yaml_of alnum
  by unfold_locales (rule adder_sigma)

text \<open>
  C31. Extraction is bounded and exact. A walk that succeeds saw an archive without a bad entry whose entries declare
  at most 64 MiB together and at most 4 MiB each where they are read; its result is sorted, free of
  repetitions and holds at most 10000 atoms, exactly those of the matching, readable files; and every
  atom is 3 to 200 bytes, trimmed, one line, free of comments and placeholders and not a bare common
  command, so the store can hold it.
\<close>

theorem extraction_sound:
  assumes "(pred, extr) = (is_gtfobins_entry_file, extract_gtfobins_atoms yaml_of alnum)
      \<or> (pred, extr) = (is_sigma_linux_rule, extract_sigma_atoms yaml_of alnum)"
    and "walk_tarball_atoms untar gz pred extr = Inr atoms"
  shows "\<exists>es. untar gz = Some es \<and> None \<notin> set es \<and> declared_sum es \<le> unat TOTAL_DECOMPRESSED_MAX
    \<and> (\<forall>(e, c)\<in>set (read_entries pred es). te_size e \<le> PER_ENTRY_MAX_BYTES)
    \<and> set atoms = (\<Union>(e, c)\<in>set (read_entries pred es). set (extr c []))
    \<and> sorted atoms \<and> distinct atoms \<and> length atoms \<le> MAX_ATOMS_TOTAL \<and> (\<forall>a\<in>set atoms. fetchable alnum a)"
  using assms gtfobins.walk_spec [of untar gz pred yaml_of alnum atoms] sigma.walk_spec [of untar gz pred yaml_of alnum atoms]
  by (elim disjE) simp_all

abbreviation extract_demo_yaml :: "string \<Rightarrow> yaml option" where
  "extract_demo_yaml \<equiv> \<lambda>_. Some (YMap [(YString ''functions'', YMap [(YString ''shell'',
     YSeq [YMap [(YString ''code'', YString '' nc -e /bin/sh # shell'')], YMap [(YString ''code'', YString ''ls'')]])])])"

abbreviation extract_demo_entry :: tar_entry where
  "extract_demo_entry \<equiv> \<lparr>te_path = Some ''m/_gtfobins/nc'', te_is_file = True, te_size = 4, te_data = Some (''---'' @ [NL])\<rparr>"

theorem extraction_sound_witness:
  "walk_tarball_atoms (\<lambda>_. Some [Some extract_demo_entry]) [] is_gtfobins_entry_file
      (extract_gtfobins_atoms extract_demo_yaml (\<lambda>_. False)) = Inr [''nc -e /bin/sh'']
   \<and> fetchable (\<lambda>_. False) ''nc -e /bin/sh''"
proof -
  have content: "entry_content extract_demo_entry = Some (''---'' @ [NL])"
  proof -
    have "utf8_valid (''---'' @ [NL])" by code_simp
    then show ?thesis by (simp add: entry_content_def PER_ENTRY_MAX_BYTES_def)
  qed
  have "extract_gtfobins_atoms extract_demo_yaml (\<lambda>_. False) (''---'' @ [NL]) [] = [''nc -e /bin/sh'']" by code_simp
  moreover have "is_gtfobins_entry_file ''m/_gtfobins/nc'' True" by code_simp
  moreover have "sorted_vec [''nc -e /bin/sh''] = [''nc -e /bin/sh'']" by (simp add: sorted_vec_def)
  ultimately have run: "walk_tarball_atoms (\<lambda>_. Some [Some extract_demo_entry]) [] is_gtfobins_entry_file
      (extract_gtfobins_atoms extract_demo_yaml (\<lambda>_. False)) = Inr [''nc -e /bin/sh'']"
    using content by (simp add: walk_tarball_atoms_def Let_def sat_add64_def TOTAL_DECOMPRESSED_MAX_def
        PER_ENTRY_MAX_BYTES_def MAX_ATOMS_TOTAL_def)
  from extraction_sound [OF disjI1 [OF refl] run] run show ?thesis by auto
qed

end
