(* ===== verification/Civil_Date.thy ===== *)
theory Civil_Date
  imports Rust_Str "HOL-Library.Signed_Division"
begin

text \<open>
  The two calendar conversions of the daemon: \<open>civil_from_days\<close> behind the date stamp of the trust
  files (\<open>trust_store.rs\<close>) and \<open>unix_to_utc_parts\<close> behind the drift snapshot (\<open>atom_drift.rs\<close>). Both
  are checked against the Gregorian calendar, given by the length of each month and the rule that
  one day follows another.

  The \<open>i64\<close> and \<open>u64\<close> values are integers here: days since the epoch are at most \<open>2^64 div 86400\<close>, so
  that no intermediate result leaves the range of the machine type, and the values cast to \<open>u64\<close> are
  not negative (\<open>doe_range\<close>). The cast to \<open>i32\<close> is written out. \<open>/\<close> on \<open>i64\<close> truncates: \<open>sdiv\<close>.
\<close>

section \<open>The conversions\<close>

definition as_i32 :: "int \<Rightarrow> int" where
  "as_i32 x = signed_take_bit 31 x"

definition civil_from_days :: "int \<Rightarrow> int \<times> int \<times> int" where
  "civil_from_days z0 =
     (let z = z0 + 719468;
          era = (if 0 \<le> z then z else z - 146096) sdiv 146097;
          doe = z - era * 146097;
          yoe = (doe - doe div 1460 + doe div 36524 - doe div 146096) div 365;
          y = yoe + era * 400;
          doy = doe - (365 * yoe + yoe div 4 - yoe div 100);
          mp = (5 * doy + 2) div 153;
          d = doy - (153 * mp + 2) div 5 + 1;
          m = (if mp < 10 then mp + 3 else mp - 9);
          y = (if m \<le> 2 then y + 1 else y)
      in (as_i32 y, m, d))"

definition unix_to_utc_parts :: "int \<Rightarrow> int \<times> int \<times> int \<times> int \<times> int \<times> int" where
  "unix_to_utc_parts ts =
     (let days = ts div 86400;
          secs_of_day = ts mod 86400;
          hour = secs_of_day div 3600;
          minute = (secs_of_day mod 3600) div 60;
          second = secs_of_day mod 60;
          z = days + 719468;
          era = (if 0 \<le> z then z else z - 146096) sdiv 146097;
          doe = z - era * 146097;
          yoe = (doe - doe div 1460 + doe div 36524 - doe div 146096) div 365;
          y = yoe + era * 400;
          doy = doe - (365 * yoe + yoe div 4 - yoe div 100);
          mp = (5 * doy + 2) div 153;
          d = doy - (153 * mp + 2) div 5 + 1;
          m = (if mp < 10 then mp + 3 else mp - 9);
          year = y + (if m \<le> 2 then 1 else 0)
      in (year, m, d, hour, minute, second))"

text \<open>\<open>{:0w}\<close>: the sign first, then zeros up to the width.\<close>

definition pad0 :: "nat \<Rightarrow> string \<Rightarrow> string" where
  "pad0 w s = replicate (w - length s) CHR ''0'' @ s"

definition show_pad :: "nat \<Rightarrow> int \<Rightarrow> string" where
  "show_pad w x = (if x < 0 then CHR ''-'' # pad0 (w - 1) (show_nat (nat (- x))) else pad0 w (show_nat (nat x)))"

definition utc_timestamp_ymd :: "u64 \<Rightarrow> string" where
  "utc_timestamp_ymd secs =
     (case civil_from_days (int (unat secs) div 86400) of
        (y, m, d) \<Rightarrow> show_pad 4 y @ ''-'' @ show_pad 2 m @ ''-'' @ show_pad 2 d)"

definition rfc3339 :: "int \<Rightarrow> string" where
  "rfc3339 now =
     (case unix_to_utc_parts now of
        (year, month, day, hour, minute, second) \<Rightarrow>
          show_pad 4 year @ ''-'' @ show_pad 2 month @ ''-'' @ show_pad 2 day @ ''T''
          @ show_pad 2 hour @ '':'' @ show_pad 2 minute @ '':'' @ show_pad 2 second @ ''Z'')"

section \<open>The Gregorian calendar\<close>

definition leap :: "int \<Rightarrow> bool" where
  "leap y \<longleftrightarrow> y mod 4 = 0 \<and> (y mod 100 \<noteq> 0 \<or> y mod 400 = 0)"

definition days_in_month :: "int \<Rightarrow> int \<Rightarrow> int" where
  "days_in_month y m = (if m = 2 then (if leap y then 29 else 28) else if m \<in> {4, 6, 9, 11} then 30 else 31)"

fun next_day :: "int \<times> int \<times> int \<Rightarrow> int \<times> int \<times> int" where
  "next_day (y, m, d) =
     (if d < days_in_month y m then (y, m, d + 1) else if m < 12 then (y, m + 1, 1) else (y + 1, 1, 1))"

fun real_date :: "int \<times> int \<times> int \<Rightarrow> bool" where
  "real_date (y, m, d) \<longleftrightarrow> 1 \<le> m \<and> m \<le> 12 \<and> 1 \<le> d \<and> d \<le> days_in_month y m"

section \<open>Decomposition of a day count\<close>

definition yoe_of :: "int \<Rightarrow> int" where
  "yoe_of doe = (doe - doe div 1460 + doe div 36524 - doe div 146096) div 365"

definition year_start :: "int \<Rightarrow> int" where
  "year_start y = 365 * y + y div 4 - y div 100"

definition md :: "int \<Rightarrow> int \<times> int" where
  "md doy = (let mp = (5 * doy + 2) div 153
             in (if mp < 10 then mp + 3 else mp - 9, doy - (153 * mp + 2) div 5 + 1))"

definition date_of :: "int \<Rightarrow> int \<Rightarrow> int \<times> int \<times> int" where
  "date_of era doe =
     (let yoe = yoe_of doe; (m, d) = md (doe - year_start yoe)
      in (yoe + era * 400 + (if m \<le> 2 then 1 else 0), m, d))"

lemma era_div: "(if 0 \<le> z then z else z - 146096) sdiv 146097 = (z :: int) div 146097"
proof (cases "0 \<le> z")
  case True
  then show ?thesis by (cases "z = 0") (simp_all add: signed_divide_int_def)
next
  case False
  then have "(z - 146096) sdiv 146097 = - ((146096 - z) div 146097)" by (simp add: signed_divide_int_def sgn_if)
  also have "(146096 - z) div 146097 = - (z div 146097)"
  proof (rule int_div_pos_eq)
    show "146096 - z = 146097 * - (z div 146097) + (146096 - z mod 146097)"
      using div_mult_mod_eq [of z 146097] by linarith
    show "0 \<le> 146096 - z mod 146097" "146096 - z mod 146097 < 146097"
      using pos_mod_bound [of 146097 z] pos_mod_sign [of 146097 z] by linarith+
  qed
  finally show ?thesis using False by (simp only: if_False minus_minus)
qed

lemma unix_to_utc_parts_eq:
  "unix_to_utc_parts ts =
     (case date_of ((ts div 86400 + 719468) div 146097) ((ts div 86400 + 719468) mod 146097) of
        (y, m, d) \<Rightarrow> (y, m, d, ts mod 86400 div 3600, ts mod 86400 mod 3600 div 60, ts mod 86400 mod 60))"
  unfolding unix_to_utc_parts_def era_div
  by (simp only: Let_def date_of_def md_def yoe_of_def year_start_def minus_div_mult_eq_mod prod.case)

lemma civil_from_days_eq:
  "civil_from_days z =
     (case date_of ((z + 719468) div 146097) ((z + 719468) mod 146097) of (y, m, d) \<Rightarrow> (as_i32 y, m, d))"
  unfolding civil_from_days_def era_div
  by (simp only: Let_def date_of_def md_def yoe_of_def year_start_def minus_div_mult_eq_mod prod.case)
    (simp only: if_distrib [of "\<lambda>x. a + x" for a] add_0_right cong: if_cong)


section \<open>Years\<close>

definition last_day :: "int \<Rightarrow> int" where
  "last_day y = (if y = 399 then 146096 else year_start (y + 1) - 1)"

lemma years_table:
  "list_all (\<lambda>y. yoe_of (year_start y) = y \<and> yoe_of (last_day y) = y
     \<and> last_day y - year_start y = (if leap (y + 1) then 365 else 364)) [0..399]"
  by code_simp

definition month_step :: "int \<Rightarrow> bool" where
  "month_step doy \<longleftrightarrow>
     (case md doy of (m, d) \<Rightarrow> case md (doy + 1) of (m', d') \<Rightarrow>
       1 \<le> m \<and> m \<le> 12 \<and> 1 \<le> d \<and> (if m = 2 then (doy = 364 \<longleftrightarrow> d = 28) \<and> d \<le> 28 else d \<le> days_in_month 1 m \<and> doy \<noteq> 364)
       \<and> (m', d') = (if m = 2 then (2, d + 1) else if d < days_in_month 1 m then (m, d + 1)
                     else if m < 12 then (m + 1, 1) else (1, 1)))"

lemma months_table: "list_all month_step [0..364]"
  by code_simp

lemma g_step:
  "a' = a + i \<Longrightarrow> b' = b + j \<Longrightarrow> c' = c + k \<Longrightarrow> i \<le> 1 \<Longrightarrow> k \<le> j \<Longrightarrow> n - a + b - c \<le> (n + 1) - a' + b' - (c' :: int)"
  by simp

lemma g_mono:
  fixes n :: nat
  defines "g \<equiv> \<lambda>n :: int. n - n div 1460 + n div 36524 - n div 146096"
  shows "g (int n) \<le> g (int n + 1)"
proof -
  have step: "(int n + 1) div int k = int n div int k + (if k dvd Suc n then 1 else 0)" for k :: nat
  proof -
    have "(int n + 1) div int k = int (Suc n div k)" by (simp add: zdiv_int add.commute)
    also have "\<dots> = int (n div k) + (if k dvd Suc n then 1 else 0)"
      by (simp add: div_Suc dvd_eq_mod_eq_0)
    finally show ?thesis by (simp add: zdiv_int)
  qed
  have "36524 dvd Suc n" if "146096 dvd Suc n" using that by (rule dvd_trans [rotated]) simp
  then have le: "(if 146096 dvd Suc n then 1 else 0) \<le> (if 36524 dvd Suc n then 1 else 0 :: int)" by simp
  show ?thesis
    unfolding g_def
    by (rule g_step [OF step [of 1460, unfolded of_nat_numeral] step [of 36524, unfolded of_nat_numeral]
          step [of 146096, unfolded of_nat_numeral] _ le]) simp
qed

lemma yoe_mono:
  assumes "0 \<le> a" and "a \<le> b"
  shows "yoe_of a \<le> yoe_of b"
proof -
  let ?g = "\<lambda>n :: int. n - n div 1460 + n div 36524 - n div 146096"
  have "?g (int m) \<le> ?g (int (m + k))" for m k
  proof (induction k)
    case (Suc k)
    with g_mono [of "m + k"] show ?case by (simp add: add.commute)
  qed simp
  from this [of "nat a" "nat (b - a)"] assms have "?g a \<le> ?g b" by simp
  then show ?thesis unfolding yoe_of_def by (rule zdiv_mono1) simp
qed

lemma year_facts:
  assumes "0 \<le> y" and "y \<le> 399"
  shows "yoe_of (year_start y) = y" "yoe_of (last_day y) = y"
    "last_day y - year_start y = (if leap (y + 1) then 365 else 364)"
  using years_table assms by (auto simp: list_all_iff simp del: upto.simps)

lemma year_of_doe:
  assumes "0 \<le> doe" and "doe \<le> 146096"
  shows "0 \<le> yoe_of doe \<and> yoe_of doe \<le> 399 \<and> year_start (yoe_of doe) \<le> doe \<and> doe \<le> last_day (yoe_of doe)"
proof -
  let ?Y = "{y. 0 \<le> y \<and> y \<le> 399 \<and> year_start y \<le> doe}"
  have fin: "finite ?Y" by (rule finite_subset [of _ "{0..399}"]) auto
  have "0 \<in> ?Y" using assms by (simp add: year_start_def)
  define y where "y = Max ?Y"
  have y: "y \<in> ?Y" unfolding y_def by (rule Max_in [OF fin]) (use \<open>0 \<in> ?Y\<close> in blast)
  have "doe \<le> last_day y"
  proof (cases "y = 399")
    case False
    have "y + 1 \<notin> ?Y" using Max_ge [OF fin, of "y + 1"] y_def by auto
    with y False show ?thesis by (auto simp: last_day_def)
  qed (simp add: last_day_def assms)
  moreover from this y have "yoe_of doe = y"
    using yoe_mono [of "year_start y" doe] yoe_mono [of doe "last_day y"] year_facts [of y] assms(1)
    by (auto simp: year_start_def intro!: antisym)
  ultimately show ?thesis using y by simp
qed

section \<open>One day follows another\<close>

lemma leap_era: "leap (y + era * 400) \<longleftrightarrow> leap y"
proof -
  have "(y + era * 400) mod k = y mod k" if "k dvd 400" for k
    using that by (metis dvd_triv_right dvd_trans mod_add_right_eq dvd_imp_mod_0 add.right_neutral)
  then show ?thesis by (simp add: leap_def)
qed

lemma days_in_month_era: "days_in_month (y + era * 400) m = days_in_month y m"
  by (simp add: days_in_month_def leap_era)

lemma days_in_month_any: "m \<noteq> 2 \<Longrightarrow> days_in_month y m = days_in_month 1 m"
  by (simp add: days_in_month_def)

lemma month_facts:
  assumes "0 \<le> doy" and "doy \<le> 364" and "md doy = (m, d)"
  shows "1 \<le> m" "m \<le> 12" "1 \<le> d" "m = 2 \<Longrightarrow> d \<le> 28 \<and> (doy = 364 \<longleftrightarrow> d = 28)"
    "m \<noteq> 2 \<Longrightarrow> d \<le> days_in_month 1 m \<and> doy \<noteq> 364"
    "md (doy + 1) = (if m = 2 then (2, d + 1) else if d < days_in_month 1 m then (m, d + 1)
                     else if m < 12 then (m + 1, 1) else (1, 1))"
proof -
  have "doy \<in> set [0..364]" using assms by simp
  with months_table have "month_step doy" by (simp add: list_all_iff del: upto.simps)
  then show "1 \<le> m" "m \<le> 12" "1 \<le> d" "m = 2 \<Longrightarrow> d \<le> 28 \<and> (doy = 364 \<longleftrightarrow> d = 28)"
    "m \<noteq> 2 \<Longrightarrow> d \<le> days_in_month 1 m \<and> doy \<noteq> 364"
    "md (doy + 1) = (if m = 2 then (2, d + 1) else if d < days_in_month 1 m then (m, d + 1)
                     else if m < 12 then (m + 1, 1) else (1, 1))"
    using assms(3) unfolding month_step_def by (auto split: prod.splits if_splits)
qed

lemma md_values: "md 0 = (3, 1)" "md 364 = (2, 28)" "md 365 = (2, 29)"
  by (simp_all add: md_def)

lemma date_of_doe:
  assumes "0 \<le> doe" and "doe \<le> 146096"
  obtains yoe doy where "yoe = yoe_of doe" "0 \<le> yoe" "yoe \<le> 399" "doy = doe - year_start yoe"
    "0 \<le> doy" "doy \<le> (if leap (yoe + 1) then 365 else 364)"
    "doe = last_day yoe \<longleftrightarrow> doy = (if leap (yoe + 1) then 365 else 364)"
proof -
  note y = year_of_doe [OF assms]
  with year_facts(3) [of "yoe_of doe"] show thesis by (intro that [of "yoe_of doe" "doe - year_start (yoe_of doe)"]) auto
qed

lemma date_next_in_year:
  assumes "0 \<le> doe" and "doe < last_day (yoe_of doe)" and "doe \<le> 146096"
  shows "date_of era (doe + 1) = next_day (date_of era doe)"
proof -
  from date_of_doe [OF assms(1,3)] obtain yoe doy where y: "yoe = yoe_of doe" "0 \<le> yoe" "yoe \<le> 399"
      "doy = doe - year_start yoe" "0 \<le> doy" "doy \<le> (if leap (yoe + 1) then 365 else 364)"
      "doe = last_day yoe \<longleftrightarrow> doy = (if leap (yoe + 1) then 365 else 364)" by blast
  with assms(2) have lt: "doy < (if leap (yoe + 1) then 365 else 364)" by auto
  have "yoe_of (doe + 1) = yoe"
  proof (rule antisym)
    show "yoe \<le> yoe_of (doe + 1)" using yoe_mono [of doe "doe + 1"] assms(1) y(1) by simp
    show "yoe_of (doe + 1) \<le> yoe" using yoe_mono [of "doe + 1" "last_day yoe"] assms(1,2) year_facts(2) [of yoe] y by simp
  qed
  then have nx: "date_of era (doe + 1) =
      (case md (doy + 1) of (m', d') \<Rightarrow> (yoe + era * 400 + (if m' \<le> 2 then 1 else 0), m', d'))"
    using y(4) by (simp add: date_of_def Let_def diff_add_eq)
  obtain m d where md: "md doy = (m, d)" by (cases "md doy")
  have cur: "date_of era doe = (yoe + era * 400 + (if m \<le> 2 then 1 else 0), m, d)"
    using md y(1,4) by (simp add: date_of_def Let_def)
  have le: "doy \<le> 364" using lt by (simp split: if_splits)
  note f = month_facts [OF y(5) le md]
  show ?thesis
  proof (cases "m = 2")
    case True
    have "leap (yoe + era * 400 + 1) = leap (yoe + 1)" using leap_era [of "yoe + 1" era] by (simp add: algebra_simps)
    then have "d < days_in_month (yoe + era * 400 + 1) 2"
      using f(4) [OF True] lt by (auto simp: days_in_month_def split: if_splits)
    with True show ?thesis unfolding nx cur f(6) by simp
  next
    case False
    then have "days_in_month (yoe + era * 400 + 1) m = days_in_month 1 m"
      "days_in_month (yoe + era * 400) m = days_in_month 1 m" by (rule days_in_month_any)+
    with False f(1,2) show ?thesis
      unfolding nx cur f(6) by (cases "d < days_in_month 1 m"; cases "m < 12") auto
  qed
qed

lemma date_next_year:
  assumes "0 \<le> doe" and "doe = last_day (yoe_of doe)" and "doe \<le> 146096"
  shows "next_day (date_of era doe) = (yoe_of doe + era * 400 + 1, 3, 1)"
proof -
  from date_of_doe [OF assms(1,3)] obtain yoe doy where y: "yoe = yoe_of doe" "doy = doe - year_start yoe"
      "doe = last_day yoe \<longleftrightarrow> doy = (if leap (yoe + 1) then 365 else 364)" by blast
  with assms(2) have "doy = (if leap (yoe + 1) then 365 else 364)" by simp
  then have "md doy = (2, if leap (yoe + 1) then 29 else 28)" by (simp add: md_values)
  moreover have "leap (yoe + era * 400 + 1) = leap (yoe + 1)" using leap_era [of "yoe + 1" era] by (simp add: algebra_simps)
  ultimately show ?thesis using y(1,2) by (simp add: date_of_def Let_def days_in_month_def)
qed

lemma date_of_year_start:
  assumes "0 \<le> y" and "y \<le> 399"
  shows "date_of era (year_start y) = (y + era * 400, 3, 1)"
  using year_facts(1) [OF assms] by (simp add: date_of_def md_values)

lemma date_step:
  "(let z' = z + 1 in date_of (z' div 146097) (z' mod 146097)) = next_day (date_of (z div 146097) (z mod 146097))"
proof -
  let ?doe = "z mod 146097" and ?era = "z div 146097"
  have r: "0 \<le> ?doe" "?doe \<le> 146096" using pos_mod_bound [of 146097 z] pos_mod_sign [of 146097 z] by linarith+
  note y = year_of_doe [OF r]
  show ?thesis
  proof (cases "?doe = 146096")
    case True
    then have "z + 1 = ?era * 146097 + 146097" using div_mult_mod_eq [of z 146097] by linarith
    then have "z + 1 = (?era + 1) * 146097" by (simp add: distrib_right)
    then have e: "(z + 1) div 146097 = ?era + 1" "(z + 1) mod 146097 = 0"
      by (simp_all only: nonzero_mult_div_cancel_right [of "146097 :: int"] mod_mult_self2_is_0)
    have "yoe_of 146096 = 399" by (simp add: yoe_of_def)
    with True have "next_day (date_of ?era ?doe) = (399 + ?era * 400 + 1, 3, 1)"
      using date_next_year [OF r(1) _ r(2), of ?era] by (simp add: last_day_def)
    moreover have "date_of (?era + 1) 0 = (400 + ?era * 400, 3, 1)"
      using date_of_year_start [of 0 "?era + 1"] by (simp add: year_start_def)
    ultimately show ?thesis unfolding Let_def e by simp
  next
    case False
    then have e: "(z + 1) div 146097 = ?era" "(z + 1) mod 146097 = ?doe + 1"
    proof -
      have "z + 1 = 146097 * ?era + (?doe + 1)" using div_mult_mod_eq [of z 146097] by linarith
      moreover have "0 \<le> ?doe + 1" "?doe + 1 < 146097" using r False by linarith+
      ultimately show "(z + 1) div 146097 = ?era" "(z + 1) mod 146097 = ?doe + 1"
        using int_div_pos_eq int_mod_pos_eq by blast+
    qed
    show ?thesis
    proof (cases "?doe = last_day (yoe_of ?doe)")
      case True
      have ne: "yoe_of ?doe \<noteq> 399" using True False by (auto simp: last_day_def)
      then have s: "?doe + 1 = year_start (yoe_of ?doe + 1)" using True by (simp add: last_day_def)
      have "date_of ?era (?doe + 1) = (yoe_of ?doe + 1 + ?era * 400, 3, 1)"
        unfolding s using y ne by (intro date_of_year_start) auto
      then show ?thesis unfolding Let_def e using date_next_year [OF r(1) True r(2), of ?era] by simp
    next
      case f: False
      show ?thesis unfolding Let_def e by (rule date_next_in_year) (use r y f in auto)
    qed
  qed
qed

section \<open>The conversions are right\<close>

definition ymd :: "int \<Rightarrow> int \<times> int \<times> int" where
  "ymd ts = (case unix_to_utc_parts ts of (y, m, d, _) \<Rightarrow> (y, m, d))"

lemma ymd_eq: "ymd ts = date_of ((ts div 86400 + 719468) div 146097) ((ts div 86400 + 719468) mod 146097)"
  by (simp add: ymd_def unix_to_utc_parts_eq split: prod.splits)

lemma as_i32_small: "- (2 ^ 31) \<le> x \<Longrightarrow> x < 2 ^ 31 \<Longrightarrow> as_i32 x = x"
  by (simp add: as_i32_def signed_take_bit_int_eq_self)

lemma civil_ymd: "civil_from_days z = (case ymd (z * 86400) of (y, m, d) \<Rightarrow> (as_i32 y, m, d))"
  unfolding civil_from_days_eq ymd_eq by (simp only: nonzero_mult_div_cancel_right [of "86400 :: int"])

lemma ymd_epoch: "ymd 0 = (1970, 1, 1)"
  by code_simp

lemma ymd_next: "ymd (ts + 86400) = next_day (ymd ts)"
proof -
  have "(ts + 86400) div 86400 + 719468 = ts div 86400 + 719468 + 1" by simp
  then show ?thesis using date_step [of "ts div 86400 + 719468"] unfolding ymd_eq Let_def by simp
qed

lemma day_split:
  assumes "0 \<le> s" and "s < (86400 :: int)"
  shows "0 \<le> s div 3600 \<and> s div 3600 < 24 \<and> 0 \<le> s mod 3600 div 60 \<and> s mod 3600 div 60 < 60 \<and> 0 \<le> s mod 60 \<and> s mod 60 < 60
      \<and> s div 3600 * 3600 + s mod 3600 div 60 * 60 + s mod 60 = s"
proof (intro conjI)
  have m: "s mod 3600 mod 60 = s mod 60" by (simp add: mod_mod_cancel)
  show "s div 3600 * 3600 + s mod 3600 div 60 * 60 + s mod 60 = s"
    using div_mult_mod_eq [of s 3600] div_mult_mod_eq [of "s mod 3600" 60] m by linarith
  show "s div 3600 < 24" using zdiv_mono1 [of s 86399 3600] assms by simp
  show "s mod 3600 div 60 < 60" using zdiv_mono1 [of "s mod 3600" 3599 60] by simp
qed (use assms in \<open>simp_all add: pos_imp_zdiv_nonneg_iff\<close>)

text \<open>
  C34. Both calendar conversions agree with the Gregorian calendar: the epoch is 1 January 1970, the
  date one day later is the next date of the calendar, on every day before and after the epoch; the
  time of day is split into hours, minutes and seconds; and the conversion of the trust store gives
  the same date as long as the year fits its 32-bit type.
\<close>

theorem calendar_correct:
  "ymd 0 = (1970, 1, 1) \<and> ymd (ts + 86400) = next_day (ymd ts)
   \<and> (case unix_to_utc_parts ts of (_, _, _, h, m, s) \<Rightarrow>
        0 \<le> h \<and> h < 24 \<and> 0 \<le> m \<and> m < 60 \<and> 0 \<le> s \<and> s < 60 \<and> h * 3600 + m * 60 + s = ts mod 86400)
   \<and> (\<bar>fst (ymd (z * 86400))\<bar> < 2 ^ 31 \<longrightarrow> civil_from_days z = ymd (z * 86400))"
proof (intro conjI impI)
  show "ymd 0 = (1970, 1, 1)" by (rule ymd_epoch)
  show "ymd (ts + 86400) = next_day (ymd ts)" by (rule ymd_next)
  define s where "s = ts mod 86400"
  have s: "0 \<le> s" "s < 86400" by (simp_all add: s_def)
  have "0 \<le> s div 3600 \<and> s div 3600 < 24 \<and> 0 \<le> s mod 3600 div 60 \<and> s mod 3600 div 60 < 60 \<and> 0 \<le> s mod 60 \<and> s mod 60 < 60
      \<and> s div 3600 * 3600 + s mod 3600 div 60 * 60 + s mod 60 = s"
    using s day_split by blast
  then show "case unix_to_utc_parts ts of (_, _, _, h, m, s) \<Rightarrow>
        0 \<le> h \<and> h < 24 \<and> 0 \<le> m \<and> m < 60 \<and> 0 \<le> s \<and> s < 60 \<and> h * 3600 + m * 60 + s = ts mod 86400"
    unfolding unix_to_utc_parts_eq s_def by (simp split: prod.splits)
  assume "\<bar>fst (ymd (z * 86400))\<bar> < 2 ^ 31"
  then show "civil_from_days z = ymd (z * 86400)"
    unfolding civil_ymd by (auto simp: as_i32_small split: prod.splits)
qed

theorem calendar_correct_witness: "civil_from_days 20514 = (2026, 3, 2)"
proof -
  have y: "ymd (20514 * 86400) = (2026, 3, 2)" by code_simp
  then have "\<bar>fst (ymd (20514 * 86400))\<bar> < 2 ^ 31" by simp
  from calendar_correct [of 0 20514] this y show ?thesis by simp
qed

section \<open>The stamp\<close>

lemma show_pad_chars: "c \<in> set (show_pad w x) \<Longrightarrow> is_digit c \<or> c = CHR ''-''"
  by (auto simp: show_pad_def pad0_def dest!: show_nat_digits split: if_splits) (simp add: is_digit_def)+

lemma utc_timestamp_chars: "c \<in> set (utc_timestamp_ymd secs) \<Longrightarrow> is_digit c \<or> c = CHR ''-''"
  by (auto simp: utc_timestamp_ymd_def split: prod.splits dest!: show_pad_chars)

lemma utc_timestamp_not_Nil [simp]: "utc_timestamp_ymd secs \<noteq> []"
  by (simp add: utc_timestamp_ymd_def split: prod.splits)

end
