(* ===== verification/Atom_Drift.thy ===== *)
theory Atom_Drift
  imports Atom_Pins Civil_Date
begin

text \<open>
  The drift snapshot (\<open>atom_drift.rs\<close>): at every refresh each source's pinned commit is compared with the head
  of its upstream, and the time a source fell behind is carried from snapshot to snapshot. \<open>probe k\<close> is the
  \<open>k\<close>-th probe of a tick; the HTTP client and the JSON encoder and decoders are parameters. A source's entry has the fields of the protocol's \<open>drift_entry\<close>.
\<close>

record drift_snapshot =
  ds_updated_at :: string
  ds_sources :: "drift_entry list"

definition any_behind :: "drift_snapshot \<Rightarrow> bool" where
  "any_behind s \<longleftrightarrow> list_ex is_behind (ds_sources s)"

definition current_rfc3339 :: "u64 \<Rightarrow> string" where
  "current_rfc3339 now = rfc3339 (sint now)"

fun diff_step :: "string option \<Rightarrow> string option \<Rightarrow> string option \<Rightarrow> string \<Rightarrow> string option" where
  "diff_step prev None u now = None"
| "diff_step prev (Some p) (Some u) now =
     (if p = u then None else Some (case prev of Some t \<Rightarrow> t | None \<Rightarrow> now))"
| "diff_step prev (Some p) None now = prev"

definition pin_for :: "atom_pins option \<Rightarrow> SourceId \<Rightarrow> string option" where
  "pin_for pins sid = map_option pin_commit (pin_of pins sid)"

definition head_sha_url :: "string \<Rightarrow> string" where
  "head_sha_url repo = ''https://api.github.com/repos/'' @ repo @ ''/commits/master?per_page=1''"

text \<open>\<open>http\<close> is the request and the reading of its body, \<open>commit_sha\<close> the decoding of the answer.\<close>

definition probe_head_sha :: "(string \<Rightarrow> (string, string) result) \<Rightarrow> (string \<Rightarrow> string option) \<Rightarrow> string \<Rightarrow> string option" where
  "probe_head_sha http commit_sha repo =
     (case http (head_sha_url repo) of Inl _ \<Rightarrow> None | Inr body \<Rightarrow> commit_sha body)"

definition prev_anchor :: "drift_snapshot option \<Rightarrow> string \<Rightarrow> string option" where
  "prev_anchor prev name =
     Option.bind (Option.bind prev (\<lambda>s. find (\<lambda>e. de_name e = name) (ds_sources s))) de_behind_since"

fun snapshot_entries ::
    "atom_pins option \<Rightarrow> (nat \<Rightarrow> string \<Rightarrow> string option) \<Rightarrow> string \<Rightarrow> drift_snapshot option \<Rightarrow> nat \<Rightarrow> SourceId list
     \<Rightarrow> drift_entry list" where
  "snapshot_entries pins probe now prev k [] = []"
| "snapshot_entries pins probe now prev k (sid # sids) =
     (let name = source_name sid;
          pinned = pin_for pins sid;
          upstream = probe k (source_repo sid)
      in \<lparr>de_name = name, de_pinned = pinned, de_upstream = upstream,
          de_behind_since = diff_step (prev_anchor prev name) pinned upstream now\<rparr>)
     # snapshot_entries pins probe now prev (k + 1) sids"

definition compute_snapshot ::
    "atom_pins option \<Rightarrow> SourceId list \<Rightarrow> (nat \<Rightarrow> string \<Rightarrow> string option) \<Rightarrow> u64 \<Rightarrow> drift_snapshot option
     \<Rightarrow> drift_snapshot" where
  "compute_snapshot pins sids probe clock prev =
     (let now = current_rfc3339 clock
      in \<lparr>ds_updated_at = now, ds_sources = snapshot_entries pins probe now prev 0 sids\<rparr>)"

definition read_snapshot ::
    "os_env \<Rightarrow> (string \<Rightarrow> drift_snapshot option) \<Rightarrow> path \<Rightarrow> (os_error, drift_snapshot option) io" where
  "read_snapshot env decode p w =
     (case sys_read env p w of
        (Inl ENotFound, w1) \<Rightarrow> (Inr None, w1)
      | (Inl e, w1) \<Rightarrow> (Inl e, w1)
      | (Inr bytes, w1) \<Rightarrow> (case decode bytes of Some s \<Rightarrow> (Inr (Some s), w1) | None \<Rightarrow> (Inl EInvalidData, w1)))"

definition write_snapshot ::
    "os_env \<Rightarrow> (drift_snapshot \<Rightarrow> string) \<Rightarrow> path \<Rightarrow> drift_snapshot \<Rightarrow> (os_error, unit) io" where
  "write_snapshot env render p s = write_snapshot_bytes env p (render s)"

section \<open>What the anchor is\<close>

text \<open>One refresh as the operator sees it.\<close>

record drift_tick =
  dt_pins :: "atom_pins option"
  dt_probe :: "nat \<Rightarrow> string \<Rightarrow> string option"
  dt_clock :: u64

definition snapshot_tick :: "SourceId list \<Rightarrow> drift_snapshot option \<Rightarrow> drift_tick \<Rightarrow> drift_snapshot option" where
  "snapshot_tick sids prev t = Some (compute_snapshot (dt_pins t) sids (dt_probe t) (dt_clock t) prev)"

definition snapshots_after :: "SourceId list \<Rightarrow> drift_tick list \<Rightarrow> drift_snapshot option" where
  "snapshots_after sids ts = foldl (snapshot_tick sids) None ts"

text \<open>The history of one source, and the two observations that matter.\<close>

definition observed :: "SourceId \<Rightarrow> nat \<Rightarrow> drift_tick \<Rightarrow> string option \<times> string option" where
  "observed sid k t = (pin_for (dt_pins t) sid, dt_probe t k (source_repo sid))"

definition settled :: "string option \<times> string option \<Rightarrow> bool" where
  "settled o2 \<longleftrightarrow> fst o2 = None \<or> fst o2 = snd o2"

definition drifted :: "string option \<times> string option \<Rightarrow> bool" where
  "drifted o2 \<longleftrightarrow> fst o2 \<noteq> None \<and> snd o2 \<noteq> None \<and> fst o2 \<noteq> snd o2"

definition unsettled_run :: "SourceId \<Rightarrow> nat \<Rightarrow> drift_tick list \<Rightarrow> drift_tick list" where
  "unsettled_run sid k ts = rev (takeWhile (\<lambda>t. \<not> settled (observed sid k t)) (rev ts))"

definition first_behind :: "SourceId \<Rightarrow> nat \<Rightarrow> drift_tick list \<Rightarrow> string option" where
  "first_behind sid k ts =
     map_option (\<lambda>t. current_rfc3339 (dt_clock t)) (find (\<lambda>t. drifted (observed sid k t)) (unsettled_run sid k ts))"

lemma find_snoc: "find P (xs @ [x]) = (case find P xs of Some y \<Rightarrow> Some y | None \<Rightarrow> if P x then Some x else None)"
  by (induction xs) auto

lemma unsettled_run_snoc:
  "unsettled_run sid k (ts @ [t]) = (if settled (observed sid k t) then [] else unsettled_run sid k ts @ [t])"
  by (simp add: unsettled_run_def)

lemma diff_step_first_behind:
  "diff_step (first_behind sid k ts) (fst (observed sid k t)) (snd (observed sid k t)) (current_rfc3339 (dt_clock t))
   = first_behind sid k (ts @ [t])"
  by (cases "fst (observed sid k t)"; cases "snd (observed sid k t)")
     (auto simp: first_behind_def unsettled_run_snoc find_snoc settled_def drifted_def split: option.splits)

lemma source_name_inj: "source_name a = source_name b \<longleftrightarrow> a = b"
  by (cases a; cases b) auto

lemma find_entry:
  "distinct sids \<Longrightarrow> i < length sids \<Longrightarrow>
   find (\<lambda>e. de_name e = source_name (sids ! i)) (snapshot_entries pins probe now prev k sids)
   = Some \<lparr>de_name = source_name (sids ! i), de_pinned = pin_for pins (sids ! i),
        de_upstream = probe (k + i) (source_repo (sids ! i)),
        de_behind_since = diff_step (prev_anchor prev (source_name (sids ! i))) (pin_for pins (sids ! i))
          (probe (k + i) (source_repo (sids ! i))) now\<rparr>"
proof (induction sids arbitrary: i k)
  case (Cons s sids)
  show ?case
  proof (cases i)
    case (Suc j)
    with Cons.prems have "s \<noteq> sids ! j" by auto
    with Suc Cons show ?thesis by (simp add: Let_def source_name_inj)
  qed (simp add: Let_def)
qed simp

lemma anchor_after:
  assumes "distinct sids" and "i < length sids"
  shows "prev_anchor (snapshots_after sids ts) (source_name (sids ! i)) = first_behind (sids ! i) i ts"
proof (induction ts rule: rev_induct)
  case Nil
  show ?case by (simp add: snapshots_after_def prev_anchor_def first_behind_def unsettled_run_def)
next
  case (snoc t ts)
  have "prev_anchor (snapshots_after sids (ts @ [t])) (source_name (sids ! i))
      = diff_step (prev_anchor (snapshots_after sids ts) (source_name (sids ! i))) (fst (observed (sids ! i) i t))
          (snd (observed (sids ! i) i t)) (current_rfc3339 (dt_clock t))"
    using assms
    by (simp add: snapshots_after_def snapshot_tick_def compute_snapshot_def Let_def prev_anchor_def [of "Some _"]
        find_entry observed_def)
  then show ?case by (simp add: snoc diff_step_first_behind)
qed

text \<open>
  C40. The "behind since" date is right. After any sequence of refreshes, a source's entry carries the time of the
  first refresh that saw the pin differ from upstream since the source was last in step (pin equal to
  upstream, or no pin): a failing probe neither starts nor ends nor moves a drift, and the entry exists for
  every configured source. A source that is behind now always carries a date.
\<close>

theorem behind_since_anchor:
  assumes "distinct sids" and "i < length sids"
  shows "\<exists>e. find (\<lambda>e. de_name e = source_name (sids ! i))
        (ds_sources (compute_snapshot (dt_pins t) sids (dt_probe t) (dt_clock t) (snapshots_after sids ts))) = Some e
    \<and> de_behind_since e = first_behind (sids ! i) i (ts @ [t])
    \<and> (is_behind e \<longrightarrow> de_behind_since e \<noteq> None)
    \<and> (de_behind_since e \<noteq> None \<longrightarrow> de_pinned e \<noteq> None \<and> de_pinned e \<noteq> de_upstream e)"
proof -
  let ?e = "\<lparr>de_name = source_name (sids ! i), de_pinned = pin_for (dt_pins t) (sids ! i),
      de_upstream = dt_probe t i (source_repo (sids ! i)),
      de_behind_since = first_behind (sids ! i) i (ts @ [t])\<rparr>"
  have "find (\<lambda>e. de_name e = source_name (sids ! i))
        (ds_sources (compute_snapshot (dt_pins t) sids (dt_probe t) (dt_clock t) (snapshots_after sids ts))) = Some ?e"
    using find_entry [OF assms, of _ _ _ _ 0] anchor_after [OF assms, of ts]
      diff_step_first_behind [of "sids ! i" i ts t]
    by (simp add: compute_snapshot_def Let_def observed_def)
  moreover have "is_behind ?e \<longrightarrow> first_behind (sids ! i) i (ts @ [t]) \<noteq> None"
    by (auto simp: first_behind_def unsettled_run_snoc find_snoc settled_def drifted_def observed_def split: option.splits)
  moreover have "first_behind (sids ! i) i (ts @ [t]) \<noteq> None
      \<longrightarrow> de_pinned ?e \<noteq> None \<and> de_pinned ?e \<noteq> de_upstream ?e"
    by (auto simp: first_behind_def unsettled_run_snoc settled_def observed_def split: if_splits)
  ultimately show ?thesis by (intro exI [of _ ?e]) simp
qed

abbreviation drift_demo_tick :: "string option \<Rightarrow> u64 \<Rightarrow> drift_tick" where
  "drift_demo_tick up clock \<equiv> \<lparr>dt_pins = Some \<lparr>pins_gtfobins = Some \<lparr>pin_commit = ''aa'', pin_sha256 = ''bb''\<rparr>,
     pins_sigma = None\<rparr>, dt_probe = (\<lambda>_ _. up), dt_clock = clock\<rparr>"

theorem behind_since_anchor_witness:
  "\<exists>e. find (\<lambda>e. de_name e = ''gtfobins'')
        (ds_sources (compute_snapshot (dt_pins (drift_demo_tick None 9)) [Gtfobins] (dt_probe (drift_demo_tick None 9)) 9
          (snapshots_after [Gtfobins] [drift_demo_tick (Some ''aa'') 1, drift_demo_tick (Some ''cc'') 5, drift_demo_tick (Some ''dd'') 7]))) = Some e
    \<and> de_behind_since e = Some (current_rfc3339 5)"
proof -
  let ?ts = "[drift_demo_tick (Some ''aa'') 1, drift_demo_tick (Some ''cc'') 5, drift_demo_tick (Some ''dd'') 7]"
  have "first_behind Gtfobins 0 (?ts @ [drift_demo_tick None 9]) = Some (current_rfc3339 5)"
    by (simp add: first_behind_def unsettled_run_def observed_def settled_def drifted_def pin_for_def)
  with behind_since_anchor [of "[Gtfobins]" 0 "drift_demo_tick None 9" ?ts] show ?thesis by (auto simp del: append.simps)
qed

end
