(* ===== verification/Trust_Store.thy ===== *)
theory Trust_Store
  imports Fs_World Civil_Date
begin

text \<open>
  The per-user trust state of the daemon (\<open>trust_store.rs\<close>): a persistent layer read from three files
  per user and a session layer held in memory. An operation takes the store and the world and
  returns a result with both. \<open>intf\<close> in \<open>session_write\<close> is what other threads do to the store in the
  two windows in which that operation holds no lock on it.

  Shown here: every user's state and files are untouched by the operations of the others, whatever
  system calls fail. The server relies on the locale \<open>user_scoped\<close>.
\<close>

section \<open>State\<close>

record per_user_state =
  persistent_atoms :: "string hashset"
  persistent_urls_allow :: "string hashset"
  persistent_urls_block :: "string hashset"
  persistent_trust :: "string hashset"
  session_atoms :: "string hashset"
  session_urls_allow :: "string hashset"
  session_urls_block :: "string hashset"
  session_trust :: "string hashset"

definition user_default :: per_user_state where
  "user_default =
     \<lparr>persistent_atoms = [], persistent_urls_allow = [], persistent_urls_block = [], persistent_trust = [],
      session_atoms = [], session_urls_allow = [], session_urls_block = [], session_trust = []\<rparr>"

text \<open>
  A write lock is an identity with the number of handles that callers hold on it
  (\<open>Arc::strong_count\<close> less the map's own reference).
\<close>

record trust_store =
  data_root :: path
  user_states :: "u32 \<rightharpoonup> per_user_state"
  write_locks :: "(u32 \<times> nat \<times> nat) list"
  next_lock :: nat
  loaded :: "u32 hashset"
  system_fetched_atoms :: "string list"
  system_fetched_path :: path
  system_fetched_loaded :: bool

record session_write_report =
  atoms_added :: nat
  urls_allow_added :: nat
  urls_block_added :: nat
  trust_added :: nat
  invalid :: "(string \<times> entry_error) list"
  not_persisted :: "(string \<times> entry_error) list"

definition report_default :: session_write_report where
  "report_default = \<lparr>atoms_added = 0, urls_allow_added = 0, urls_block_added = 0, trust_added = 0,
     invalid = [], not_persisted = []\<rparr>"

type_synonym 'a sop = "trust_store \<Rightarrow> world \<Rightarrow> (io_error, 'a) result \<times> trust_store \<times> world"

definition sop_ret :: "'a \<Rightarrow> 'a sop" where
  "sop_ret a s w = (Inr a, s, w)"

definition sop_err :: "io_error \<Rightarrow> 'a sop" where
  "sop_err e s w = (Inl e, s, w)"

definition sop_bind :: "'a sop \<Rightarrow> ('a \<Rightarrow> 'b sop) \<Rightarrow> 'b sop" where
  "sop_bind m f s w = (case m s w of (Inl e, s', w') \<Rightarrow> (Inl e, s', w') | (Inr a, s', w') \<Rightarrow> f a s' w')"

definition sop_io :: "(os_error, 'a) io \<Rightarrow> 'a sop" where
  "sop_io m s w = (case m w of (Inl e, w') \<Rightarrow> (Inl (Os e), s, w') | (Inr a, w') \<Rightarrow> (Inr a, s, w'))"

definition sop_get :: "(trust_store \<Rightarrow> 'a) \<Rightarrow> 'a sop" where
  "sop_get f s w = (Inr (f s), s, w)"

definition sop_modify :: "(trust_store \<Rightarrow> trust_store) \<Rightarrow> unit sop" where
  "sop_modify f s w = (Inr (), f s, w)"

definition user_entry :: "trust_store \<Rightarrow> u32 \<Rightarrow> per_user_state" where
  "user_entry s uid = (case user_states s uid of None \<Rightarrow> user_default | Some e \<Rightarrow> e)"

definition set_user :: "u32 \<Rightarrow> per_user_state \<Rightarrow> trust_store \<Rightarrow> trust_store" where
  "set_user uid e s = s\<lparr>user_states := (user_states s)(uid \<mapsto> e)\<rparr>"

section \<open>Construction and paths\<close>

definition trust_store_new :: "os_env \<Rightarrow> path \<Rightarrow> world \<Rightarrow> trust_store \<times> world" where
  "trust_store_new env dr w =
     (\<lparr>data_root = dr, user_states = Map.empty, write_locks = [], next_lock = 0, loaded = [],
       system_fetched_atoms = [],
       system_fetched_path = (if dr = [] then [''atoms.system.txt''] else butlast dr @ [''atoms.system.txt'']),
       system_fetched_loaded = False\<rparr>, sweep_stale_tmp_files env dr w)"

definition user_atoms_path :: "trust_store \<Rightarrow> u32 \<Rightarrow> path" where
  "user_atoms_path s uid = data_root s @ [show_u32 uid, ''atoms.user.txt'']"

definition user_urls_path :: "trust_store \<Rightarrow> u32 \<Rightarrow> path" where
  "user_urls_path s uid = data_root s @ [show_u32 uid, ''urls.decisions.txt'']"

definition user_trust_path :: "trust_store \<Rightarrow> u32 \<Rightarrow> path" where
  "user_trust_path s uid = data_root s @ [show_u32 uid, ''commands.trusted.txt'']"

definition SOFT_CAP :: nat where "SOFT_CAP = 1024"

definition acquire_write_lock :: "u32 \<Rightarrow> trust_store \<Rightarrow> nat \<times> trust_store" where
  "acquire_write_lock uid s =
     (let m = (if SOFT_CAP < length (write_locks s)
               then filter (\<lambda>p. 0 < snd (snd p)) (write_locks s) else write_locks s)
      in (case map_of m uid of
            Some (l, n) \<Rightarrow> (l, s\<lparr>write_locks := am_upd uid (l, n + 1) m\<rparr>)
          | None \<Rightarrow> (next_lock s, s\<lparr>write_locks := am_upd uid (next_lock s, 1) m, next_lock := next_lock s + 1\<rparr>)))"

definition release_write_lock :: "u32 \<Rightarrow> trust_store \<Rightarrow> trust_store" where
  "release_write_lock uid s =
     (case map_of (write_locks s) uid of
        Some (l, n) \<Rightarrow> s\<lparr>write_locks := am_upd uid (l, n - 1) (write_locks s)\<rparr>
      | None \<Rightarrow> s)"

definition with_write_lock :: "u32 \<Rightarrow> 'a sop \<Rightarrow> 'a sop" where
  "with_write_lock uid body s w =
     (case acquire_write_lock uid s of (_, s1) \<Rightarrow>
        (case body s1 w of (r, s2, w2) \<Rightarrow> (r, release_write_lock uid s2, w2)))"

section \<open>Files\<close>

definition read_if_exists :: "os_env \<Rightarrow> (string \<Rightarrow> 'a) \<Rightarrow> 'a \<Rightarrow> path \<Rightarrow> (os_error, 'a) io" where
  "read_if_exists env parse none p w =
     (case sys_exists env p w of
        (False, w1) \<Rightarrow> (Inr none, w1)
      | (True, w1) \<Rightarrow> io_bind (sys_read_to_string env p) (\<lambda>c. io_ret (parse c)) w1)"

definition read_atoms_file :: "os_env \<Rightarrow> path \<Rightarrow> (os_error, string hashset) io" where
  "read_atoms_file env p = read_if_exists env parse_atoms_content [] p"

definition read_urls_file :: "os_env \<Rightarrow> path \<Rightarrow> (os_error, string hashset \<times> string hashset) io" where
  "read_urls_file env p = read_if_exists env parse_urls_content ([], []) p"

definition read_trust_file :: "os_env \<Rightarrow> path \<Rightarrow> (os_error, string hashset) io" where
  "read_trust_file env p = read_if_exists env parse_trust_content [] p"

definition write_atoms_file :: "os_env \<Rightarrow> path \<Rightarrow> string hashset \<Rightarrow> string \<Rightarrow> (os_error, unit) io" where
  "write_atoms_file env p atoms source =
     write_atomic env p (atoms_content (utc_timestamp_ymd (now_secs env)) source atoms)"

definition write_urls_file :: "os_env \<Rightarrow> path \<Rightarrow> string hashset \<Rightarrow> string hashset \<Rightarrow> (os_error, unit) io" where
  "write_urls_file env p allow block =
     write_atomic env p (urls_content (utc_timestamp_ymd (now_secs env)) allow block)"

definition write_trust_file :: "os_env \<Rightarrow> path \<Rightarrow> string hashset \<Rightarrow> (os_error, unit) io" where
  "write_trust_file env p hashes =
     write_atomic env p (trust_content (utc_timestamp_ymd (now_secs env)) hashes)"

definition read_system_atoms_file_checked :: "os_env \<Rightarrow> path \<Rightarrow> (io_error, string hashset) io" where
  "read_system_atoms_file_checked env p w =
     (case sys_metadata env p w of
        (Inl ENotFound, w1) \<Rightarrow> (Inr [], w1)
      | (Inl e, w1) \<Rightarrow> (Inl (Os e), w1)
      | (Inr (uid, mo), w1) \<Rightarrow>
          if uid \<noteq> euid env then (Inl (OwnerMismatch uid (euid env)), w1)
          else if (mo AND 0x1FF) AND 0x12 \<noteq> 0 then (Inl (UnsafeMode (mo AND 0x1FF)), w1)
          else map_err Os (io_bind (sys_read_to_string env p) (\<lambda>c. io_ret (parse_atoms_content c))) w1)"

definition reload_system_fetched :: "os_env \<Rightarrow> nat sop" where
  "reload_system_fetched env s w =
     (case read_system_atoms_file_checked env (system_fetched_path s) w of
        (Inl e, w1) \<Rightarrow> (Inl e, s, w1)
      | (Inr parsed, w1) \<Rightarrow>
          (Inr (length parsed), s\<lparr>system_fetched_atoms := sorted_vec parsed, system_fetched_loaded := True\<rparr>, w1))"

definition ensure_system_fetched_loaded :: "os_env \<Rightarrow> trust_store \<Rightarrow> world \<Rightarrow> trust_store \<times> world" where
  "ensure_system_fetched_loaded env s w =
     (if system_fetched_loaded s then (s, w) else snd (reload_system_fetched env s w))"

definition list_system_fetched :: "trust_store \<Rightarrow> string list" where
  "list_system_fetched s = system_fetched_atoms s"

section \<open>Loading and listing\<close>

definition load_persistent :: "os_env \<Rightarrow> u32 \<Rightarrow> unit sop" where
  "load_persistent env uid s =
     sop_bind (sop_io (read_atoms_file env (user_atoms_path s uid))) (\<lambda>atoms.
     sop_bind (sop_io (read_urls_file env (user_urls_path s uid))) (\<lambda>(allow, block).
     sop_bind (sop_io (read_trust_file env (user_trust_path s uid))) (\<lambda>trust.
     sop_modify (\<lambda>s.
       (set_user uid ((user_entry s uid)\<lparr>persistent_atoms := atoms, persistent_urls_allow := allow,
          persistent_urls_block := block, persistent_trust := trust\<rparr>) s)\<lparr>loaded := hs_insert uid (loaded s)\<rparr>)))) s"

definition ensure_loaded :: "os_env \<Rightarrow> u32 \<Rightarrow> unit sop" where
  "ensure_loaded env uid s w =
     (if uid \<in> set (loaded s) then (Inr (), s, w) else load_persistent env uid s w)"

definition list_atoms :: "trust_store \<Rightarrow> u32 \<Rightarrow> ListScope \<Rightarrow> string list" where
  "list_atoms s uid scope =
     (case user_states s uid of None \<Rightarrow> []
      | Some e \<Rightarrow> (case scope of Persistent \<Rightarrow> sorted_vec (persistent_atoms e) | SessionList \<Rightarrow> sorted_vec (session_atoms e)))"

definition list_urls :: "trust_store \<Rightarrow> u32 \<Rightarrow> (string \<times> UrlDecision) list" where
  "list_urls s uid =
     (case user_states s uid of None \<Rightarrow> []
      | Some e \<Rightarrow> map (\<lambda>h. (h, Allow)) (sorted_vec (persistent_urls_allow e))
               @ map (\<lambda>h. (h, BlockUrl)) (sorted_vec (persistent_urls_block e))
               @ map (\<lambda>h. (h, SessionAllow)) (sorted_vec (session_urls_allow e))
               @ map (\<lambda>h. (h, SessionBlock)) (sorted_vec (session_urls_block e)))"

definition list_persistent_trust :: "trust_store \<Rightarrow> u32 \<Rightarrow> string list" where
  "list_persistent_trust s uid =
     (case user_states s uid of None \<Rightarrow> [] | Some e \<Rightarrow> sorted_vec (persistent_trust e))"

definition session_summary :: "trust_store \<Rightarrow> u32 \<Rightarrow> string list \<times> string list \<times> string list \<times> string list" where
  "session_summary s uid =
     (case user_states s uid of None \<Rightarrow> ([], [], [], [])
      | Some e \<Rightarrow> (sorted_vec (session_atoms e), sorted_vec (session_urls_allow e),
                  sorted_vec (session_urls_block e), sorted_vec (session_trust e)))"

fun as_wire_str :: "UrlDecision \<Rightarrow> string" where
  "as_wire_str Allow = ''allow''"
| "as_wire_str BlockUrl = ''block''"
| "as_wire_str SessionAllow = ''session-allow''"
| "as_wire_str SessionBlock = ''session-block''"

section \<open>The session layer\<close>

definition session_clear :: "u32 \<Rightarrow> trust_store \<Rightarrow> trust_store" where
  "session_clear uid s =
     (case user_states s uid of None \<Rightarrow> s
      | Some e \<Rightarrow> set_user uid (e\<lparr>session_atoms := [], session_urls_allow := [], session_urls_block := [], session_trust := []\<rparr>) s)"

definition session_add_trust :: "u32 \<Rightarrow> string \<Rightarrow> trust_store \<Rightarrow> (message, unit) result \<times> trust_store" where
  "session_add_trust uid hash s =
     (case validate_trust_hash hash of
        Inl e \<Rightarrow> (Inl (MEntry e), s)
      | Inr _ \<Rightarrow>
        (let e = user_entry s uid
         in case capped_add SESSION_PER_KIND_CAP hash (session_trust e) of
              None \<Rightarrow> (Inl MSessionTrustFull, set_user uid e s)
            | Some t \<Rightarrow> (Inr (), set_user uid (e\<lparr>session_trust := t\<rparr>) s)))"

definition session_add_url_block :: "u32 \<Rightarrow> string \<Rightarrow> trust_store \<Rightarrow> (message, unit) result \<times> trust_store" where
  "session_add_url_block uid host s =
     (case validate_host host of
        Inl e \<Rightarrow> (Inl (MEntry e), s)
      | Inr _ \<Rightarrow>
        (let e = user_entry s uid
         in case capped_add SESSION_PER_KIND_CAP host (session_urls_block e) of
              None \<Rightarrow> (Inl MSessionUrlBlockFull, set_user uid e s)
            | Some b \<Rightarrow> (Inr (), set_user uid (e\<lparr>session_urls_block := b\<rparr>) s)))"

definition is_session_trusted :: "trust_store \<Rightarrow> u32 \<Rightarrow> string \<Rightarrow> bool" where
  "is_session_trusted s uid hash =
     (case user_states s uid of None \<Rightarrow> False | Some e \<Rightarrow> hash \<in> set (session_trust e))"

definition session_add_atom :: "u32 \<Rightarrow> string \<Rightarrow> trust_store \<Rightarrow> trust_store" where
  "session_add_atom uid atom s =
     (let e = user_entry s uid in set_user uid (e\<lparr>session_atoms := hs_insert atom (session_atoms e)\<rparr>) s)"

section \<open>The persistent layer\<close>

definition persistent_add_atom :: "os_env \<Rightarrow> (string \<Rightarrow> bool) \<Rightarrow> u32 \<Rightarrow> string \<Rightarrow> unit sop" where
  "persistent_add_atom env alnum uid pat s w =
     (case validate_atom alnum pat of
        Inl e \<Rightarrow> (Inl (InvalidInput e), s, w)
      | Inr _ \<Rightarrow> with_write_lock uid
          (sop_bind (sop_get (\<lambda>s. user_atoms_path s uid)) (\<lambda>p.
           sop_bind (sop_io (ensure_parent_dir env p)) (\<lambda>_.
           sop_bind (sop_io (read_atoms_file env p)) (\<lambda>existing.
             if pat \<in> set existing then sop_ret ()
             else sop_bind (sop_io (write_atoms_file env p (hs_insert pat existing) ''atoms add''))
                    (\<lambda>_. load_persistent env uid))))) s w)"

definition remove_atom_at :: "os_env \<Rightarrow> u32 \<Rightarrow> string \<Rightarrow> path \<Rightarrow> bool sop" where
  "remove_atom_at env uid pat p =
     sop_bind (sop_io (read_atoms_file env p)) (\<lambda>existing.
       if pat \<in> set existing
       then sop_bind (sop_io (write_atoms_file env p (hs_remove pat existing) ''atoms remove''))
              (\<lambda>_. sop_bind (load_persistent env uid) (\<lambda>_. sop_ret True))
       else sop_ret False)"

definition persistent_remove_atom :: "os_env \<Rightarrow> u32 \<Rightarrow> string \<Rightarrow> bool sop" where
  "persistent_remove_atom env uid pat = with_write_lock uid (\<lambda>s w.
     (case sys_exists env (user_atoms_path s uid) w of
        (False, w1) \<Rightarrow> (Inr False, s, w1)
      | (True, w1) \<Rightarrow> remove_atom_at env uid pat (user_atoms_path s uid) s w1))"

definition persistent_add_url :: "os_env \<Rightarrow> u32 \<Rightarrow> string \<Rightarrow> UrlDecision \<Rightarrow> unit sop" where
  "persistent_add_url env uid host dec s w =
     (case validate_host host of
        Inl e \<Rightarrow> (Inl (InvalidInput e), s, w)
      | Inr _ \<Rightarrow> with_write_lock uid
          (sop_bind (sop_get (\<lambda>s. user_urls_path s uid)) (\<lambda>p.
           sop_bind (sop_io (ensure_parent_dir env p)) (\<lambda>_.
           sop_bind (sop_io (read_urls_file env p)) (\<lambda>(allow0, block0).
             let allow = hs_remove host allow0; block = hs_remove host block0;
                 (allow, block) = (if dec \<in> {Allow, SessionAllow} then (hs_insert host allow, block)
                                   else (allow, hs_insert host block))
             in sop_bind (sop_io (write_urls_file env p allow block))
                  (\<lambda>_. load_persistent env uid))))) s w)"

definition persistent_add_trust :: "os_env \<Rightarrow> u32 \<Rightarrow> string \<Rightarrow> unit sop" where
  "persistent_add_trust env uid hash s w =
     (case validate_trust_hash hash of
        Inl e \<Rightarrow> (Inl (InvalidInput e), s, w)
      | Inr _ \<Rightarrow> with_write_lock uid
          (sop_bind (sop_get (\<lambda>s. user_trust_path s uid)) (\<lambda>p.
           sop_bind (sop_io (ensure_parent_dir env p)) (\<lambda>_.
           sop_bind (sop_io (read_trust_file env p)) (\<lambda>existing.
             if hash \<in> set existing then sop_ret ()
             else if PERSISTENT_TRUST_CAP \<le> length existing then sop_err (InvalidInput TrustFileFull)
             else sop_bind (sop_io (write_trust_file env p (hs_insert hash existing)))
                    (\<lambda>_. load_persistent env uid))))) s w)"

section \<open>Writing the session to disk\<close>

text \<open>The loops over the session sets: what is on disk, how many entries were new, which are persisted.\<close>

record merge =
  on_disk :: "string hashset"
  added :: nat
  persisted :: "string hashset"
  bad :: "(string \<times> entry_error) list"
  full :: "(string \<times> entry_error) list"

definition merge_start :: "string hashset \<Rightarrow> merge" where
  "merge_start d = \<lparr>on_disk = d, added = 0, persisted = [], bad = [], full = []\<rparr>"

definition merge_atom :: "(string \<Rightarrow> bool) \<Rightarrow> string \<Rightarrow> merge \<Rightarrow> merge" where
  "merge_atom alnum a m =
     (case validate_atom alnum a of
        Inr _ \<Rightarrow> m\<lparr>on_disk := hs_insert a (on_disk m),
                 added := added m + (if a \<in> set (on_disk m) then 0 else 1),
                 persisted := hs_insert a (persisted m)\<rparr>
      | Inl e \<Rightarrow> m\<lparr>bad := bad m @ [(a, e)]\<rparr>)"

definition merge_host :: "string \<Rightarrow> merge \<times> string hashset \<Rightarrow> merge \<times> string hashset" where
  "merge_host h st =
     (case st of (m, other) \<Rightarrow>
       (case validate_host h of
          Inr _ \<Rightarrow> (m\<lparr>on_disk := hs_insert h (on_disk m),
                    added := added m + (if h \<in> set (on_disk m) then 0 else 1),
                    persisted := hs_insert h (persisted m)\<rparr>, hs_remove h other)
        | Inl e \<Rightarrow> (m\<lparr>bad := bad m @ [(h, e)]\<rparr>, other)))"

definition merge_trust :: "string \<Rightarrow> merge \<Rightarrow> merge" where
  "merge_trust h m =
     (case validate_trust_hash h of
        Inr _ \<Rightarrow> (if h \<in> set (on_disk m) then m\<lparr>persisted := hs_insert h (persisted m)\<rparr>
                 else if PERSISTENT_TRUST_CAP \<le> length (on_disk m) then m\<lparr>full := full m @ [(h, TrustFileFull)]\<rparr>
                 else m\<lparr>on_disk := hs_insert h (on_disk m), added := added m + 1,
                        persisted := hs_insert h (persisted m)\<rparr>)
      | Inl e \<Rightarrow> m\<lparr>bad := bad m @ [(h, e)]\<rparr>)"

definition write_session_atoms :: "os_env \<Rightarrow> (string \<Rightarrow> bool) \<Rightarrow> u32 \<Rightarrow> string hashset \<Rightarrow> merge sop" where
  "write_session_atoms env alnum uid sess =
     (if sess = [] then sop_ret (merge_start [])
      else sop_bind (sop_get (\<lambda>s. user_atoms_path s uid)) (\<lambda>p.
           sop_bind (sop_io (ensure_parent_dir env p)) (\<lambda>_.
           sop_bind (sop_io (read_atoms_file env p)) (\<lambda>existing.
             let m = fold (merge_atom alnum) sess (merge_start existing)
             in if 0 < added m
                then sop_bind (sop_io (write_atoms_file env p (on_disk m) ''session write'')) (\<lambda>_. sop_ret m)
                else sop_ret m))))"

definition write_session_urls :: "os_env \<Rightarrow> u32 \<Rightarrow> string hashset \<Rightarrow> string hashset \<Rightarrow> (merge \<times> merge) sop" where
  "write_session_urls env uid sess_allow sess_block =
     (if sess_allow = [] \<and> sess_block = [] then sop_ret (merge_start [], merge_start [])
      else sop_bind (sop_get (\<lambda>s. user_urls_path s uid)) (\<lambda>p.
           sop_bind (sop_io (ensure_parent_dir env p)) (\<lambda>_.
           sop_bind (sop_io (read_urls_file env p)) (\<lambda>(allow, block).
             let (ma, block) = fold merge_host sess_allow (merge_start allow, block);
                 (mb, allow) = fold merge_host sess_block (merge_start block, on_disk ma)
             in if 0 < added ma \<or> 0 < added mb
                then sop_bind (sop_io (write_urls_file env p allow (on_disk mb))) (\<lambda>_. sop_ret (ma, mb))
                else sop_ret (ma, mb)))))"

definition write_session_trust :: "os_env \<Rightarrow> u32 \<Rightarrow> string hashset \<Rightarrow> merge sop" where
  "write_session_trust env uid sess =
     (if sess = [] then sop_ret (merge_start [])
      else sop_bind (sop_get (\<lambda>s. user_trust_path s uid)) (\<lambda>p.
           sop_bind (sop_io (ensure_parent_dir env p)) (\<lambda>_.
           sop_bind (sop_io (read_trust_file env p)) (\<lambda>existing.
             let m = fold merge_trust sess (merge_start existing)
             in if 0 < added m
                then sop_bind (sop_io (write_trust_file env p (on_disk m))) (\<lambda>_. sop_ret m)
                else sop_ret m))))"

definition retain_unpersisted :: "u32 \<Rightarrow> string hashset \<Rightarrow> string hashset \<Rightarrow> string hashset \<Rightarrow> string hashset
    \<Rightarrow> trust_store \<Rightarrow> trust_store" where
  "retain_unpersisted uid pa pal pbl pt s =
     (case user_states s uid of None \<Rightarrow> s
      | Some e \<Rightarrow> set_user uid (e\<lparr>session_atoms := filter (\<lambda>a. a \<notin> set pa) (session_atoms e),
                   session_urls_allow := filter (\<lambda>h. h \<notin> set pal) (session_urls_allow e),
                   session_urls_block := filter (\<lambda>h. h \<notin> set pbl) (session_urls_block e),
                   session_trust := filter (\<lambda>h. h \<notin> set pt) (session_trust e)\<rparr>) s)"

definition session_write_locked :: "os_env \<Rightarrow> (string \<Rightarrow> bool) \<Rightarrow> (nat \<Rightarrow> trust_store \<Rightarrow> trust_store) \<Rightarrow> u32
    \<Rightarrow> session_write_report sop" where
  "session_write_locked env alnum intf uid =
     (sop_bind (sop_get (\<lambda>s. user_states s uid)) (\<lambda>entry.
      case entry of None \<Rightarrow> sop_ret report_default
      | Some e \<Rightarrow>
        sop_bind (write_session_atoms env alnum uid (session_atoms e)) (\<lambda>ma.
        sop_bind (write_session_urls env uid (session_urls_allow e) (session_urls_block e)) (\<lambda>(mu, mb).
        sop_bind (sop_modify (intf 0)) (\<lambda>_.
        sop_bind (sop_get (\<lambda>s. case user_states s uid of None \<Rightarrow> [] | Some e \<Rightarrow> session_trust e)) (\<lambda>sess_trust.
        sop_bind (write_session_trust env uid sess_trust) (\<lambda>mt.
        sop_bind (load_persistent env uid) (\<lambda>_.
        sop_bind (sop_modify (intf 1)) (\<lambda>_.
        sop_bind (sop_modify (retain_unpersisted uid (persisted ma) (persisted mu) (persisted mb) (persisted mt))) (\<lambda>_.
        sop_ret \<lparr>atoms_added = added ma, urls_allow_added = added mu, urls_block_added = added mb,
                  trust_added = added mt, invalid = bad ma @ bad mu @ bad mb @ bad mt,
                  not_persisted = full mt\<rparr>))))))))))"

definition session_write :: "os_env \<Rightarrow> (string \<Rightarrow> bool) \<Rightarrow> (nat \<Rightarrow> trust_store \<Rightarrow> trust_store) \<Rightarrow> u32
    \<Rightarrow> session_write_report sop" where
  "session_write env alnum intf uid = with_write_lock uid (session_write_locked env alnum intf uid)"

section \<open>What the system calls leave alone\<close>

text \<open>\<open>io_frame D m\<close>: the program \<open>m\<close> changes files below the directory \<open>D\<close> only.\<close>

definition io_frame :: "path \<Rightarrow> ('e, 'a) io \<Rightarrow> bool" where
  "io_frame D m \<longleftrightarrow> (\<forall>w q. \<not> prefix D q \<longrightarrow> lookup_file (snd (m w)) q = lookup_file w q)"

lemma io_frame_files: "(\<And>w. files (snd (m w)) = files w) \<Longrightarrow> io_frame D m"
  by (simp add: io_frame_def)

lemma files_create_dir_all [simp]: "files (snd (sys_create_dir_all env p w)) = files w"
  by (simp add: sys_create_dir_all_def sys_def split: option.splits prod.splits)
     (metis mkdirs_files(1) snd_conv)

lemma files_chmod_dir [simp]: "files (snd (sys_chmod_dir env p m w)) = files w"
  by (simp add: sys_chmod_dir_def sys_def split: option.splits)

lemma files_io_bind:
  "(\<And>w. files (snd (m w)) = files w) \<Longrightarrow> (\<And>a w. files (snd (k a w)) = files w) \<Longrightarrow> files (snd (io_bind m k w)) = files w"
  by (simp add: io_bind_def split: prod.splits sum.splits) (metis snd_conv)

lemma files_read_to_string [simp]: "files (snd (sys_read_to_string env p w)) = files w"
  unfolding sys_read_to_string_def
  by (rule files_io_bind) (simp_all add: sys_read_def sys_def io_ret_def io_err_def split: option.splits)

lemma files_ensure_parent_dir [simp]: "files (snd (ensure_parent_dir env p w)) = files w"
  using files_io_bind [of "sys_create_dir_all env (butlast p)" "\<lambda>_. sys_chmod_dir env (butlast p) 0x1E8" "commit w"]
  by (auto simp: ensure_parent_dir_def sys_exists_def simp del: butlast.simps split: list.split bool.split)

lemma files_read_if_exists [simp]: "files (snd (read_if_exists env g d p w)) = files w"
  using files_io_bind [of "sys_read_to_string env p" "\<lambda>c. io_ret (g c)" "commit w"]
  by (simp add: read_if_exists_def sys_exists_def io_ret_def split: bool.split)

lemma io_frame_reads:
  "io_frame D (ensure_parent_dir env p)" "io_frame D (read_atoms_file env p)"
  "io_frame D (read_urls_file env p)" "io_frame D (read_trust_file env p)"
  by (simp_all add: io_frame_files read_atoms_file_def read_urls_file_def read_trust_file_def)

lemma write_atomic_tmp_butlast [simp]: "butlast (write_atomic_tmp env n p) = butlast p"
  by (simp add: write_atomic_tmp_def with_file_name_def)

lemma prefix_butlast: "prefix D (butlast q) \<Longrightarrow> prefix D q"
  using prefix_order.trans prefixeq_butlast by blast

lemma io_frame_write_atomic:
  assumes "prefix D (butlast p)"
  shows "io_frame D (write_atomic env p c)"
  unfolding io_frame_def
proof (intro allI impI)
  fix w q
  assume q: "\<not> prefix D q"
  obtain r w' where wa: "write_atomic env p c w = (r, w')" by fastforce
  have "q \<noteq> p" "q \<noteq> write_atomic_tmp env (seq w) p"
    using q assms prefix_butlast [of D p] prefix_butlast [of D "write_atomic_tmp env (seq w) p"] by auto
  then show "lookup_file (snd (write_atomic env p c w)) q = lookup_file w q"
    using write_atomic_publishes [OF wa] wa by (auto simp: publishes_def split: if_splits)
qed

lemma io_frame_writes:
  assumes "prefix D (butlast p)"
  shows "io_frame D (write_atoms_file env p a src)" "io_frame D (write_urls_file env p al bl)"
    "io_frame D (write_trust_file env p h)"
  using io_frame_write_atomic [OF assms]
  by (simp_all add: write_atoms_file_def write_urls_file_def write_trust_file_def)

section \<open>Isolation of users\<close>

definition user_dir :: "path \<Rightarrow> u32 \<Rightarrow> path" where
  "user_dir dr uid = dr @ [show_u32 uid]"

lemma user_dir_disjoint: "uid \<noteq> v \<Longrightarrow> prefix (user_dir dr v) q \<Longrightarrow> \<not> prefix (user_dir dr uid) q"
  by (auto simp: user_dir_def prefix_def show_u32_inj)

definition isolated :: "u32 \<Rightarrow> trust_store \<times> world \<Rightarrow> trust_store \<times> world \<Rightarrow> bool" where
  "isolated uid a b \<longleftrightarrow>
     data_root (fst b) = data_root (fst a)
     \<and> (\<forall>v. v \<noteq> uid \<longrightarrow> user_states (fst b) v = user_states (fst a) v \<and> (v \<in> set (loaded (fst b)) \<longleftrightarrow> v \<in> set (loaded (fst a))))
     \<and> system_fetched_atoms (fst b) = system_fetched_atoms (fst a)
     \<and> (\<forall>q. \<not> prefix (user_dir (data_root (fst a)) uid) q \<longrightarrow> lookup_file (snd b) q = lookup_file (snd a) q)"

lemma isolated_refl [simp]: "isolated uid a a"
  by (simp add: isolated_def)

lemma isolated_trans: "isolated uid a b \<Longrightarrow> isolated uid b c \<Longrightarrow> isolated uid a c"
  by (simp add: isolated_def)

definition isop :: "u32 \<Rightarrow> path \<Rightarrow> 'a sop \<Rightarrow> bool" where
  "isop uid dr m \<longleftrightarrow> (\<forall>s w. data_root s = dr \<longrightarrow> isolated uid (s, w) (snd (m s w)))"

lemma isop_ret: "isop uid dr (sop_ret a)" "isop uid dr (sop_err e)"
  by (simp_all add: isop_def sop_ret_def sop_err_def)

lemma isop_bind:
  assumes "isop uid dr m" and "\<And>a. isop uid dr (k a)"
  shows "isop uid dr (sop_bind m k)"
  unfolding isop_def
proof (intro allI impI)
  fix s :: trust_store and w
  assume dr: "data_root s = dr"
  obtain r s1 w1 where m: "m s w = (r, s1, w1)" by (cases "m s w") auto
  with assms(1) dr have i: "isolated uid (s, w) (s1, w1)" by (metis isop_def snd_conv)
  then have "data_root s1 = dr" using dr by (simp add: isolated_def)
  with assms(2) have "isolated uid (s1, w1) (snd (k a s1 w1))" for a by (simp add: isop_def)
  with i m show "isolated uid (s, w) (snd (sop_bind m k s w))"
    by (auto simp: sop_bind_def intro: isolated_trans split: sum.splits)
qed

lemma isop_get:
  assumes "\<And>s. data_root s = dr \<Longrightarrow> isop uid dr (k (f s))"
  shows "isop uid dr (sop_bind (sop_get f) k)"
  using assms by (auto simp: isop_def sop_bind_def sop_get_def)

lemma isop_io: "io_frame (user_dir dr uid) m \<Longrightarrow> isop uid dr (sop_io m)"
  by (auto simp: isop_def sop_io_def io_frame_def isolated_def split: sum.splits prod.splits)
     (metis snd_conv)+

lemma isop_modify: "(\<And>s w. isolated uid (s, w) (f s, w)) \<Longrightarrow> isop uid dr (sop_modify f)"
  by (simp add: isop_def sop_modify_def)

lemma isop_lock:
  assumes "isop uid dr m"
  shows "isop uid dr (with_write_lock uid m)"
  unfolding isop_def
proof (intro allI impI)
  fix s :: trust_store and w
  assume dr: "data_root s = dr"
  obtain l s1 where a: "acquire_write_lock uid s = (l, s1)" by fastforce
  have 1: "isolated uid (s, w) (s1, w)" "data_root s1 = dr"
    using a dr by (auto simp: acquire_write_lock_def Let_def isolated_def split: option.splits prod.splits)
  obtain r s2 w2 where m: "m s1 w = (r, s2, w2)" by (cases "m s1 w") auto
  with assms 1(2) have 2: "isolated uid (s1, w) (s2, w2)" by (metis isop_def snd_conv)
  have "isolated uid (s2, w2) (release_write_lock uid s2, w2)"
    by (auto simp: release_write_lock_def isolated_def split: option.splits)
  with 1(1) 2 a m show "isolated uid (s, w) (snd (with_write_lock uid m s w))"
    by (auto simp: with_write_lock_def intro: isolated_trans)
qed

lemma user_paths_dir:
  "prefix (user_dir (data_root s) uid) (butlast (user_atoms_path s uid))"
  "prefix (user_dir (data_root s) uid) (butlast (user_urls_path s uid))"
  "prefix (user_dir (data_root s) uid) (butlast (user_trust_path s uid))"
  by (simp_all add: user_dir_def user_atoms_path_def user_urls_path_def user_trust_path_def butlast_append)

lemma isolated_set_user: "isolated uid (s, w) (set_user uid e s, w)"
  by (simp add: isolated_def set_user_def)

lemma isolated_loaded: "isolated uid (s, w) ((set_user uid e s)\<lparr>loaded := hs_insert uid l\<rparr>, w) \<longleftrightarrow> (\<forall>v. v \<noteq> uid \<longrightarrow> (v \<in> set l \<longleftrightarrow> v \<in> set (loaded s)))"
  by (auto simp: isolated_def set_user_def)

lemma isop_cases:
  "(\<And>x y. isop uid dr (f x y)) \<Longrightarrow> isop uid dr (case z of (x, y) \<Rightarrow> f x y)"
  "isop uid dr m \<Longrightarrow> isop uid dr n \<Longrightarrow> isop uid dr (if b then m else n)"
  "isop uid dr m \<Longrightarrow> (\<And>e. isop uid dr (g e)) \<Longrightarrow> isop uid dr (case o' of None \<Rightarrow> m | Some e \<Rightarrow> g e)"
  by (auto split: prod.splits option.splits)

lemmas isop_intros = isop_get isop_bind isop_ret isop_io isop_cases isop_lock io_frame_reads io_frame_writes

lemma isop_load: "isop uid dr (load_persistent env uid)"
  unfolding isop_def
proof (intro allI impI)
  fix s :: trust_store and w
  assume dr: "data_root s = dr"
  have "isop uid dr (sop_bind (sop_io (read_atoms_file env (user_atoms_path s uid))) (\<lambda>atoms.
     sop_bind (sop_io (read_urls_file env (user_urls_path s uid))) (\<lambda>(allow, block).
     sop_bind (sop_io (read_trust_file env (user_trust_path s uid))) (\<lambda>trust.
     sop_modify (\<lambda>s.
       (set_user uid ((user_entry s uid)\<lparr>persistent_atoms := atoms, persistent_urls_allow := allow,
          persistent_urls_block := block, persistent_trust := trust\<rparr>) s)\<lparr>loaded := hs_insert uid (loaded s)\<rparr>)))))"
    by (intro isop_intros isop_modify) (simp add: isolated_loaded)
  then show "isolated uid (s, w) (snd (load_persistent env uid s w))"
    unfolding load_persistent_def using dr by (simp only: isop_def)
qed

lemma isop_persistent_add_atom: "isop uid dr (persistent_add_atom env alnum uid pat)"
proof -
  have "isop uid dr (with_write_lock uid
          (sop_bind (sop_get (\<lambda>s. user_atoms_path s uid)) (\<lambda>p.
           sop_bind (sop_io (ensure_parent_dir env p)) (\<lambda>_.
           sop_bind (sop_io (read_atoms_file env p)) (\<lambda>existing.
             if pat \<in> set existing then sop_ret ()
             else sop_bind (sop_io (write_atoms_file env p (hs_insert pat existing) ''atoms add''))
                    (\<lambda>_. load_persistent env uid))))))"
    using user_paths_dir by (intro isop_intros isop_load) blast
  then show ?thesis
    by (cases "validate_atom alnum pat") (simp_all add: isop_def persistent_add_atom_def)
qed

lemma isop_persistent_add_url: "isop uid dr (persistent_add_url env uid host dec)"
proof -
  have "isop uid dr (with_write_lock uid
          (sop_bind (sop_get (\<lambda>s. user_urls_path s uid)) (\<lambda>p.
           sop_bind (sop_io (ensure_parent_dir env p)) (\<lambda>_.
           sop_bind (sop_io (read_urls_file env p)) (\<lambda>(allow0, block0).
             let allow = hs_remove host allow0; block = hs_remove host block0;
                 (allow, block) = (if dec \<in> {Allow, SessionAllow} then (hs_insert host allow, block)
                                   else (allow, hs_insert host block))
             in sop_bind (sop_io (write_urls_file env p allow block))
                  (\<lambda>_. load_persistent env uid))))))"
    using user_paths_dir unfolding Let_def by (intro isop_intros isop_load) blast
  then show ?thesis
    by (cases "validate_host host") (simp_all add: isop_def persistent_add_url_def)
qed

lemma isop_persistent_add_trust: "isop uid dr (persistent_add_trust env uid hash)"
proof -
  have "isop uid dr (with_write_lock uid
          (sop_bind (sop_get (\<lambda>s. user_trust_path s uid)) (\<lambda>p.
           sop_bind (sop_io (ensure_parent_dir env p)) (\<lambda>_.
           sop_bind (sop_io (read_trust_file env p)) (\<lambda>existing.
             if hash \<in> set existing then sop_ret ()
             else if PERSISTENT_TRUST_CAP \<le> length existing then sop_err (InvalidInput TrustFileFull)
             else sop_bind (sop_io (write_trust_file env p (hs_insert hash existing)))
                    (\<lambda>_. load_persistent env uid))))))"
    using user_paths_dir by (intro isop_intros isop_load) blast
  then show ?thesis
    by (cases "validate_trust_hash hash") (simp_all add: isop_def persistent_add_trust_def)
qed

lemma isop_persistent_remove_atom: "isop uid dr (persistent_remove_atom env uid pat)"
  unfolding persistent_remove_atom_def
proof (rule isop_lock)
  let ?m = "remove_atom_at env uid pat"
  have m: "isop uid dr (?m p)" if "prefix (user_dir dr uid) (butlast p)" for p
    using that unfolding remove_atom_at_def by (intro isop_intros isop_load)
  show "isop uid dr (\<lambda>s w. case sys_exists env (user_atoms_path s uid) w of
        (False, w1) \<Rightarrow> (Inr False, s, w1) | (True, w1) \<Rightarrow> ?m (user_atoms_path s uid) s w1)"
    unfolding isop_def
  proof (intro allI impI)
    fix s :: trust_store and w
    assume "data_root s = dr"
    then have "isolated uid (s, commit w) (snd (?m (user_atoms_path s uid) s (commit w)))"
      using m user_paths_dir(1) [of s uid] by (simp add: isop_def)
    moreover have "isolated uid (s, w) (s, commit w)" by (simp add: isolated_def)
    ultimately show "isolated uid (s, w) (snd (case sys_exists env (user_atoms_path s uid) w of
        (False, w1) \<Rightarrow> (Inr False, s, w1) | (True, w1) \<Rightarrow> ?m (user_atoms_path s uid) s w1))"
      by (auto simp: sys_exists_def split: bool.splits intro: isolated_trans)
  qed
qed

lemma isop_write_session:
  "isop uid dr (write_session_atoms env alnum uid sa)" "isop uid dr (write_session_urls env uid al bl)"
  "isop uid dr (write_session_trust env uid st)"
  using user_paths_dir unfolding write_session_atoms_def write_session_urls_def write_session_trust_def Let_def
  by (intro isop_intros; blast)+

lemma isop_session_write:
  assumes "\<And>k s w. isolated uid (s, w) (intf k s, w)"
  shows "isop uid dr (session_write env alnum intf uid)"
proof -
  have "isolated uid (s, w) (retain_unpersisted uid pa pal pbl pt s, w)" for s w pa pal pbl pt
    by (simp add: retain_unpersisted_def isolated_set_user split: option.splits)
  with assms show ?thesis
    unfolding session_write_def session_write_locked_def
    by (intro isop_intros isop_write_session isop_load isop_modify)
qed

section \<open>Commands on the store\<close>

datatype store_cmd =
    CAddAtom string | CRemoveAtom string | CAddUrl string UrlDecision | CAddTrust string
  | CSessionWrite | CSessionTrust string | CSessionBlock string | CSessionAtom string | CSessionClear | CLoad

fun run_cmd :: "os_env \<Rightarrow> (string \<Rightarrow> bool) \<Rightarrow> u32 \<Rightarrow> store_cmd \<Rightarrow> trust_store \<times> world \<Rightarrow> trust_store \<times> world" where
  "run_cmd env alnum uid (CAddAtom a) (s, w) = snd (persistent_add_atom env alnum uid a s w)"
| "run_cmd env alnum uid (CRemoveAtom a) (s, w) = snd (persistent_remove_atom env uid a s w)"
| "run_cmd env alnum uid (CAddUrl h d) (s, w) = snd (persistent_add_url env uid h d s w)"
| "run_cmd env alnum uid (CAddTrust h) (s, w) = snd (persistent_add_trust env uid h s w)"
| "run_cmd env alnum uid CSessionWrite (s, w) = snd (session_write env alnum (\<lambda>_ s. s) uid s w)"
| "run_cmd env alnum uid (CSessionTrust h) (s, w) = (snd (session_add_trust uid h s), w)"
| "run_cmd env alnum uid (CSessionBlock h) (s, w) = (snd (session_add_url_block uid h s), w)"
| "run_cmd env alnum uid (CSessionAtom a) (s, w) = (session_add_atom uid a s, w)"
| "run_cmd env alnum uid CSessionClear (s, w) = (session_clear uid s, w)"
| "run_cmd env alnum uid CLoad (s, w) = snd (ensure_loaded env uid s w)"

text \<open>What the server relies on: a command run for a user touches that user only.\<close>

locale user_scoped =
  fixes run :: "u32 \<Rightarrow> 'c \<Rightarrow> trust_store \<times> world \<Rightarrow> trust_store \<times> world"
  assumes run_isolated: "isolated uid a (run uid c a)"
begin

lemma run_other:
  assumes "uid \<noteq> v"
  shows "user_states (fst (run uid c a)) v = user_states (fst a) v"
    "data_root (fst (run uid c a)) = data_root (fst a)"
    "prefix (user_dir (data_root (fst a)) v) q \<Longrightarrow> lookup_file (snd (run uid c a)) q = lookup_file (snd a) q"
  using run_isolated [of uid a c] assms user_dir_disjoint [of uid v "data_root (fst a)" q]
  by (auto simp: isolated_def)

lemma runs_other:
  assumes "\<forall>(u, c)\<in>set cs. u \<noteq> v"
  shows "user_states (fst (fold (\<lambda>(u, c). run u c) cs a)) v = user_states (fst a) v
    \<and> data_root (fst (fold (\<lambda>(u, c). run u c) cs a)) = data_root (fst a)
    \<and> (\<forall>q. prefix (user_dir (data_root (fst a)) v) q \<longrightarrow>
          lookup_file (snd (fold (\<lambda>(u, c). run u c) cs a)) q = lookup_file (snd a) q)"
  using assms
proof (induction cs arbitrary: a)
  case (Cons p cs)
  obtain u c where p: "p = (u, c)" by fastforce
  with Cons.prems have "u \<noteq> v" "\<forall>(u, c)\<in>set cs. u \<noteq> v" by auto
  with run_other [where uid = u and v = v and c = c and a = a] Cons.IH [of "run u c a"] show ?case by (simp add: p)
qed simp

end

lemma isop_isolated: "isop uid (data_root s) m \<Longrightarrow> isolated uid (s, w) (snd (m s w))"
  by (simp add: isop_def)

lemma session_ops_isolated:
  "isolated uid (s, w) (snd (session_add_trust uid h s), w)"
  "isolated uid (s, w) (snd (session_add_url_block uid h s), w)"
  "isolated uid (s, w) (session_add_atom uid h s, w)"
  "isolated uid (s, w) (session_clear uid s, w)"
  by (auto simp: session_add_trust_def session_add_url_block_def session_add_atom_def session_clear_def
      Let_def isolated_set_user split: sum.splits option.splits)

interpretation store: user_scoped "run_cmd env alnum" for env alnum
proof
  fix uid c and a :: "trust_store \<times> world"
  obtain s w where a: "a = (s, w)" by fastforce
  have "isolated uid (s, w) (run_cmd env alnum uid c (s, w))"
    by (cases c) (simp_all add: isop_isolated isop_persistent_add_atom isop_persistent_remove_atom
        isop_persistent_add_url isop_persistent_add_trust isop_session_write session_ops_isolated
        ensure_loaded_def isop_load)
  then show "isolated uid a (run_cmd env alnum uid c a)" by (simp add: a)
qed

text \<open>
  C24. Users are isolated: whatever sequence of trust-store operations runs for other users, and
  whatever system calls fail, the atoms, URL decisions, trust hashes and session entries listed for
  a user and every file below that user's directory stay the same.
\<close>

theorem user_isolation:
  assumes "\<forall>(u, c)\<in>set cs. u \<noteq> v" and "fold (\<lambda>(u, c). run_cmd env alnum u c) cs (s, w) = (s', w')"
  shows "list_atoms s' v scope = list_atoms s v scope \<and> list_urls s' v = list_urls s v
    \<and> list_persistent_trust s' v = list_persistent_trust s v \<and> session_summary s' v = session_summary s v
    \<and> (\<forall>q. prefix (user_dir (data_root s) v) q \<longrightarrow> lookup_file w' q = lookup_file w q)"
proof -
  note r = store.runs_other [OF assms(1), of env alnum "(s, w)", unfolded assms(2) fst_conv snd_conv]
  then have "user_states s' v = user_states s v" by blast
  with r show ?thesis
    by (simp add: list_atoms_def list_urls_def list_persistent_trust_def session_summary_def)
qed

theorem user_isolation_witness:
  "\<exists>s' w'. fold (\<lambda>(u, c). run_cmd (calm_env (\<lambda>_. None)) (\<lambda>_. False) u c)
       [(1, CSessionAtom ''curl x''), (1, CSessionClear)] (fst (trust_store_new (calm_env (\<lambda>_. None)) [''d''] demo_world), demo_world)
     = (s', w') \<and> list_urls s' 2 = []"
proof -
  let ?s = "fst (trust_store_new (calm_env (\<lambda>_. None)) [''d''] demo_world)"
  obtain s' w' where f: "fold (\<lambda>(u, c). run_cmd (calm_env (\<lambda>_. None)) (\<lambda>_. False) u c)
       [(1, CSessionAtom ''curl x''), (1, CSessionClear)] (?s, demo_world) = (s', w')" by fastforce
  have "list_urls s' 2 = list_urls ?s 2" using user_isolation [OF _ f, of 2] by simp
  moreover have "list_urls ?s 2 = []" by (simp add: list_urls_def trust_store_new_def)
  ultimately show ?thesis using f by auto
qed

end
