(* ===== verification/Trust_Session.thy ===== *)
theory Trust_Session
  imports Trust_Store
begin

text \<open>
  What the trust store promises about its sets: a written session loses no entry and an error leaves
  it alone, the sets that clients can grow are bounded, a decision on a host takes effect and replaces
  the opposite one, two writers in flight for one user always share one lock, and the fetched corpus
  is loaded only from a file that nobody but the daemon can write. The locale \<open>state_rel\<close> carries a
  relation on the store through the composition of operations.
\<close>

section \<open>Writing the session loses nothing\<close>

definition disk :: "(string \<Rightarrow> 'a) \<Rightarrow> 'a \<Rightarrow> world \<Rightarrow> path \<Rightarrow> 'a" where
  "disk parse none w p = (case lookup_file w p of None \<Rightarrow> none | Some f \<Rightarrow> parse (f_bytes f))"

abbreviation disk_atoms :: "world \<Rightarrow> path \<Rightarrow> string hashset" where "disk_atoms \<equiv> disk parse_atoms_content []"
abbreviation disk_urls :: "world \<Rightarrow> path \<Rightarrow> string hashset \<times> string hashset" where
  "disk_urls \<equiv> disk parse_urls_content ([], [])"
abbreviation disk_trust :: "world \<Rightarrow> path \<Rightarrow> string hashset" where "disk_trust \<equiv> disk parse_trust_content []"

lemma disk_cong: "lookup_file w' p = lookup_file w p \<Longrightarrow> disk f d w' p = disk f d w p"
  by (simp add: disk_def)

definition other_file :: "path \<Rightarrow> path \<Rightarrow> bool" where
  "other_file p q \<longleftrightarrow> p \<noteq> [] \<and> q \<noteq> p \<and> \<not> prefix (last p @ ''.tmp.'') (last q)"

lemma user_paths_other [simp]:
  "other_file (user_atoms_path s uid) (user_urls_path s uid)" "other_file (user_atoms_path s uid) (user_trust_path s uid)"
  "other_file (user_urls_path s uid) (user_atoms_path s uid)" "other_file (user_urls_path s uid) (user_trust_path s uid)"
  "other_file (user_trust_path s uid) (user_atoms_path s uid)" "other_file (user_trust_path s uid) (user_urls_path s uid)"
  by (simp_all add: other_file_def user_atoms_path_def user_urls_path_def user_trust_path_def)

lemma write_atomic_effect:
  assumes "write_atomic env p c w = (Inr u, w')"
  shows "lookup_file w' p = Some \<lparr>f_bytes = c, f_mode = 0x1A0, f_owner = euid env, f_synced = True\<rparr>"
    "other_file p q \<Longrightarrow> lookup_file w' q = lookup_file w q"
proof -
  have eq: "lookup_file w' = (lookup_file w)(write_atomic_tmp env (seq w) p := None,
      p \<mapsto> \<lparr>f_bytes = c, f_mode = 0x1A0, f_owner = euid env, f_synced = True\<rparr>)"
    using trust_file.ok_lookup [OF assms] unfolding private_file_def by blast
  show "lookup_file w' p = Some \<lparr>f_bytes = c, f_mode = 0x1A0, f_owner = euid env, f_synced = True\<rparr>"
    unfolding eq by simp
  assume o: "other_file p q"
  then have "q \<noteq> write_atomic_tmp env (seq w) p"
    by (auto simp: other_file_def write_atomic_tmp_def with_file_name_def file_name_def)
  with o show "lookup_file w' q = lookup_file w q" unfolding eq by (simp add: other_file_def)
qed

lemma sop_bind_Inr:
  "sop_bind m k s w = (Inr a, s', w') \<longleftrightarrow> (\<exists>x s1 w1. m s w = (Inr x, s1, w1) \<and> k x s1 w1 = (Inr a, s', w'))"
  by (auto simp: sop_bind_def split: sum.splits prod.splits)

lemma sop_simps:
  "sop_ret x s w = (r, s', w') \<longleftrightarrow> r = Inr x \<and> s' = s \<and> w' = w"
  "sop_get f s w = (r, s', w') \<longleftrightarrow> r = Inr (f s) \<and> s' = s \<and> w' = w"
  "sop_modify g s w = (q, s', w') \<longleftrightarrow> q = Inr () \<and> s' = g s \<and> w' = w"
  "sop_io m s w = (Inr a, s', w') \<longleftrightarrow> m w = (Inr a, w') \<and> s' = s"
  by (auto simp: sop_ret_def sop_get_def sop_modify_def sop_io_def split: sum.splits prod.splits)

lemma read_if_exists_Ok:
  assumes "read_if_exists env parse none p w = (Inr x, w')"
  shows "files w' = files w" "x = none \<or> (x = disk parse none w p \<and> lookup_file w p \<noteq> None)"
proof -
  show "files w' = files w" using files_read_if_exists [of env parse none p w] assms by simp
  show "x = none \<or> (x = disk parse none w p \<and> lookup_file w p \<noteq> None)"
    using assms
    by (auto simp: read_if_exists_def sys_exists_def sys_read_to_string_def sys_read_def sys_def io_defs disk_def
        split: bool.splits option.splits if_splits)
qed

lemma ensure_parent_files: "ensure_parent_dir env p w = (r, w') \<Longrightarrow> files w' = files w"
  using files_ensure_parent_dir [of env p w] by simp

lemma stamp_plain [simp]: "plain_label (utc_timestamp_ymd secs)"
  using utc_timestamp_chars [of NL secs] utc_timestamp_chars [of CR secs] not_digits(4)
  by (auto simp: plain_label_def is_digit_def)

lemma sources_plain [simp]: "plain_label ''session write''" "plain_label ''atoms add''" "plain_label ''atoms remove''"
  by (simp_all add: plain_label_def)

text \<open>The merge loops.\<close>

lemma merge_trust_fold:
  assumes "m = fold merge_trust sess (merge_start d)" and "\<forall>h\<in>set d. is_Ok (validate_trust_hash h)"
  shows "set d \<subseteq> set (on_disk m) \<and> (\<forall>h\<in>set (on_disk m). is_Ok (validate_trust_hash h))
    \<and> set (persisted m) \<subseteq> set (on_disk m) \<and> (added m = 0 \<longrightarrow> on_disk m = d)
    \<and> (length d \<le> PERSISTENT_TRUST_CAP \<longrightarrow> length (on_disk m) \<le> PERSISTENT_TRUST_CAP)"
proof -
  define I where "I m \<longleftrightarrow> set d \<subseteq> set (on_disk m) \<and> (\<forall>h\<in>set (on_disk m). is_Ok (validate_trust_hash h))
    \<and> set (persisted m) \<subseteq> set (on_disk m) \<and> (added m = 0 \<longrightarrow> on_disk m = d)
    \<and> (length d \<le> PERSISTENT_TRUST_CAP \<longrightarrow> length (on_disk m) \<le> PERSISTENT_TRUST_CAP)" for m :: merge
  have step: "I (merge_trust h m)" if "I m" for h m
    using that by (cases "validate_trust_hash h") (auto simp: I_def merge_trust_def length_hs_insert)
  have "I m" unfolding assms(1)
  proof (rule fold_invariant [where Q = "\<lambda>_. True"])
    show "I (merge_start d)" using assms(2) by (simp add: I_def merge_start_def)
  qed (auto intro: step)
  then show ?thesis unfolding I_def .
qed

lemma merge_atom_fold:
  assumes "m = fold (merge_atom alnum) sess (merge_start d)" and "\<forall>a\<in>set d. NL \<notin> set a"
  shows "(\<forall>a\<in>set (on_disk m). NL \<notin> set a) \<and> (\<forall>a\<in>set (persisted m). a \<in> set (on_disk m) \<and> is_Ok (validate_atom alnum a))
    \<and> (added m = 0 \<longrightarrow> on_disk m = d)"
proof -
  define I where "I m \<longleftrightarrow> (\<forall>a\<in>set (on_disk m). NL \<notin> set a)
    \<and> (\<forall>a\<in>set (persisted m). a \<in> set (on_disk m) \<and> is_Ok (validate_atom alnum a)) \<and> (added m = 0 \<longrightarrow> on_disk m = d)"
    for m :: merge
  have step: "I (merge_atom alnum a m)" if "I m" for a m
    using that validate_atom_Ok [of alnum a]
    by (cases "validate_atom alnum a") (auto simp: I_def merge_atom_def hs_insert_def)
  have "I m" unfolding assms(1)
  proof (rule fold_invariant [where Q = "\<lambda>_. True"])
    show "I (merge_start d)" using assms(2) by (simp add: I_def merge_start_def)
  qed (auto intro: step)
  then show ?thesis unfolding I_def .
qed

lemma merge_host_fold:
  assumes "fold merge_host sess (merge_start d, oth0) = (m, oth)"
    and "\<forall>h\<in>set d \<union> set oth0. NL \<notin> set h"
  shows "(\<forall>h\<in>set (on_disk m) \<union> set oth. NL \<notin> set h)
    \<and> (\<forall>h\<in>set (persisted m). h \<in> set (on_disk m) \<and> is_Ok (validate_host h))
    \<and> (added m = 0 \<longrightarrow> on_disk m = d) \<and> set oth = set oth0 - set (persisted m)"
proof -
  define I where "I st \<longleftrightarrow> (\<forall>h\<in>set (on_disk (fst st)) \<union> set (snd st). NL \<notin> set h)
    \<and> (\<forall>h\<in>set (persisted (fst st)). h \<in> set (on_disk (fst st)) \<and> is_Ok (validate_host h))
    \<and> (added (fst st) = 0 \<longrightarrow> on_disk (fst st) = d) \<and> set (snd st) = set oth0 - set (persisted (fst st))"
    for st :: "merge \<times> string hashset"
  have step: "I (merge_host h st)" if "I st" for h st
    using that validate_host_Ok [of h]
    by (cases "validate_host h"; cases st) (auto simp: I_def merge_host_def hs_insert_def)
  have "I (m, oth)" unfolding assms(1) [symmetric]
  proof (rule fold_invariant [where Q = "\<lambda>_. True"])
    show "I (merge_start d, oth0)" using assms(2) by (simp add: I_def merge_start_def)
  qed (auto intro: step)
  then show ?thesis unfolding I_def by simp
qed

lemma merge_host_persisted:
  assumes "fold merge_host sess (merge_start d, oth0) = (m, oth)"
  shows "set (persisted m) \<subseteq> set sess"
proof -
  have "set (persisted (fst (fold merge_host sess (merge_start d, oth0)))) \<subseteq> set sess"
    by (rule fold_invariant [where Q = "\<lambda>h. h \<in> set sess"])
      (auto simp: merge_start_def merge_host_def split: sum.splits prod.splits)
  with assms show ?thesis by simp
qed

lemma parsed_url_line: "h \<in> set (fst (parse_urls_content c)) \<union> set (snd (parse_urls_content c)) \<Longrightarrow> NL \<notin> set h"
  using parsed_url_entry by (simp add: url_entry_def)

lemma write_session_trust_spec:
  assumes "write_session_trust env uid sess s w = (Inr m, s1, w1)"
  shows "s1 = s" "other_file (user_trust_path s uid) q \<Longrightarrow> lookup_file w1 q = lookup_file w q"
    "set (persisted m) \<subseteq> set (disk_trust w1 (user_trust_path s uid))"
proof (atomize (full), cases "sess = []")
  case True
  with assms show "s1 = s \<and> (other_file (user_trust_path s uid) q \<longrightarrow> lookup_file w1 q = lookup_file w q)
      \<and> set (persisted m) \<subseteq> set (disk_trust w1 (user_trust_path s uid))"
    by (auto simp: write_session_trust_def sop_simps merge_start_def)
next
  case False
  let ?p = "user_trust_path s uid"
  from assms False obtain u wa d wb where 1: "ensure_parent_dir env ?p w = (Inr u, wa)"
      "read_trust_file env ?p wa = (Inr d, wb)"
      "(let m = fold merge_trust sess (merge_start d)
        in if 0 < added m then sop_bind (sop_io (write_trust_file env ?p (on_disk m))) (\<lambda>_. sop_ret m) else sop_ret m) s wb
       = (Inr m, s1, w1)"
    by (auto simp: write_session_trust_def sop_bind_Inr sop_simps)
  have fl: "files wb = files w" "d = [] \<or> d = disk_trust w ?p"
    using read_if_exists_Ok [OF 1(2) [unfolded read_trust_file_def]] ensure_parent_files [OF 1(1)]
    by (auto simp: disk_def)
  have dv: "\<forall>h\<in>set d. is_Ok (validate_trust_hash h)"
    using fl(2) parse_trust_content_valid by (auto simp: disk_def split: option.splits)
  let ?m = "fold merge_trust sess (merge_start d)"
  note mf = merge_trust_fold [OF refl dv, of sess]
  show "s1 = s \<and> (other_file ?p q \<longrightarrow> lookup_file w1 q = lookup_file w q)
      \<and> set (persisted m) \<subseteq> set (disk_trust w1 ?p)"
  proof (cases "0 < added ?m")
    case True
    then obtain u where wr: "write_atomic env ?p (trust_content (utc_timestamp_ymd (now_secs env)) (on_disk ?m)) wb = (Inr u, w1)"
        "m = ?m" "s1 = s"
      using 1(3) by (auto simp: Let_def sop_bind_Inr sop_simps write_trust_file_def)
    have "set (disk_trust w1 ?p) = set (on_disk ?m)"
      using write_atomic_effect(1) [OF wr(1)] trust_content_exact [of "on_disk ?m" "utc_timestamp_ymd (now_secs env)"] mf
      by (simp add: disk_def)
    with wr mf write_atomic_effect(2) [OF wr(1)] fl(1) show ?thesis by auto
  next
    case False
    then have "m = ?m" "s1 = s" "w1 = wb" using 1(3) by (auto simp: Let_def sop_simps)
    with False mf fl show ?thesis by (auto simp: disk_def)
  qed
qed

lemma write_session_atoms_spec:
  assumes "write_session_atoms env alnum uid sess s w = (Inr m, s1, w1)"
  shows "s1 = s" "other_file (user_atoms_path s uid) q \<Longrightarrow> lookup_file w1 q = lookup_file w q"
    "a \<in> set (persisted m) \<Longrightarrow> str_trim a = [] \<or> a \<in> set (disk_atoms w1 (user_atoms_path s uid))
       \<or> str_trim a \<in> set (disk_atoms w1 (user_atoms_path s uid))"
proof (atomize (full), cases "sess = []")
  case True
  with assms show "s1 = s \<and> (other_file (user_atoms_path s uid) q \<longrightarrow> lookup_file w1 q = lookup_file w q)
      \<and> (a \<in> set (persisted m) \<longrightarrow> str_trim a = [] \<or> a \<in> set (disk_atoms w1 (user_atoms_path s uid))
           \<or> str_trim a \<in> set (disk_atoms w1 (user_atoms_path s uid)))"
    by (auto simp: write_session_atoms_def sop_simps merge_start_def)
next
  case False
  let ?p = "user_atoms_path s uid"
  from assms False obtain u wa d wb where 1: "ensure_parent_dir env ?p w = (Inr u, wa)"
      "read_atoms_file env ?p wa = (Inr d, wb)"
      "(let m = fold (merge_atom alnum) sess (merge_start d)
        in if 0 < added m then sop_bind (sop_io (write_atoms_file env ?p (on_disk m) ''session write'')) (\<lambda>_. sop_ret m)
           else sop_ret m) s wb = (Inr m, s1, w1)"
    by (auto simp: write_session_atoms_def sop_bind_Inr sop_simps)
  have fl: "files wb = files w" "d = [] \<or> d = disk_atoms w ?p"
    using read_if_exists_Ok [OF 1(2) [unfolded read_atoms_file_def]] ensure_parent_files [OF 1(1)]
    by (auto simp: disk_def)
  have dv: "\<forall>a\<in>set d. NL \<notin> set a"
    using fl(2) parsed_atom_line by (auto simp: disk_def split: option.splits)
  let ?m = "fold (merge_atom alnum) sess (merge_start d)"
  note mf = merge_atom_fold [OF refl dv, of alnum sess]
  show "s1 = s \<and> (other_file ?p q \<longrightarrow> lookup_file w1 q = lookup_file w q)
      \<and> (a \<in> set (persisted m) \<longrightarrow> str_trim a = [] \<or> a \<in> set (disk_atoms w1 ?p) \<or> str_trim a \<in> set (disk_atoms w1 ?p))"
  proof (cases "0 < added ?m")
    case True
    then obtain u where wr: "write_atomic env ?p (atoms_content (utc_timestamp_ymd (now_secs env)) ''session write'' (on_disk ?m)) wb = (Inr u, w1)"
        "m = ?m" "s1 = s"
      using 1(3) by (auto simp: Let_def sop_bind_Inr sop_simps write_atoms_file_def)
    have "str_trim a \<in> set (disk_atoms w1 ?p)" if "a \<in> set (persisted m)" "str_trim a \<noteq> []"
      using write_atomic_effect(1) [OF wr(1)] mf that wr(2) validated_storable
      by (auto simp: disk_def intro!: atoms_content_keeps)
    with wr write_atomic_effect(2) [OF wr(1)] fl(1) show ?thesis by auto
  next
    case False
    then have "m = ?m" "s1 = s" "w1 = wb" using 1(3) by (auto simp: Let_def sop_simps)
    with False mf fl show ?thesis by (auto simp: disk_def)
  qed
qed

lemma write_session_urls_spec:
  assumes "write_session_urls env uid al bl s w = (Inr (ma, mb), s1, w1)"
  shows "s1 = s \<and> (other_file (user_urls_path s uid) q \<longrightarrow> lookup_file w1 q = lookup_file w q)
    \<and> (h \<in> set (persisted ma) \<and> h \<notin> set (persisted mb) \<and> str_trim h = h \<longrightarrow> h \<in> set (fst (disk_urls w1 (user_urls_path s uid))))
    \<and> (h \<in> set (persisted mb) \<and> str_trim h = h \<longrightarrow> h \<in> set (snd (disk_urls w1 (user_urls_path s uid))))
    \<and> set (persisted mb) \<subseteq> set bl"
proof (cases "al = [] \<and> bl = []")
  case True
  with assms show ?thesis
    by (auto simp: write_session_urls_def sop_simps merge_start_def)
next
  case False
  let ?p = "user_urls_path s uid"
  from assms False obtain u wa al0 bl0 wb where 1: "ensure_parent_dir env ?p w = (Inr u, wa)"
      "read_urls_file env ?p wa = (Inr (al0, bl0), wb)"
      "(let (ma, block) = fold merge_host al (merge_start al0, bl0);
            (mb, allow) = fold merge_host bl (merge_start block, on_disk ma)
        in if 0 < added ma \<or> 0 < added mb
           then sop_bind (sop_io (write_urls_file env ?p allow (on_disk mb))) (\<lambda>_. sop_ret (ma, mb))
           else sop_ret (ma, mb)) s wb = (Inr (ma, mb), s1, w1)"
    by (auto simp: write_session_urls_def sop_bind_Inr sop_simps)
  obtain xa block where fa: "fold merge_host al (merge_start al0, bl0) = (xa, block)" by fastforce
  obtain xb allow where fb: "fold merge_host bl (merge_start block, on_disk xa) = (xb, allow)" by fastforce
  have fl: "files wb = files w" "(al0, bl0) = ([], []) \<or> (al0, bl0) = disk_urls w ?p"
    using read_if_exists_Ok [OF 1(2) [unfolded read_urls_file_def]] ensure_parent_files [OF 1(1)]
    by (auto simp: disk_def)
  have dv: "\<forall>h\<in>set al0 \<union> set bl0. NL \<notin> set h"
    using fl(2) parsed_url_line by (auto simp: disk_def split: option.splits) (metis UnCI fst_conv snd_conv)+
  note ma = merge_host_fold [OF fa dv]
  have "\<forall>h\<in>set block \<union> set (on_disk xa). NL \<notin> set h" using ma by auto
  note mb = merge_host_fold [OF fb this]
  have sub: "set (persisted xb) \<subseteq> set bl" by (rule merge_host_persisted [OF fb]) 
  have eq: "ma = xa" "mb = xb" "s1 = s"
    using 1(3) by (auto simp: fa fb Let_def sop_bind_Inr sop_simps split: if_splits)
  show ?thesis
  proof (cases "0 < added xa \<or> 0 < added xb")
    case True
    then obtain u where wr: "write_atomic env ?p (urls_content (utc_timestamp_ymd (now_secs env)) allow (on_disk xb)) wb = (Inr u, w1)"
      using 1(3) by (auto simp: fa fb Let_def sop_bind_Inr sop_simps write_urls_file_def)
    have nl: "\<forall>b\<in>set allow \<union> set (on_disk xb). NL \<notin> set b" using ma mb by auto
    have k: "is_Ok (validate_host h) \<Longrightarrow> str_trim h = h \<Longrightarrow> (h \<in> set allow \<longrightarrow> h \<in> set (fst (disk_urls w1 ?p)))
        \<and> (h \<in> set (on_disk xb) \<longrightarrow> h \<in> set (snd (disk_urls w1 ?p)))"
      using write_atomic_effect(1) [OF wr] urls_content_keeps [OF nl stamp_plain, of h "now_secs env"] by (simp add: disk_def)
    show ?thesis using k ma mb eq sub write_atomic_effect(2) [OF wr] fl(1) by auto
  next
    case False
    then have "w1 = wb" using 1(3) by (auto simp: fa fb Let_def sop_simps)
    with False ma mb fl eq sub show ?thesis by (auto simp: disk_def split: option.splits) (metis fst_conv snd_conv)+
  qed
qed

text \<open>Other threads may add to a session while it is written, and nothing else.\<close>

definition session_le :: "per_user_state \<Rightarrow> per_user_state \<Rightarrow> bool" where
  "session_le e e' \<longleftrightarrow>
     set (session_atoms e) \<subseteq> set (session_atoms e') \<and> set (session_urls_allow e) \<subseteq> set (session_urls_allow e')
     \<and> set (session_urls_block e) \<subseteq> set (session_urls_block e') \<and> set (session_trust e) \<subseteq> set (session_trust e')"

definition grows :: "u32 \<Rightarrow> trust_store \<Rightarrow> trust_store \<Rightarrow> bool" where
  "grows uid s s' \<longleftrightarrow> data_root s' = data_root s
     \<and> (\<forall>e. user_states s uid = Some e \<longrightarrow> (\<exists>e'. user_states s' uid = Some e' \<and> session_le e e'))"

lemma session_le_refl [simp]: "session_le e e"
  by (simp add: session_le_def)

lemma session_le_trans: "session_le a b \<Longrightarrow> session_le b c \<Longrightarrow> session_le a c"
  by (auto simp: session_le_def)

lemma grows_refl [simp]: "grows uid s s"
  by (simp add: grows_def)

lemma grows_trans:
  assumes "grows uid a b" and "grows uid b c"
  shows "grows uid a c"
  unfolding grows_def
proof (intro conjI allI impI)
  show "data_root c = data_root a" using assms by (simp add: grows_def)
  fix e
  assume "user_states a uid = Some e"
  with assms(1) obtain e1 where "user_states b uid = Some e1" "session_le e e1" by (auto simp: grows_def)
  moreover from this(1) assms(2) obtain e2 where "user_states c uid = Some e2" "session_le e1 e2"
    by (auto simp: grows_def)
  ultimately show "\<exists>e'. user_states c uid = Some e' \<and> session_le e e'" using session_le_trans by blast
qed

lemma grows_locks [simp]:
  "grows uid s (snd (acquire_write_lock v s))" "grows uid s (release_write_lock v s)"
  by (auto simp: grows_def acquire_write_lock_def release_write_lock_def Let_def split: option.splits)

text \<open>
  A relation between the store before and after: what an operation keeps, on every outcome (\<open>rop\<close>)
  or on an error (\<open>rerr\<close>). Any relation that only looks at the users' states and composes is kept by
  a composed operation when its parts keep it.
\<close>

definition rop :: "(trust_store \<Rightarrow> trust_store \<Rightarrow> bool) \<Rightarrow> 'a sop \<Rightarrow> bool" where
  "rop R m \<longleftrightarrow> (\<forall>s w. R s (fst (snd (m s w))))"

definition rerr :: "(trust_store \<Rightarrow> trust_store \<Rightarrow> bool) \<Rightarrow> 'a sop \<Rightarrow> bool" where
  "rerr R m \<longleftrightarrow> (\<forall>s w e s' w'. m s w = (Inl e, s', w') \<longrightarrow> R s s')"

locale state_rel =
  fixes R :: "trust_store \<Rightarrow> trust_store \<Rightarrow> bool"
  assumes same: "user_states s' = user_states s \<Longrightarrow> data_root s' = data_root s \<Longrightarrow> R s s'"
    and trans: "R a b \<Longrightarrow> R b c \<Longrightarrow> R a c"
begin

lemma keep: "R s s"
  by (rule same) (rule refl)+

lemma rop_basic:
  "rop R (sop_ret a)" "rop R (sop_err er)" "rop R (sop_io m)" "rop R (sop_get f)"
  "(\<And>s. R s (g s)) \<Longrightarrow> rop R (sop_modify g)"
  by (simp_all add: rop_def sop_ret_def sop_err_def sop_io_def sop_get_def sop_modify_def keep
      split: sum.splits prod.splits)

lemma rop_bind:
  assumes "rop R m" and "\<And>a. rop R (k a)"
  shows "rop R (sop_bind m k)"
  unfolding rop_def
proof (intro allI)
  fix s w
  obtain r s1 w1 where m: "m s w = (r, s1, w1)" by (cases "m s w") auto
  have "R s s1" using assms(1) m unfolding rop_def by (metis fst_conv snd_conv)
  moreover have "R s1 (fst (snd (k a s1 w1)))" for a using assms(2) by (simp add: rop_def)
  ultimately show "R s (fst (snd (sop_bind m k s w)))"
    using m by (auto simp: sop_bind_def intro: trans split: sum.splits)
qed

lemma rerr_bind:
  assumes "rop R m" and "\<And>a. rerr R (k a)"
  shows "rerr R (sop_bind m k)"
  unfolding rerr_def
proof (intro allI impI)
  fix s w e s' w'
  assume b: "sop_bind m k s w = (Inl e, s', w')"
  obtain r s1 w1 where m: "m s w = (r, s1, w1)" by (cases "m s w") auto
  have "R s s1" using assms(1) m unfolding rop_def by (metis fst_conv snd_conv)
  then show "R s s'"
    using b m assms(2) unfolding sop_bind_def rerr_def by (cases r) (auto, metis trans)
qed

lemma rerr_basic: "rerr R (sop_ret a)" "rerr R (sop_bind (sop_modify f) (\<lambda>_. sop_ret a))"
  by (simp_all add: rerr_def sop_ret_def sop_bind_def sop_modify_def)

lemma rop_cases:
  "(\<And>x y. rop R (f x y)) \<Longrightarrow> rop R (case z of (x, y) \<Rightarrow> f x y)"
  "rop R m \<Longrightarrow> rop R n \<Longrightarrow> rop R (if b then m else n)"
  "rop R m \<Longrightarrow> (\<And>e. rop R (g e)) \<Longrightarrow> rop R (case o' of None \<Rightarrow> m | Some e \<Rightarrow> g e)"
  by (auto split: prod.splits option.splits)

lemma rerr_cases:
  "(\<And>x y. rerr R (f x y)) \<Longrightarrow> rerr R (case z of (x, y) \<Rightarrow> f x y)"
  "rerr R m \<Longrightarrow> (\<And>e. rerr R (g e)) \<Longrightarrow> rerr R (case o' of None \<Rightarrow> m | Some e \<Rightarrow> g e)"
  by (auto split: prod.splits option.splits)

lemma rop_load:
  assumes "\<And>s atoms allow block trust. R s (set_user uid ((user_entry s uid)\<lparr>persistent_atoms := atoms,
    persistent_urls_allow := allow, persistent_urls_block := block, persistent_trust := trust\<rparr>) s)"
  shows "rop R (load_persistent env uid)"
  unfolding rop_def
proof (intro allI)
  fix s w
  have 1: "R s ((set_user uid e s)\<lparr>loaded := l\<rparr>)" if "R s (set_user uid e s)" for s e l
    by (rule trans [OF that same]) (simp_all add: set_user_def)
  have "rop R (sop_bind (sop_io (read_atoms_file env (user_atoms_path s uid))) (\<lambda>atoms.
     sop_bind (sop_io (read_urls_file env (user_urls_path s uid))) (\<lambda>(allow, block).
     sop_bind (sop_io (read_trust_file env (user_trust_path s uid))) (\<lambda>trust.
     sop_modify (\<lambda>s.
       (set_user uid ((user_entry s uid)\<lparr>persistent_atoms := atoms, persistent_urls_allow := allow,
          persistent_urls_block := block, persistent_trust := trust\<rparr>) s)\<lparr>loaded := hs_insert uid (loaded s)\<rparr>)))))"
    by (intro rop_bind rop_basic rop_cases 1 assms)
  then show "R s (fst (snd (load_persistent env uid s w)))"
    unfolding load_persistent_def by (simp only: rop_def)
qed

lemma rop_write_session:
  "rop R (write_session_atoms env alnum v sa)" "rop R (write_session_urls env v al bl)"
  "rop R (write_session_trust env v st)"
  unfolding write_session_atoms_def write_session_urls_def write_session_trust_def Let_def
  by (intro rop_bind rop_basic rop_cases)+

lemma lock_same:
  "user_states (snd (acquire_write_lock uid s)) = user_states s" "data_root (snd (acquire_write_lock uid s)) = data_root s"
  "user_states (release_write_lock uid s) = user_states s" "data_root (release_write_lock uid s) = data_root s"
  by (auto simp: acquire_write_lock_def release_write_lock_def Let_def split: option.splits)

lemma rop_lock: "rop R m \<Longrightarrow> rop R (with_write_lock uid m)"
proof -
  assume m: "rop R m"
  have "R s (fst (snd (with_write_lock uid m s w)))" for s w
  proof -
    obtain l s1 where a: "acquire_write_lock uid s = (l, s1)" by fastforce
    obtain r s2 w2 where mm: "m s1 w = (r, s2, w2)" by (cases "m s1 w") auto
    have 1: "R s s1" using lock_same(1,2) [of uid s] a by (intro same) simp_all
    have 2: "R s1 s2" using m mm unfolding rop_def by (metis fst_conv snd_conv)
    have 3: "R s2 (release_write_lock uid s2)" by (rule same) (simp_all add: lock_same)
    from trans [OF trans [OF 1 2] 3] show ?thesis using a mm by (simp add: with_write_lock_def)
  qed
  then show ?thesis by (simp add: rop_def)
qed

end

interpretation growth: state_rel "grows uid" for uid
proof
  show "grows uid s s'" if "user_states s' = user_states s" "data_root s' = data_root s" for s s'
    using that by (simp add: grows_def)
  show "grows uid a c" if "grows uid a b" "grows uid b c" for a b c using that by (rule grows_trans)
qed

lemma growth_load: "rop (grows uid) (load_persistent env uid)"
  by (rule growth.rop_load) (simp add: grows_def set_user_def user_entry_def session_le_def)

lemma with_write_lock_result:
  assumes "with_write_lock uid m s w = (r, s', w')"
  obtains s1 s2 where "grows uid s s1" "user_states s1 = user_states s" "m s1 w = (r, s2, w')" "user_states s' = user_states s2"
    "grows uid s2 s'"
proof -
  obtain l s1 where a: "acquire_write_lock uid s = (l, s1)" by fastforce
  obtain r2 s2 w2 where m: "m s1 w = (r2, s2, w2)" by (cases "m s1 w") auto
  have "user_states s1 = user_states s" using a growth.lock_same(1) [of uid s] by simp
  moreover have "user_states (release_write_lock uid s2) = user_states s2" by (rule growth.lock_same(3))
  moreover have "grows uid s s1" using grows_locks(1) [of uid s uid] a by simp
  ultimately show thesis using assms a m grows_locks(2) [of uid s2 uid] that by (auto simp: with_write_lock_def)
qed

lemma session_write_error_keeps:
  assumes "session_write env alnum intf uid s w = (Inl err, s', w')" and "\<And>k s. grows uid s (intf k s)"
  shows "grows uid s s'"
proof -
  obtain s1 s2 where l: "grows uid s s1" "grows uid s2 s'" and
    m: "session_write_locked env alnum intf uid s1 w = (Inl err, s2, w')"
    using assms(1) unfolding session_write_def by (rule with_write_lock_result)
  have "rerr (grows uid) (session_write_locked env alnum intf uid)"
    unfolding session_write_locked_def
    by (intro growth.rerr_basic growth.rerr_cases growth.rerr_bind growth.rop_write_session growth_load
        growth.rop_basic assms(2))
  with m have "grows uid s1 s2" unfolding rerr_def by blast
  with l show ?thesis using grows_trans by blast
qed

lemma files_sop_io: "(\<And>w. files (snd (m w)) = files w) \<Longrightarrow> files (snd (snd (sop_io m s w))) = files w"
  by (simp add: sop_io_def split: sum.splits prod.splits) (metis snd_conv)

lemma files_sop_bind:
  assumes "\<And>s w. files (snd (snd (m s w))) = files w" and "\<And>a s w. files (snd (snd (k a s w))) = files w"
  shows "files (snd (snd (sop_bind m k s w))) = files w"
proof -
  obtain r s1 w1 where "m s w = (r, s1, w1)" by (cases "m s w") auto
  with assms(1) [of s w] assms(2) show ?thesis by (cases r) (simp_all add: sop_bind_def)
qed

lemma files_load_persistent:
  assumes "load_persistent env uid s w = (r, s', w')"
  shows "files w' = files w"
proof -
  have "files (snd (snd (load_persistent env uid s w))) = files w"
    unfolding load_persistent_def read_atoms_file_def read_urls_file_def read_trust_file_def
    by (intro files_sop_bind files_sop_io files_read_if_exists)
      (auto intro!: files_sop_bind files_sop_io simp: sop_modify_def)
  with assms show ?thesis by simp
qed

lemma grows_paths:
  "grows uid s s' \<Longrightarrow> user_atoms_path s' v = user_atoms_path s v \<and> user_urls_path s' v = user_urls_path s v
     \<and> user_trust_path s' v = user_trust_path s v"
  by (simp add: grows_def user_atoms_path_def user_urls_path_def user_trust_path_def)

lemma session_write_locked_Ok:
  assumes "session_write_locked env alnum intf uid s w = (Inr rep, s', w')"
    and "\<And>k s. grows uid s (intf k s)" and "user_states s uid = Some e"
  obtains pa pu pb pt s2 e2 where
    "grows uid s s2" "user_states s2 uid = Some e2"
    "s' = retain_unpersisted uid pa pu pb pt s2"
    "\<And>a. a \<in> set pa \<Longrightarrow> str_trim a = [] \<or> a \<in> set (disk_atoms w' (user_atoms_path s uid))
       \<or> str_trim a \<in> set (disk_atoms w' (user_atoms_path s uid))"
    "\<And>h. h \<in> set pu \<Longrightarrow> h \<notin> set (session_urls_block e) \<Longrightarrow> str_trim h = h \<Longrightarrow> h \<in> set (fst (disk_urls w' (user_urls_path s uid)))"
    "\<And>h. h \<in> set pb \<Longrightarrow> str_trim h = h \<Longrightarrow> h \<in> set (snd (disk_urls w' (user_urls_path s uid)))"
    "set pt \<subseteq> set (disk_trust w' (user_trust_path s uid))"
proof -
  from assms(1,3) obtain ma sa wa mu mb sb wb mt sc wc sd wd u where
    1: "write_session_atoms env alnum uid (session_atoms e) s w = (Inr ma, sa, wa)" and
    2: "write_session_urls env uid (session_urls_allow e) (session_urls_block e) sa wa = (Inr (mu, mb), sb, wb)" and
    3: "write_session_trust env uid (case user_states (intf 0 sb) uid of None \<Rightarrow> [] | Some e \<Rightarrow> session_trust e) (intf 0 sb) wb = (Inr mt, sc, wc)" and
    4: "load_persistent env uid sc wc = (Inr u, sd, wd)" and
    5: "s' = retain_unpersisted uid (persisted ma) (persisted mu) (persisted mb) (persisted mt) (intf 1 sd)" "w' = wd"
    unfolding session_write_locked_def by (auto simp: sop_bind_Inr sop_simps)
  note a = write_session_atoms_spec [OF 1]
  note b = write_session_urls_spec [OF 2]
  note c = write_session_trust_spec [OF 3]
  have sb: "sb = s" using a(1) b by simp
  have g0: "grows uid s (intf 0 s)" by (rule assms(2))
  have sc: "sc = intf 0 s" using c(1) sb by simp
  have "grows uid sc sd" using growth_load [of uid env] 4 unfolding rop_def by (metis fst_conv snd_conv)
  then have g: "grows uid s (intf 1 sd)" using g0 sc assms(2) grows_trans by blast
  then obtain e2 where e2: "user_states (intf 1 sd) uid = Some e2" using assms(3) by (auto simp: grows_def)
  have p: "user_atoms_path (intf 0 s) uid = user_atoms_path s uid" "user_urls_path (intf 0 s) uid = user_urls_path s uid"
    "user_trust_path (intf 0 s) uid = user_trust_path s uid" using grows_paths [OF g0] by auto
  have fd: "files wd = files wc" by (rule files_load_persistent [OF 4])
  have la: "lookup_file wd (user_atoms_path s uid) = lookup_file wa (user_atoms_path s uid)"
    using fd c(2) [of "user_atoms_path s uid"] b [of "user_atoms_path s uid"] a(1) p sb user_paths_other(3,5) by metis
  have lu: "lookup_file wd (user_urls_path s uid) = lookup_file wb (user_urls_path s uid)"
    using fd c(2) [of "user_urls_path s uid"] p sb user_paths_other(6) by metis
  show thesis
  proof (rule that [OF g e2 5(1)])
    show "set (persisted mt) \<subseteq> set (disk_trust w' (user_trust_path s uid))"
      using c(3) p sb fd 5(2) by (simp add: disk_def)
    show "str_trim x = [] \<or> x \<in> set (disk_atoms w' (user_atoms_path s uid)) \<or> str_trim x \<in> set (disk_atoms w' (user_atoms_path s uid))"
      if "x \<in> set (persisted ma)" for x
      using a(3) [OF that] 5(2) by (simp add: disk_cong [OF la])
    show "h \<in> set (fst (disk_urls w' (user_urls_path s uid)))"
      if "h \<in> set (persisted mu)" "h \<notin> set (session_urls_block e)" "str_trim h = h" for h
      using b [of _ h] that 5(2) a(1) by (auto simp: disk_cong [OF lu])
    show "h \<in> set (snd (disk_urls w' (user_urls_path s uid)))" if "h \<in> set (persisted mb)" "str_trim h = h" for h
      using b [of _ h] that 5(2) a(1) by (auto simp: disk_cong [OF lu])
  qed
qed



section \<open>Bounds\<close>

definition session_ok :: "trust_store \<Rightarrow> bool" where
  "session_ok s \<longleftrightarrow> (\<forall>uid e. user_states s uid = Some e \<longrightarrow>
     length (session_trust e) \<le> SESSION_PER_KIND_CAP \<and> length (session_urls_block e) \<le> SESSION_PER_KIND_CAP)"

abbreviation keeps_bounds :: "trust_store \<Rightarrow> trust_store \<Rightarrow> bool" where
  "keeps_bounds s s' \<equiv> session_ok s \<longrightarrow> session_ok s'"

interpretation bounds: state_rel keeps_bounds
proof
  show "keeps_bounds s s'" if "user_states s' = user_states s" for s s'
    using that by (simp add: session_ok_def)
  show "keeps_bounds a c" if "keeps_bounds a b" "keeps_bounds b c" for a b c using that by blast
qed

lemma keeps_boundsD: "rop keeps_bounds m \<Longrightarrow> session_ok s \<Longrightarrow> session_ok (fst (snd (m s w)))"
  by (simp add: rop_def)

lemma session_ok_set_user:
  "session_ok s \<Longrightarrow> length (session_trust e) \<le> SESSION_PER_KIND_CAP \<Longrightarrow> length (session_urls_block e) \<le> SESSION_PER_KIND_CAP
     \<Longrightarrow> session_ok (set_user uid e s)"
  by (simp add: session_ok_def set_user_def)

lemma session_ok_entry:
  "session_ok s \<Longrightarrow> length (session_trust (user_entry s uid)) \<le> SESSION_PER_KIND_CAP
     \<and> length (session_urls_block (user_entry s uid)) \<le> SESSION_PER_KIND_CAP"
  by (simp add: session_ok_def user_entry_def user_default_def split: option.splits)

lemma bounds_load: "rop keeps_bounds (load_persistent env uid)"
  by (rule bounds.rop_load) (simp add: session_ok_set_user session_ok_entry)

lemmas bounds_intros = bounds.rop_bind bounds.rop_basic bounds.rop_cases bounds.rop_lock bounds_load bounds.rop_write_session

lemma bounds_persistent:
  "rop keeps_bounds (persistent_add_atom env alnum uid a)" "rop keeps_bounds (persistent_add_url env uid h d)"
  "rop keeps_bounds (persistent_add_trust env uid h)" "rop keeps_bounds (persistent_remove_atom env uid a)"
proof -
  have split: "rop keeps_bounds (\<lambda>s w. case v of Inl e \<Rightarrow> (Inl (f e), s, w) | Inr u \<Rightarrow> m s w)"
    if "rop keeps_bounds m" for v :: "(entry_error, unit) result" and f and m :: "'b sop"
    using that by (cases v) (simp_all add: rop_def)
  show "rop keeps_bounds (persistent_add_atom env alnum uid a)"
    unfolding persistent_add_atom_def [abs_def] by (intro split bounds_intros)
  show "rop keeps_bounds (persistent_add_url env uid h d)"
    unfolding persistent_add_url_def [abs_def] Let_def by (intro split bounds_intros)
  show "rop keeps_bounds (persistent_add_trust env uid h)"
    unfolding persistent_add_trust_def [abs_def] by (intro split bounds_intros)
  have "rop keeps_bounds (remove_atom_at env uid a p)" for p
    unfolding remove_atom_at_def by (intro bounds_intros)
  then have "rop keeps_bounds (\<lambda>s w. case sys_exists env (user_atoms_path s uid) w of
        (False, w1) \<Rightarrow> (Inr False, s, w1) | (True, w1) \<Rightarrow> remove_atom_at env uid a (user_atoms_path s uid) s w1)"
    unfolding rop_def by (auto split: prod.splits bool.splits)
  then show "rop keeps_bounds (persistent_remove_atom env uid a)"
    unfolding persistent_remove_atom_def by (rule bounds.rop_lock)
qed

lemma session_ok_retain: "session_ok s \<Longrightarrow> session_ok (retain_unpersisted uid pa pu pb pt s)"
  by (auto simp: retain_unpersisted_def session_ok_def set_user_def split: option.splits
      intro: le_trans [OF length_filter_le])

lemma bounds_session_write: "rop keeps_bounds (session_write env alnum (\<lambda>_ s. s) uid)"
  unfolding session_write_def session_write_locked_def
  by (intro bounds_intros) (simp_all add: session_ok_retain)

lemma bounds_session_ops:
  assumes "session_ok s"
  shows "session_ok (snd (session_add_trust uid h s))" "session_ok (snd (session_add_url_block uid h s))"
    "session_ok (session_add_atom uid h s)" "session_ok (session_clear uid s)"
proof -
  note e = session_ok_entry [OF assms, of uid]
  show "session_ok (snd (session_add_trust uid h s))" "session_ok (snd (session_add_url_block uid h s))"
    using e assms capped_add_bound
    by (auto simp: session_add_trust_def session_add_url_block_def Let_def split: sum.splits option.splits
        intro!: session_ok_set_user)
  show "session_ok (session_add_atom uid h s)" using e assms
    by (simp add: session_add_atom_def Let_def session_ok_set_user)
  show "session_ok (session_clear uid s)" using assms
    by (auto simp: session_clear_def session_ok_set_user split: option.splits)
qed

text \<open>
  The session sets that an unprivileged client can grow stay within their bound: after any
  sequence of trust-store operations by any users from a new store, each user's session holds at
  most 4096 trust hashes and 4096 blocked hosts.
\<close>

theorem session_sets_bounded:
  assumes "fold (\<lambda>(u, c). run_cmd env alnum u c) cs (fst (trust_store_new env dr w), snd (trust_store_new env dr w)) = (s', w')"
    and "user_states s' uid = Some e"
  shows "length (session_trust e) \<le> 4096 \<and> length (session_urls_block e) \<le> 4096"
proof -
  have step: "session_ok (fst (run_cmd env alnum u c a))" if "session_ok (fst a)" for u c a
  proof -
    obtain s w where a: "a = (s, w)" by fastforce
    have "session_ok s" using that a by simp
    then show ?thesis
      by (cases c) (simp_all add: a keeps_boundsD bounds_persistent bounds_session_write bounds_session_ops
          bounds_load ensure_loaded_def)
  qed
  have "session_ok (fst (fold (\<lambda>(u, c). run_cmd env alnum u c) cs (fst (trust_store_new env dr w), snd (trust_store_new env dr w))))"
    by (rule fold_invariant [where Q = "\<lambda>_. True"])
      (auto simp: step, simp add: session_ok_def trust_store_new_def)
  with assms show ?thesis by (auto simp: session_ok_def SESSION_PER_KIND_CAP_def)
qed

theorem session_sets_bounded_witness:
  "\<exists>s' w'. fold (\<lambda>(u, c). run_cmd (calm_env (\<lambda>_. None)) (\<lambda>_. False) u c)
      [(1, CSessionAtom ''curl x'')] (fst (trust_store_new (calm_env (\<lambda>_. None)) [''d''] demo_world),
        snd (trust_store_new (calm_env (\<lambda>_. None)) [''d''] demo_world)) = (s', w')
    \<and> (\<exists>e. user_states s' 1 = Some e \<and> length (session_trust e) \<le> 4096)"
proof -
  let ?ts = "trust_store_new (calm_env (\<lambda>_. None)) [''d''] demo_world"
  have f: "fold (\<lambda>(u, c). run_cmd (calm_env (\<lambda>_. None)) (\<lambda>_. False) u c)
      [(1, CSessionAtom ''curl x'')] (fst ?ts, snd ?ts) = (session_add_atom 1 ''curl x'' (fst ?ts), snd ?ts)"
    by (simp del: prod.collapse)
  have e: "user_states (session_add_atom 1 ''curl x'' (fst ?ts)) 1 = Some (user_default\<lparr>session_atoms := [''curl x'']\<rparr>)"
    by (simp add: session_add_atom_def Let_def set_user_def user_entry_def trust_store_new_def user_default_def hs_insert_def)
  from session_sets_bounded [OF f e] f e show ?thesis by blast
qed

section \<open>Decisions on hosts\<close>

lemma with_write_lock_Inr:
  assumes "with_write_lock uid m s w = (Inr a, s', w')"
  obtains s1 s2 where "data_root s1 = data_root s" "m s1 w = (Inr a, s2, w')" "user_states s' = user_states s2"
proof -
  obtain s1 s2 where 1: "grows uid s s1" "m s1 w = (Inr a, s2, w')" "user_states s' = user_states s2"
    by (rule with_write_lock_result [OF assms]) blast
  from 1(1) have "data_root s1 = data_root s" by (simp add: grows_def)
  from that [OF this 1(2,3)] show thesis .
qed

lemma user_path_cong:
  "data_root s1 = data_root s \<Longrightarrow> user_urls_path s1 uid = user_urls_path s uid"
  "data_root s1 = data_root s \<Longrightarrow> user_trust_path s1 uid = user_trust_path s uid"
  "data_root s1 = data_root s \<Longrightarrow> user_atoms_path s1 uid = user_atoms_path s uid"
  by (simp_all add: user_urls_path_def user_trust_path_def user_atoms_path_def)

lemma disk_urls_entries:
  "h \<in> set (fst (disk_urls w p)) \<union> set (snd (disk_urls w p)) \<Longrightarrow> url_entry h"
  by (cases "lookup_file w p") (auto simp: disk_def intro: parsed_url_entry)

text \<open>A run in which the data directory exists and no file can be looked at after the write.\<close>

lemma read_if_missing:
  "fault env (ticks w) \<noteq> None \<or> (lookup_file w p = None \<and> \<not> is_dir w p) \<Longrightarrow> read_if_exists env g d p w = (Inr d, commit w)"
  by (auto simp: read_if_exists_def sys_exists_def)

lemma add_url_runs:
  assumes "validate_host host = Inr u" and "ticks w = 0"
    and "\<And>n. n < 8 \<Longrightarrow> fault env n = None" and "\<And>n. 8 \<le> n \<Longrightarrow> fault env n \<noteq> None"
    and "is_dir w (butlast p)" "p = user_urls_path s uid" "\<not> is_dir w p" "lookup_file w p = None"
    and "lookup_file w (write_atomic_tmp env (seq w) p) = None" "\<not> is_dir w (write_atomic_tmp env (seq w) p)"
  shows "fst (persistent_add_url env uid host dec s w) = Inr ()"
proof -
  obtain l s1 where a: "acquire_write_lock uid s = (l, s1)" by (cases "acquire_write_lock uid s") blast
  then have dr: "data_root s1 = data_root s" using growth.lock_same(2) [of uid s] by simp
  have f0: "fault env 0 = None" using assms(3) by simp
  have f2: "fault env (2 + n) = None" if "n < 6" for n using assms(3) that by simp
  have f8: "fault env (8 + n) \<noteq> None" for n using assms(4) by simp
  have p: "user_urls_path s1 uid = p" using user_path_cong(1) [OF dr] assms(6) by simp
  have ne: "p \<noteq> []" using assms(6) by (simp add: user_urls_path_def)
  let ?w2 = "commit (commit w)"
  have e: "ensure_parent_dir env p w = (Inr (), commit w)"
  proof -
    have "sys_exists env (butlast p) w = (True, commit w)" using assms(2,5) f0 by (simp add: sys_exists_def)
    with ne show ?thesis by (cases p) (simp_all add: ensure_parent_dir_def del: butlast.simps)
  qed
  have r: "read_urls_file env p (commit w) = (Inr ([], []), ?w2)"
    unfolding read_urls_file_def by (rule read_if_missing) (use assms(7,8) in simp)
  have t2: "ticks ?w2 = 2" using assms(2) by simp
  have w: "fst (write_urls_file env p x y ?w2) = Inr () \<and> ticks (snd (write_urls_file env p x y ?w2)) = 8" for x y
    using write_atomic_ok [of env ?w2 p, unfolded t2] assms(2,5,7,9,10) f2 [of 0] f2 [of 1] f2 [of 2] f2 [of 3] f2 [of 4]
    by (simp add: write_urls_file_def)
  have ld: "fst (load_persistent env uid s1 w3) = Inr ()" if "ticks w3 = 8" for w3
    using f8 [of 0] f8 [of 1] f8 [of 2] that
    by (simp add: load_persistent_def sop_bind_def sop_io_def read_atoms_file_def read_urls_file_def
        read_trust_file_def read_if_missing sop_modify_def)
  have st: "fst (sop_bind (sop_io (write_urls_file env p x y)) (\<lambda>_. load_persistent env uid) s1 ?w2) = Inr ()" for x y
    using w [of x y] ld by (cases "write_urls_file env p x y ?w2") (simp add: sop_bind_def sop_io_def)
  show ?thesis
    unfolding persistent_add_url_def assms(1) with_write_lock_def a sum.case prod.case
    using st e r p
    by (cases "dec \<in> {Allow, SessionAllow}")
      (simp_all add: sop_bind_def [of "sop_get f" for f] sop_bind_def [of "sop_io (ensure_parent_dir env p)"]
        sop_bind_def [of "sop_io (read_urls_file env p)"] sop_get_def sop_io_def [of "ensure_parent_dir env p"]
        sop_io_def [of "read_urls_file env p"] Let_def case_prod_beta)
qed

text \<open>
  A new decision on a host takes effect and replaces the opposite one: after \<open>urls allow\<close> or
  \<open>urls block\<close> returned \<open>Ok\<close>, the file lists the host on the decided side and not on the other,
  whatever the file said before.
\<close>

theorem url_decision_wins:
  assumes "persistent_add_url env uid host dec s w = (Inr u, s', w')" and "str_trim host = host"
  shows "if dec \<in> {Allow, SessionAllow}
    then host \<in> set (fst (disk_urls w' (user_urls_path s uid))) \<and> host \<notin> set (snd (disk_urls w' (user_urls_path s uid)))
    else host \<in> set (snd (disk_urls w' (user_urls_path s uid))) \<and> host \<notin> set (fst (disk_urls w' (user_urls_path s uid)))"
proof -
  let ?p = "user_urls_path s uid"
  have valid: "is_Ok (validate_host host)"
    using assms(1) by (auto simp: persistent_add_url_def is_Ok_def split: sum.splits)
  obtain s1 s2 where l: "data_root s1 = data_root s" and
    m: "sop_bind (sop_get (\<lambda>s. user_urls_path s uid)) (\<lambda>p.
           sop_bind (sop_io (ensure_parent_dir env p)) (\<lambda>_.
           sop_bind (sop_io (read_urls_file env p)) (\<lambda>(allow0, block0).
             let allow = hs_remove host allow0; block = hs_remove host block0;
                 (allow, block) = (if dec \<in> {Allow, SessionAllow} then (hs_insert host allow, block)
                                   else (allow, hs_insert host block))
             in sop_bind (sop_io (write_urls_file env p allow block))
                  (\<lambda>_. load_persistent env uid)))) s1 w = (Inr u, s2, w')"
    using assms(1) valid unfolding persistent_add_url_def
    by (auto simp: is_Ok_conv elim!: with_write_lock_Inr)
  define al bl where "al a0 = (if dec \<in> {Allow, SessionAllow} then hs_insert host (hs_remove host a0) else hs_remove host a0)"
    and "bl b0 = (if dec \<in> {Allow, SessionAllow} then hs_remove host b0 else hs_insert host (hs_remove host b0))" for a0 b0
  from m obtain wa a0 b0 wb u1 where r: "ensure_parent_dir env ?p w = (Inr u1, wa)"
      "read_urls_file env ?p wa = (Inr (a0, b0), wb)"
      "(let allow = hs_remove host a0; block = hs_remove host b0;
            (allow, block) = (if dec \<in> {Allow, SessionAllow} then (hs_insert host allow, block)
                              else (allow, hs_insert host block))
        in sop_bind (sop_io (write_urls_file env ?p allow block)) (\<lambda>_. load_persistent env uid)) s1 wb = (Inr u, s2, w')"
    unfolding sop_bind_Inr sop_simps by (auto simp: user_path_cong(1) [OF l])
  have "sop_bind (sop_io (write_urls_file env ?p (al a0) (bl b0))) (\<lambda>_. load_persistent env uid) s1 wb = (Inr u, s2, w')"
    using r(3) unfolding Let_def al_def bl_def by (cases "dec \<in> {Allow, SessionAllow}") (simp_all only: if_True if_False prod.case)
  then obtain u2 wc where w: "write_urls_file env ?p (al a0) (bl b0) wb = (Inr u2, wc)"
      "load_persistent env uid s1 wc = (Inr u, s2, w')"
    by (auto simp: sop_bind_Inr sop_simps)
  note 1 = r(1,2) w
  have fl: "(a0, b0) = ([], []) \<or> (a0, b0) = disk_urls w ?p"
    using read_if_exists_Ok [OF 1(2) [unfolded read_urls_file_def]] ensure_parent_files [OF 1(1)]
    by (auto simp: disk_def)
  then have ent: "url_entry h" if "h \<in> set a0 \<union> set b0" for h
    using that disk_urls_entries [of h w ?p] by (metis Un_iff empty_iff fst_conv list.set(1) prod.inject snd_conv)
  have eh: "url_entry host" using valid_host_entry [OF valid assms(2)] by simp
  have all: "\<forall>b\<in>set (al a0) \<union> set (bl b0). url_entry b"
    using ent eh by (auto simp: al_def bl_def)
  then have nl: "\<forall>b\<in>set (al a0) \<union> set (bl b0). NL \<notin> set b" by (simp add: url_entry_def)
  have d: "disk_urls w' ?p = parse_urls_content (urls_content (utc_timestamp_ymd (now_secs env)) (al a0) (bl b0))"
    using write_atomic_effect(1) [OF 1(3) [unfolded write_urls_file_def]] files_load_persistent [OF 1(4)]
    by (simp add: disk_def)
  note only = urls_content_only [OF all stamp_plain, of "now_secs env"]
  note keep = urls_content_keeps [OF nl stamp_plain valid assms(2), of "now_secs env"]
  show ?thesis unfolding d using only keep by (auto simp: al_def bl_def)
qed

section \<open>Locks\<close>

definition locks_ok :: "trust_store \<Rightarrow> bool" where
  "locks_ok s \<longleftrightarrow> am_ok (write_locks s)
     \<and> (\<forall>u v k m n. map_of (write_locks s) u = Some (k, m) \<and> map_of (write_locks s) v = Some (k, n) \<longrightarrow> u = v)
     \<and> (\<forall>v k n. map_of (write_locks s) v = Some (k, n) \<longrightarrow> k < next_lock s)"

lemma locks_prune:
  assumes "locks_ok s"
  shows "locks_ok (s\<lparr>write_locks := filter (\<lambda>p. P (snd p)) (write_locks s)\<rparr>)"
  using assms unfolding locks_ok_def
  by (auto simp: map_of_filter_val split: option.splits if_splits) blast+

lemma locks_upd:
  "locks_ok s \<Longrightarrow> map_of (write_locks s) uid = Some (l, n) \<Longrightarrow> locks_ok (s\<lparr>write_locks := am_upd uid (l, m) (write_locks s)\<rparr>)"
  unfolding locks_ok_def by (auto split: if_splits) blast+

lemma locks_new:
  "locks_ok s \<Longrightarrow> locks_ok (s\<lparr>write_locks := am_upd uid (next_lock s, 1) (write_locks s), next_lock := next_lock s + 1\<rparr>)"
  unfolding locks_ok_def by (auto split: if_splits) (metis less_irrefl less_SucI)+

lemma acquire_cases:
  assumes "acquire_write_lock uid s = (l, s')" and "locks_ok s"
  shows "locks_ok s' \<and> (\<exists>n>0. map_of (write_locks s') uid = Some (l, n))
    \<and> (\<forall>v k n. map_of (write_locks s) v = Some (k, n) \<and> 0 < n \<longrightarrow> (\<exists>m>0. map_of (write_locks s') v = Some (k, m)))"
proof -
  define f where "f = (if SOFT_CAP < length (write_locks s) then \<lambda>x. 0 < snd x else (\<lambda>x :: nat \<times> nat. True))"
  define t where "t = s\<lparr>write_locks := filter (\<lambda>p. f (snd p)) (write_locks s)\<rparr>"
  have ok: "locks_ok t" using locks_prune [OF assms(2)] unfolding t_def .
  have acq: "acquire_write_lock uid s = (case map_of (write_locks t) uid of
            Some (l, n) \<Rightarrow> (l, t\<lparr>write_locks := am_upd uid (l, n + 1) (write_locks t)\<rparr>)
          | None \<Rightarrow> (next_lock t, t\<lparr>write_locks := am_upd uid (next_lock t, 1) (write_locks t), next_lock := next_lock t + 1\<rparr>))"
    by (cases "SOFT_CAP < length (write_locks s)")
      (simp_all add: acquire_write_lock_def Let_def t_def f_def cong: option.case_cong)
  have kept: "map_of (write_locks t) v = Some (k, n)" if "map_of (write_locks s) v = Some (k, n)" "0 < n" for v k n
    using that assms(2) map_of_filter_val [of "write_locks s" f v] by (simp add: f_def t_def locks_ok_def)
  show ?thesis
  proof (cases "map_of (write_locks t) uid")
    case None
    with acq assms(1) have s': "l = next_lock t"
        "s' = t\<lparr>write_locks := am_upd uid (next_lock t, 1) (write_locks t), next_lock := next_lock t + 1\<rparr>" by simp_all
    with locks_new [OF ok] None kept show ?thesis by auto
  next
    case (Some p)
    then obtain n where p: "map_of (write_locks t) uid = Some (l, n)"
        "s' = t\<lparr>write_locks := am_upd uid (l, n + 1) (write_locks t)\<rparr>"
      using acq assms(1) by (cases p) auto
    with locks_upd [OF ok p(1)] kept show ?thesis by auto
  qed
qed

text \<open>
  Writers of one user always meet at one lock. As long as a handle on the lock of a user is
  out, acquiring it again gives the same lock, although the map of locks drops idle entries when it
  grows; the lock a caller receives stays in the map with a handle on it, and two users never share
  a lock.
\<close>

theorem write_locks_shared:
  assumes "locks_ok s" and "acquire_write_lock uid s = (l, s')"
  shows "locks_ok s' \<and> (\<exists>n>0. map_of (write_locks s') uid = Some (l, n))
    \<and> (\<forall>v k n. map_of (write_locks s) v = Some (k, n) \<and> 0 < n \<longrightarrow> fst (acquire_write_lock v s') = k)
    \<and> (\<forall>v k n. map_of (write_locks s') v = Some (k, n) \<and> v \<noteq> uid \<longrightarrow> k \<noteq> l)"
proof -
  note a = acquire_cases [OF assms(2,1)]
  have again: "fst (acquire_write_lock v s') = k" if "map_of (write_locks s') v = Some (k, m)" "0 < m" for v k m
  proof -
    obtain l2 s2 where q: "acquire_write_lock v s' = (l2, s2)" by fastforce
    note a2 = acquire_cases [OF q conjunct1 [OF a]]
    then obtain n where "map_of (write_locks s2) v = Some (l2, n)" by blast
    moreover from a2 that obtain m' where "map_of (write_locks s2) v = Some (k, m')" by blast
    ultimately show ?thesis using q by simp
  qed
  have "k \<noteq> l" if "map_of (write_locks s') v = Some (k, n)" "v \<noteq> uid" for v k n
    using a that unfolding locks_ok_def by blast
  with a again show ?thesis by blast
qed

theorem url_decision_wins_witness:
  "\<exists>s' w'. persistent_add_url (calm_env (\<lambda>n. if n < 8 then None else Some ENotFound)) 1 ''a.io'' BlockUrl
       (fst (trust_store_new (calm_env (\<lambda>_. None)) [''d''] demo_world))
       (demo_world\<lparr>dirs := [([''d'', show_u32 1], 0)]\<rparr>) = (Inr (), s', w')
     \<and> ''a.io'' \<in> set (snd (disk_urls w' [''d'', show_u32 1, ''urls.decisions.txt'']))"
proof -
  let ?env = "calm_env (\<lambda>n. if n < 8 then None else Some ENotFound)"
  let ?s = "fst (trust_store_new (calm_env (\<lambda>_. None)) [''d''] demo_world)"
  let ?w = "demo_world\<lparr>dirs := [([''d'', show_u32 1], 0)]\<rparr>"
  have p: "user_urls_path ?s 1 = [''d'', show_u32 1, ''urls.decisions.txt'']"
    by (simp add: user_urls_path_def trust_store_new_def)
  have v: "validate_host ''a.io'' = Inr ()" by (simp add: validate_host_def HOST_MAX_LEN_def)
  have t: "str_trim ''a.io'' = ''a.io''" by code_simp
  have "fst (persistent_add_url ?env 1 ''a.io'' BlockUrl ?s ?w) = Inr ()"
    by (rule add_url_runs [OF v _ _ _ _ refl])
      (simp_all add: p is_dir_def write_atomic_tmp_def with_file_name_def file_name_def)
  then obtain s' w' where run: "persistent_add_url ?env 1 ''a.io'' BlockUrl ?s ?w = (Inr (), s', w')"
    by (cases "persistent_add_url ?env 1 ''a.io'' BlockUrl ?s ?w") auto
  from url_decision_wins [OF run t] have "''a.io'' \<in> set (snd (disk_urls w' (user_urls_path ?s 1)))" by simp
  with run show ?thesis unfolding p by blast
qed

theorem write_locks_shared_witness:
  "\<exists>l s'. acquire_write_lock 5 (fst (trust_store_new (calm_env (\<lambda>_. None)) [''d''] demo_world)) = (l, s') \<and> locks_ok s'"
proof -
  let ?s = "fst (trust_store_new (calm_env (\<lambda>_. None)) [''d''] demo_world)"
  obtain l s' where a: "acquire_write_lock 5 ?s = (l, s')" by fastforce
  have "locks_ok ?s" by (simp add: locks_ok_def trust_store_new_def)
  from write_locks_shared [OF this a] a show ?thesis by blast
qed

section \<open>The fetched corpus\<close>

lemma read_checked_cases:
  assumes "read_system_atoms_file_checked env p w = (Inr parsed, w1)"
  shows "parsed = [] \<or> (\<exists>f. lookup_file w p = Some f \<and> f_owner f = euid env \<and> f_mode f AND 0x12 = 0
            \<and> parsed = parse_atoms_content (f_bytes f))"
  using assms
  by (auto simp: read_system_atoms_file_checked_def sys_metadata_def sys_def map_err_def io_defs sys_read_to_string_def
      sys_read_def gate_bits split: option.splits os_error.splits if_splits sum.splits)



end
