(* ===== verification/Atom_Fetch.thy ===== *)
theory Atom_Fetch
  imports Atom_Extract Atom_Drift Trust_Session
begin

text \<open>
  Fetching and refreshing (\<open>atom_fetcher/fetch.rs\<close>, \<open>write_atoms\<close> of \<open>extract.rs\<close>, the loop of \<open>cron.rs\<close>): download
  with size cap and digest check, merging of the sources, publication, and one tick of the periodic refresh
  with the reload of the store and the drift snapshot. The HTTP client, SHA-256, the tar reader and the YAML
  parser are fields of \<open>fetch_env\<close>; \<open>fe_http k url\<close> answers the \<open>k\<close>-th request of a fetch with the body that can
  be read.
\<close>

record fetch_env =
  fe_http :: "nat \<Rightarrow> string \<Rightarrow> (string, string) result"
  fe_sha :: "string \<Rightarrow> string"
  fe_untar :: "string \<Rightarrow> tar_entry option list option"
  fe_yaml :: "string \<Rightarrow> yaml option"
  fe_alnum :: "string \<Rightarrow> bool"

record fetch_report =
  fr_total :: nat
  fr_per_source :: "(SourceId \<times> (fetch_error, nat) result) list"

definition MAX_TARBALL_BYTES :: nat where "MAX_TARBALL_BYTES = 32 * 1024 * 1024"

definition enforce_atom_count_cap :: "nat \<Rightarrow> (fetch_error, unit) result" where
  "enforce_atom_count_cap n = (if MAX_ATOMS_TOTAL < n then Inl (ParseError (AtomCountCap n)) else Inr ())"

definition enforce_tarball_size_cap :: "string \<Rightarrow> nat \<Rightarrow> (fetch_error, unit) result" where
  "enforce_tarball_size_cap url len =
     (if MAX_TARBALL_BYTES < len then Inl (NetworkError (TarballTooLarge url len)) else Inr ())"

definition hex_digit :: "nat \<Rightarrow> char" where
  "hex_digit n = ''0123456789abcdef'' ! n"

definition hex_encode :: "string \<Rightarrow> string" where
  "hex_encode bytes = concat (List.map (\<lambda>b. [hex_digit (byte_of b div 16), hex_digit (byte_of b mod 16)]) bytes)"

definition verify_digest :: "fetch_env \<Rightarrow> string \<Rightarrow> string \<Rightarrow> string \<Rightarrow> (fetch_error, unit) result" where
  "verify_digest fe url bytes expected_hex =
     (let actual_hex = hex_encode (fe_sha fe bytes)
      in if ascii_lowercase actual_hex = ascii_lowercase expected_hex then Inr ()
         else Inl (DigestMismatch url expected_hex actual_hex))"

definition download_tarball :: "fetch_env \<Rightarrow> nat \<Rightarrow> string \<Rightarrow> string option \<Rightarrow> (fetch_error, string) result" where
  "download_tarball fe k url expected =
     (case fe_http fe k url of
        Inl m \<Rightarrow> Inl (NetworkError (HttpFailed m))
      | Inr body \<Rightarrow>
          let buf = take (MAX_TARBALL_BYTES + 1) body
          in case enforce_tarball_size_cap url (length buf) of
               Inl e \<Rightarrow> Inl e
             | Inr _ \<Rightarrow>
                 (case expected of
                    None \<Rightarrow> Inr buf
                  | Some x \<Rightarrow> (case verify_digest fe url buf x of Inl e \<Rightarrow> Inl e | Inr _ \<Rightarrow> Inr buf)))"

definition fetch_gtfobins :: "fetch_env \<Rightarrow> fetcher_config \<Rightarrow> nat \<Rightarrow> (fetch_error, string list) result" where
  "fetch_gtfobins fe cfg k =
     (let pin = Option.bind (fc_pins cfg) pins_gtfobins;
          url = (case pin of Some p \<Rightarrow> tarball_url p ''GTFOBins/GTFOBins.github.io''
                 | None \<Rightarrow> ''https://codeload.github.com/GTFOBins/GTFOBins.github.io/tar.gz/refs/heads/master'')
      in case download_tarball fe k url (map_option pin_sha256 pin) of
           Inl e \<Rightarrow> Inl e
         | Inr buf \<Rightarrow> walk_tarball_atoms (fe_untar fe) buf is_gtfobins_entry_file
                       (extract_gtfobins_atoms (fe_yaml fe) (fe_alnum fe)))"

definition fetch_sigma :: "fetch_env \<Rightarrow> fetcher_config \<Rightarrow> nat \<Rightarrow> (fetch_error, string list) result" where
  "fetch_sigma fe cfg k =
     (let pin = Option.bind (fc_pins cfg) pins_sigma;
          url = (case pin of Some p \<Rightarrow> tarball_url p ''SigmaHQ/sigma''
                 | None \<Rightarrow> ''https://codeload.github.com/SigmaHQ/sigma/tar.gz/refs/heads/master'')
      in case download_tarball fe k url (map_option pin_sha256 pin) of
           Inl e \<Rightarrow> Inl e
         | Inr buf \<Rightarrow> walk_tarball_atoms (fe_untar fe) buf is_sigma_linux_rule
                       (extract_sigma_atoms (fe_yaml fe) (fe_alnum fe)))"

fun fetch_one :: "fetch_env \<Rightarrow> fetcher_config \<Rightarrow> nat \<Rightarrow> SourceId \<Rightarrow> (fetch_error, string list) result" where
  "fetch_one fe cfg k Gtfobins = fetch_gtfobins fe cfg k"
| "fetch_one fe cfg k Sigma = fetch_sigma fe cfg k"

text \<open>The header of the published file, then one atom per line.\<close>

definition system_header :: "string list" where
  "system_header =
     [''# atty-guard auto-fetched atom set (atoms.system.txt).'',
      ''# Generated by `atty-guard --update-atoms-now` (or the daemon's'',
      ''# `--atoms-update-interval` cron mode). Do NOT hand-edit '' @ em_dash,
      ''# changes get overwritten on next refresh. The bundled'',
      ''# `flagged_atoms.txt` (in the atty repo, compile-time embedded)'',
      ''# stays the always-on baseline; this file is the daemon's'',
      ''# runtime overlay loaded with a permission gate (must be atty-'',
      ''# owned, no group/world-write). Lives at $STATE_DIRECTORY/, i.e.'',
      ''# /var/lib/atty-guard/atoms.system.txt on the system daemon.'']"

definition system_content :: "string hashset \<Rightarrow> string" where
  "system_content atoms = file_of_lines (system_header @ sorted_vec atoms)"

definition write_atoms :: "os_env \<Rightarrow> path \<Rightarrow> string hashset \<Rightarrow> (fetch_error, unit) io" where
  "write_atoms env p atoms = map_err WriteError (write_atoms_bytes env p (system_content atoms))"

fun fetch_sources ::
    "fetch_env \<Rightarrow> fetcher_config \<Rightarrow> nat \<Rightarrow> SourceId list \<Rightarrow> bool \<Rightarrow> string hashset
     \<Rightarrow> (SourceId \<times> (fetch_error, nat) result) list
     \<Rightarrow> bool \<times> string hashset \<times> (SourceId \<times> (fetch_error, nat) result) list" where
  "fetch_sources fe cfg k [] any_success all_atoms per = (any_success, all_atoms, per)"
| "fetch_sources fe cfg k (sid # sids) any_success all_atoms per =
     (case fetch_one fe cfg k sid of
        Inr atoms \<Rightarrow> fetch_sources fe cfg (k + 1) sids (if 0 < length atoms then True else any_success)
                      (fold hs_insert atoms all_atoms) (per @ [(sid, Inr (length atoms))])
      | Inl e \<Rightarrow> fetch_sources fe cfg (k + 1) sids any_success all_atoms (per @ [(sid, Inl e)]))"

definition fetch_all ::
    "fetch_env \<Rightarrow> os_env \<Rightarrow> fetcher_config \<Rightarrow> SourceId list \<Rightarrow> (fetch_error, fetch_report) io" where
  "fetch_all fe env cfg sids =
     (case fetch_sources fe cfg 0 sids False [] [] of
        (any_success, all_atoms, per) \<Rightarrow>
          if \<not> any_success then io_err (ParseError AllSourcesFailed)
          else case enforce_atom_count_cap (length all_atoms) of
                 Inl e \<Rightarrow> io_err e
               | Inr _ \<Rightarrow> io_bind (write_atoms env (fc_output_path cfg) all_atoms)
                           (\<lambda>_. io_ret \<lparr>fr_total = length all_atoms, fr_per_source = per\<rparr>))"

section \<open>The periodic refresh\<close>

definition DEFAULT_PIN_FILE :: path where
  "DEFAULT_PIN_FILE = [''etc'', ''atty-guard'', ''atoms.pins.toml'']"

definition DEFAULT_DRIFT_FILE :: path where
  "DEFAULT_DRIFT_FILE = [''var'', ''lib'', ''atty-guard'', ''atoms.drift.json'']"

record refresh_env =
  re_os :: os_env
  re_fetch :: fetch_env
  re_toml :: "string \<Rightarrow> atom_pins option"
  re_http :: "nat \<Rightarrow> string \<Rightarrow> (string, string) result"
  re_commit_sha :: "string \<Rightarrow> string option"
  re_decode :: "string \<Rightarrow> drift_snapshot option"
  re_render :: "drift_snapshot \<Rightarrow> string"
  re_clock :: u64

definition reload_pins :: "refresh_env \<Rightarrow> fetcher_config \<Rightarrow> world \<Rightarrow> fetcher_config \<times> world" where
  "reload_pins re cfg w =
     (case load_pins (re_os re) (re_toml re) DEFAULT_PIN_FILE w of
        (Inr pins, w1) \<Rightarrow> (cfg\<lparr>fc_pins := pins\<rparr>, w1)
      | (Inl e, w1) \<Rightarrow> (cfg, w1))"

text \<open>One turn of the loop, up to the sleep.\<close>

definition refresh_tick ::
    "refresh_env \<Rightarrow> SourceId list \<Rightarrow> fetcher_config \<times> trust_store \<times> world \<Rightarrow> fetcher_config \<times> trust_store \<times> world" where
  "refresh_tick re sids st =
     (case st of (cfg, s, w) \<Rightarrow>
      case reload_pins re cfg w of (cfg, w1) \<Rightarrow>
      case fetch_all (re_fetch re) (re_os re) cfg sids w1 of
        (Inl e, w2) \<Rightarrow> (cfg, s, w2)
      | (Inr report, w2) \<Rightarrow>
          (case reload_system_fetched (re_os re) s w2 of (_, s3, w3) \<Rightarrow>
           case read_snapshot (re_os re) (re_decode re) DEFAULT_DRIFT_FILE w3 of (rd, w4) \<Rightarrow>
             let prev = (case rd of Inr p \<Rightarrow> p | Inl _ \<Rightarrow> None);
                 snapshot = compute_snapshot (fc_pins cfg) sids (\<lambda>k. probe_head_sha (re_http re k) (re_commit_sha re)) (re_clock re) prev
             in (cfg, s3, snd (write_snapshot (re_os re) (re_render re) DEFAULT_DRIFT_FILE snapshot w4))))"

text \<open>The loop: one environment per turn, with whether shutdown was requested during the sleep after it.\<close>

fun refresh_loop ::
    "(refresh_env \<times> bool) list \<Rightarrow> SourceId list \<Rightarrow> fetcher_config \<times> trust_store \<times> world
     \<Rightarrow> fetcher_config \<times> trust_store \<times> world" where
  "refresh_loop [] sids st = st"
| "refresh_loop ((re, stop) # turns) sids st =
     (let st' = refresh_tick re sids st in if stop then st' else refresh_loop turns sids st')"

section \<open>The published file reads back\<close>

lemma parse_entry_plain: "storable a \<Longrightarrow> str_trim a = a \<Longrightarrow> parse_entry_line a = Some a"
  by (simp add: parse_entry_line_def strip_inline_comment_def split_once_def storable_def str_contains_def Let_def)

lemma trimmed_one_line:
  assumes "NL \<notin> set a" and "str_trim a = a" shows "one_line a"
proof -
  have "[CR] \<in> set ws_chars" by (simp add: ws_chars_def)
  with assms(2) have "\<not> suffix [CR] a" unfolding str_trim_id_iff ws_suffix_0 by blast
  then have "a = [] \<or> last a \<noteq> CR" by (metis append_butlast_last_id suffixI)
  with assms(1) show ?thesis by (auto simp: one_line_def strip_cr_def)
qed

interpretation system_lines: line_codec parse_entry_line "\<lambda>a. a" one_line "\<lambda>a. storable a \<and> str_trim a = a" Some
  by unfold_locales (auto simp: parse_entry_plain trimmed_one_line storable_def)

lemma system_header_lines: "list_all one_line system_header" "list_all (\<lambda>l. parse_entry_line l = None) system_header"
  by (rule list_all_one_line_ascii) (simp_all add: system_header_def parse_entry_line_def strip_inline_comment_def starts_with_def)

lemma system_content_exact:
  assumes "\<forall>a\<in>set atoms. fetchable alnum a"
  shows "set (parse_atoms_content (system_content atoms)) = set atoms"
proof -
  have "list_all (\<lambda>a. storable a \<and> str_trim a = a) (sorted_vec atoms)"
    using assms by (auto simp: list_all_iff fetchable_def)
  from system_lines.read_back [OF system_header_lines this, of Some] show ?thesis
    by (auto simp: parse_atoms_content_def system_content_def)
qed

section \<open>What a fetch delivers\<close>

text \<open>A body that passed the size cap and, under a pin, the digest check.\<close>

definition checked_body :: "fetch_env \<Rightarrow> nat \<Rightarrow> pin_entry option \<Rightarrow> string \<Rightarrow> string \<Rightarrow> bool" where
  "checked_body fe k pin url body \<longleftrightarrow> fe_http fe k url = Inr body \<and> length body \<le> MAX_TARBALL_BYTES
     \<and> (\<forall>p. pin = Some p \<longrightarrow> ascii_lowercase (hex_encode (fe_sha fe body)) = ascii_lowercase (pin_sha256 p))"

definition got :: "fetch_env \<Rightarrow> fetcher_config \<Rightarrow> nat \<Rightarrow> SourceId \<Rightarrow> string set" where
  "got fe cfg k sid = (case fetch_one fe cfg k sid of Inr atoms \<Rightarrow> set atoms | Inl _ \<Rightarrow> {})"

lemma download_checked:
  assumes "download_tarball fe k url (map_option pin_sha256 pin) = Inr buf"
  shows "checked_body fe k pin url buf"
proof -
  from assms obtain body where b: "fe_http fe k url = Inr body" by (auto simp: download_tarball_def split: sum.splits)
  have le: "length (take (MAX_TARBALL_BYTES + 1) body) \<le> MAX_TARBALL_BYTES"
    using assms b by (auto simp: download_tarball_def enforce_tarball_size_cap_def Let_def split: if_splits)
  then have "take (MAX_TARBALL_BYTES + 1) body = body" by (simp add: min_def split: if_splits)
  with assms b le show ?thesis
    by (cases pin) (auto simp: download_tarball_def enforce_tarball_size_cap_def verify_digest_def checked_body_def Let_def
        split: if_splits)
qed

lemma fetch_one_checked:
  assumes "fetch_one fe cfg k sid = Inr atoms"
  shows "(\<forall>a\<in>set atoms. fetchable (fe_alnum fe) a)
    \<and> (\<exists>url body. checked_body fe k (pin_of (fc_pins cfg) sid) url body
         \<and> (\<forall>p. pin_of (fc_pins cfg) sid = Some p \<longrightarrow> url = tarball_url p (source_repo sid)))"
proof (cases sid)
  case Gtfobins
  have pin: "pin_of (fc_pins cfg) Gtfobins = Option.bind (fc_pins cfg) pins_gtfobins" by (cases "fc_pins cfg") simp_all
  let ?pin = "pin_of (fc_pins cfg) Gtfobins"
  let ?url = "case ?pin of Some p \<Rightarrow> tarball_url p (source_repo Gtfobins)
      | None \<Rightarrow> ''https://codeload.github.com/GTFOBins/GTFOBins.github.io/tar.gz/refs/heads/master''"
  from assms Gtfobins obtain buf where d: "download_tarball fe k ?url (map_option pin_sha256 ?pin) = Inr buf"
      and w: "walk_tarball_atoms (fe_untar fe) buf is_gtfobins_entry_file (extract_gtfobins_atoms (fe_yaml fe) (fe_alnum fe)) = Inr atoms"
    by (auto simp: fetch_gtfobins_def Let_def pin cong: option.case_cong split: sum.splits)
  have "\<forall>p. ?pin = Some p \<longrightarrow> ?url = tarball_url p (source_repo Gtfobins)" by simp
  with gtfobins.walk_spec [OF w] download_checked [OF d] Gtfobins show ?thesis by blast
next
  case Sigma
  have pin: "pin_of (fc_pins cfg) SourceId.Sigma = Option.bind (fc_pins cfg) pins_sigma" by (cases "fc_pins cfg") simp_all
  let ?pin = "pin_of (fc_pins cfg) SourceId.Sigma"
  let ?url = "case ?pin of Some p \<Rightarrow> tarball_url p (source_repo SourceId.Sigma)
      | None \<Rightarrow> ''https://codeload.github.com/SigmaHQ/sigma/tar.gz/refs/heads/master''"
  from assms Sigma obtain buf where d: "download_tarball fe k ?url (map_option pin_sha256 ?pin) = Inr buf"
      and w: "walk_tarball_atoms (fe_untar fe) buf is_sigma_linux_rule (extract_sigma_atoms (fe_yaml fe) (fe_alnum fe)) = Inr atoms"
    by (auto simp: fetch_sigma_def Let_def pin cong: option.case_cong split: sum.splits)
  have "\<forall>p. ?pin = Some p \<longrightarrow> ?url = tarball_url p (source_repo SourceId.Sigma)" by simp
  with sigma.walk_spec [OF w] download_checked [OF d] Sigma show ?thesis by blast
qed

lemma set_fold_hs_insert [simp]: "set (fold hs_insert xs A) = set A \<union> set xs"
  by (induction xs arbitrary: A) auto

lemma distinct_fold_hs_insert [simp]: "distinct A \<Longrightarrow> distinct (fold hs_insert xs A)"
  by (induction xs arbitrary: A) auto

lemma got_Suc:
  "(\<Union>i<length (sid # sids). got fe cfg (k + i) ((sid # sids) ! i))
   = got fe cfg k sid \<union> (\<Union>i<length sids. got fe cfg (Suc k + i) (sids ! i))"
  by (simp add: lessThan_Suc_eq_insert_0)

lemma fetch_sources_spec:
  assumes "fetch_sources fe cfg k sids b A per = (b', A', per')" and "distinct A"
  shows "set A' = set A \<union> (\<Union>i<length sids. got fe cfg (k + i) (sids ! i)) \<and> distinct A'
    \<and> (b' \<longleftrightarrow> b \<or> (\<Union>i<length sids. got fe cfg (k + i) (sids ! i)) \<noteq> {})"
  using assms
proof (induction sids arbitrary: k b A per)
  case (Cons sid sids)
  show ?case
  proof (cases "fetch_one fe cfg k sid")
    case (Inl e)
    then have "got fe cfg k sid = {}" by (simp add: got_def)
    with Inl Cons.IH [of "Suc k"] Cons.prems show ?thesis unfolding got_Suc by simp
  next
    case (Inr atoms)
    then have g: "got fe cfg k sid = set atoms" by (simp add: got_def)
    obtain G where G: "(\<Union>i<length sids. got fe cfg (Suc k + i) (sids ! i)) = G" by blast
    from Inr Cons.prems have "fetch_sources fe cfg (Suc k) sids (if 0 < length atoms then True else b) (fold hs_insert atoms A)
        (per @ [(sid, Inr (length atoms))]) = (b', A', per')" "distinct (fold hs_insert atoms A)" by simp_all
    from Cons.IH [OF this] show ?thesis unfolding got_Suc g G by (cases "atoms = []") auto
  qed
qed simp

lemma got_fetchable: "a \<in> got fe cfg k sid \<Longrightarrow> fetchable (fe_alnum fe) a"
  by (auto simp: got_def split: sum.splits dest: fetch_one_checked)


abbreviation fetch_demo :: fetch_env where
  "fetch_demo \<equiv> \<lparr>fe_http = (\<lambda>_ _. Inr ''gz''), fe_sha = (\<lambda>_. []), fe_untar = (\<lambda>_. Some [Some extract_demo_entry]),
     fe_yaml = extract_demo_yaml, fe_alnum = (\<lambda>_. False)\<rparr>"


section \<open>What a refresh does to pins and corpus\<close>

text \<open>
  C22. Pinning fails closed. A turn of the refresh loop goes back to live tracking only when the pin file is
  absent, and takes pins only from a regular file of root that neither group nor others may write, holding at
  least one entry, every entry a 40 digit commit and a 64 digit digest. In every other case, a directory, a
  foreign owner, a failing call, blank or malformed content, the pins in force stay. Nothing is written.
\<close>

theorem pinning_fails_closed:
  assumes "reload_pins re cfg w = (cfg', w')"
  shows "fc_output_path cfg' = fc_output_path cfg \<and> files w' = files w \<and> dirs w' = dirs w
    \<and> (fc_pins cfg' = fc_pins cfg
       \<or> (fc_pins cfg' = None \<and> (fault (re_os re) (ticks w) = Some ENotFound
            \<or> (lookup_file w DEFAULT_PIN_FILE = None \<and> \<not> is_dir w DEFAULT_PIN_FILE)))
       \<or> (\<exists>f pins. fc_pins cfg' = Some pins \<and> lookup_file w DEFAULT_PIN_FILE = Some f
            \<and> f_owner f = 0 \<and> f_mode f AND 0x12 = 0 \<and> re_toml re (f_bytes f) = Some pins
            \<and> (\<exists>sid. pin_of (Some pins) sid \<noteq> None) \<and> (\<forall>sid e. pin_of (Some pins) sid = Some e \<longrightarrow> pin_ok e)))"
proof (cases "load_pins (re_os re) (re_toml re) DEFAULT_PIN_FILE w")
  case (Pair r w1)
  from load_pins_gate [OF this] assms Pair show ?thesis
    by (cases r) (auto simp: reload_pins_def split: option.splits)
qed

abbreviation pin_demo_toml :: "string \<Rightarrow> atom_pins option" where
  "pin_demo_toml \<equiv> \<lambda>s. if s = ''pins'' then
     Some \<lparr>pins_gtfobins = Some \<lparr>pin_commit = replicate 40 (CHR ''a''), pin_sha256 = replicate 64 (CHR ''B'')\<rparr>,
       pins_sigma = None\<rparr> else None"

abbreviation pin_demo_world :: "u32 \<Rightarrow> world" where
  "pin_demo_world m \<equiv> demo_world\<lparr>files := [(DEFAULT_PIN_FILE, \<lparr>f_bytes = ''pins'', f_mode = m, f_owner = 0, f_synced = True\<rparr>)]\<rparr>"

abbreviation pin_demo_env :: refresh_env where
  "pin_demo_env \<equiv> \<lparr>re_os = calm_env (\<lambda>_. None), re_fetch = fetch_demo, re_toml = pin_demo_toml, re_http = (\<lambda>_ _. Inl []), re_commit_sha = (\<lambda>_. None),
     re_decode = (\<lambda>_. None), re_render = (\<lambda>_. []), re_clock = 0\<rparr>"

theorem pinning_fails_closed_witness:
  "\<exists>p w'. reload_pins pin_demo_env \<lparr>fc_output_path = [], fc_pins = None\<rparr> (pin_demo_world 0x1A4)
      = (\<lparr>fc_output_path = [], fc_pins = Some p\<rparr>, w') \<and> (\<forall>e. pin_of (Some p) Gtfobins = Some e \<longrightarrow> pin_ok e)"
proof -
  let ?c = "\<lparr>fc_output_path = [], fc_pins = None\<rparr>"
  have hex: "list_all is_hexdigit (replicate n (CHR ''a''))" "list_all is_hexdigit (replicate n (CHR ''B''))" for n
    by (simp_all add: list_all_iff is_hexdigit_def)
  have valid: "utf8_valid ''pins''" by code_simp
  have "\<exists>p. fc_pins (fst (reload_pins pin_demo_env ?c (pin_demo_world 0x1A4))) = Some p"
    by (simp add: reload_pins_def load_pins_def load_pins_with_owner_def sys_metadata_def sys_read_def sys_def
        check_pin_file_perms_def parse_pins_def validate_pins_def check_pin_entry_def hex valid is_ascii_whitespace_def Let_def)
  then obtain c' w' p where run: "reload_pins pin_demo_env ?c (pin_demo_world 0x1A4) = (c', w')" "fc_pins c' = Some p"
    by (cases "reload_pins pin_demo_env ?c (pin_demo_world 0x1A4)") auto
  from pinning_fails_closed [OF run(1)] run(2)
  have "fc_output_path c' = [] \<and> (\<forall>sid e. pin_of (Some p) sid = Some e \<longrightarrow> pin_ok e)" by auto
  moreover from this run(2) have "c' = \<lparr>fc_output_path = [], fc_pins = Some p\<rparr>" by simp
  ultimately show ?thesis using run(1) by blast
qed

text \<open>
  The corpus in memory changes only to the content of a file of the daemon that nobody else may write, or, when
  the corpus file is missing, to nothing; a failing fetch leaves it alone.
\<close>

lemma refresh_corpus:
  assumes "refresh_tick re sids (cfg, s, w) = (cfg', s', w')"
  shows "s' = s \<or> system_fetched_atoms s' = []
    \<or> (\<exists>rep w1 w2 f. fetch_all (re_fetch re) (re_os re) cfg' sids w1 = (Inr rep, w2)
         \<and> lookup_file w2 (system_fetched_path s) = Some f \<and> f_owner f = euid (re_os re) \<and> f_mode f AND 0x12 = 0
         \<and> set (system_fetched_atoms s') = set (parse_atoms_content (f_bytes f)))"
proof -
  obtain c1 w1 where pins: "reload_pins re cfg w = (c1, w1)" by (cases "reload_pins re cfg w")
  obtain r w2 where fetch: "fetch_all (re_fetch re) (re_os re) c1 sids w1 = (r, w2)"
    by (cases "fetch_all (re_fetch re) (re_os re) c1 sids w1")
  obtain q w3 where chk: "read_system_atoms_file_checked (re_os re) (system_fetched_path s) w2 = (q, w3)"
    by (cases "read_system_atoms_file_checked (re_os re) (system_fetched_path s) w2")
  show ?thesis
  proof (cases "is_Ok r \<and> is_Ok q")
    case False
    with assms pins fetch chk show ?thesis
      by (auto simp: refresh_tick_def reload_system_fetched_def Let_def is_Ok_def split: sum.splits prod.splits)
  next
    case True
    then obtain rep parsed where "r = Inr rep" "q = Inr parsed" by (auto simp: is_Ok_conv)
    with assms pins fetch chk have "cfg' = c1" "system_fetched_atoms s' = sorted_vec parsed"
      by (auto simp: refresh_tick_def reload_system_fetched_def Let_def split: prod.splits)
    with fetch \<open>r = Inr rep\<close> read_checked_cases [OF chk [unfolded \<open>q = Inr parsed\<close>]] show ?thesis
      by (auto simp: sorted_vec_def)
  qed
qed

end
