(* ===== verification/Server_State.thy ===== *)
theory Server_State
  imports Osv Npm_Parser Threat_Map Metrics Warn_Consumer Profile Atom_Fetch
begin

text \<open>
  The state of the server (\<open>server.rs\<close>) and what its handlers share: the peer's credentials, the gates, the
  subscriber slots, and lifting the operations of the components to the server's state. A handler takes the
  environment of one request and the peer, and returns the response with the new state. The environment holds
  what the operating system and the other threads do during that request.
\<close>

section \<open>Peers\<close>

record peer_cred =
  peer_uid :: u32
  peer_root :: bool

text \<open>What \<open>getsockopt(SO_PEERCRED)\<close> gives: the return code, the length of the answer and the uid in it.\<close>

datatype cred_error = OsCredError | ShortCred nat

definition UCRED_LEN :: nat where "UCRED_LEN = 12"

definition peer_from_stream :: "int \<Rightarrow> nat \<Rightarrow> u32 \<Rightarrow> (cred_error, peer_cred) result" where
  "peer_from_stream rc len uid =
     (if rc \<noteq> 0 then Inl OsCredError
      else if len \<noteq> UCRED_LEN then Inl (ShortCred len)
      else Inr \<lparr>peer_uid = uid, peer_root = (uid = 0)\<rparr>)"

text \<open>Every peer the server serves comes from \<open>peer_from_stream\<close>.\<close>

definition peer_ok :: "peer_cred \<Rightarrow> bool" where
  "peer_ok p \<longleftrightarrow> (peer_root p \<longleftrightarrow> peer_uid p = 0)"

lemma peer_from_stream_ok: "peer_from_stream rc len uid = Inr p \<Longrightarrow> peer_ok p \<and> peer_uid p = uid"
  by (auto simp: peer_from_stream_def peer_ok_def split: if_splits)

section \<open>Subscriber slots\<close>

definition MAX_WARN_SUBSCRIBERS_TOTAL :: nat where "MAX_WARN_SUBSCRIBERS_TOTAL = 16"
definition MAX_WARN_SUBSCRIBERS_PER_UID :: nat where "MAX_WARN_SUBSCRIBERS_PER_UID = 4"

record subscriber_counts =
  sc_total :: nat
  sc_per_uid :: "(u32 \<times> nat) list"

definition subscriber_slots_new :: subscriber_counts where
  "subscriber_slots_new = \<lparr>sc_total = 0, sc_per_uid = []\<rparr>"

definition slot_count :: "(u32 \<times> nat) list \<Rightarrow> u32 \<Rightarrow> nat" where
  "slot_count m uid = (case map_of m uid of Some n \<Rightarrow> n | None \<Rightarrow> 0)"

text \<open>\<open>entry(uid).or_insert(0)\<close> leaves a zero entry behind when the slot is then refused.\<close>

definition try_acquire :: "u32 \<Rightarrow> subscriber_counts \<Rightarrow> bool \<times> subscriber_counts" where
  "try_acquire uid c =
     (if MAX_WARN_SUBSCRIBERS_TOTAL \<le> sc_total c then (False, c)
      else let n = slot_count (sc_per_uid c) uid
           in if MAX_WARN_SUBSCRIBERS_PER_UID \<le> n
              then (False, c\<lparr>sc_per_uid := am_upd uid n (sc_per_uid c)\<rparr>)
              else (True, \<lparr>sc_total = sc_total c + 1, sc_per_uid = am_upd uid (n + 1) (sc_per_uid c)\<rparr>))"

definition release_slot :: "u32 \<Rightarrow> subscriber_counts \<Rightarrow> subscriber_counts" where
  "release_slot uid c =
     (let c1 = c\<lparr>sc_total := sat_sub (sc_total c) 1\<rparr>
      in case map_of (sc_per_uid c) uid of
           None \<Rightarrow> c1
         | Some n \<Rightarrow> let m = sat_sub n 1
                   in c1\<lparr>sc_per_uid := (if m = 0 then am_del uid (sc_per_uid c) else am_upd uid m (sc_per_uid c))\<rparr>)"

section \<open>State and environment\<close>

record server =
  sv_classifier :: classifier
  sv_threat :: threats
  sv_osv :: "osv_client option"
  sv_trust :: trust_store
  sv_world :: world
  sv_broadcast :: broadcast
  sv_slots :: subscriber_counts
  sv_metrics :: metrics_store
  sv_posture :: guard_posture
  sv_profile :: u8
  sv_user_switch :: bool
  sv_ebpf :: "ebpf_state option"
  sv_deny_bins :: "string list"
  sv_deny_names :: "string list"
  sv_path_armed :: u32
  sv_name_armed :: u32

definition server_new ::
    "classifier \<Rightarrow> bpf \<Rightarrow> ebpf_state option \<Rightarrow> osv_client option \<Rightarrow> trust_store \<Rightarrow> world \<Rightarrow> broadcast \<Rightarrow> guard_posture
     \<Rightarrow> u8 \<Rightarrow> bool \<Rightarrow> string list \<Rightarrow> string list \<Rightarrow> server" where
  "server_new c k ebpf osv ts w bc posture prof user_switch bins names =
     (let threat = threat_map_new k;
          threat = (case ebpf of Some es \<Rightarrow> with_ebpf es threat | None \<Rightarrow> threat)
      in \<lparr>sv_classifier = c, sv_threat = threat, sv_osv = osv, sv_trust = ts, sv_world = w, sv_broadcast = bc,
          sv_slots = subscriber_slots_new, sv_metrics = [], sv_posture = posture, sv_profile = prof,
          sv_user_switch = user_switch, sv_ebpf = ebpf, sv_deny_bins = bins, sv_deny_names = names,
          sv_path_armed = gp_deny_path posture, sv_name_armed = gp_deny_basename posture\<rparr>)"

record server_env =
  se_os :: os_env
  se_alnum :: "string \<Rightarrow> bool"
  se_proc :: procfs
  se_lower :: "string \<Rightarrow> string"
  se_post :: osv_post
  se_instant :: "nat \<Rightarrow> nat" \<comment> \<open>readings of the monotonic clock\<close>
  se_now_ms :: u64
  se_osv_others :: "nat \<Rightarrow> osv_client \<Rightarrow> osv_client" \<comment> \<open>what others do during the \<open>k\<close>-th lookup\<close>
  se_threat_others :: "threats \<Rightarrow> threats"
  se_session_others :: "nat \<Rightarrow> trust_store \<Rightarrow> trust_store"
  se_decode_drift :: "string \<Rightarrow> drift_snapshot option"
  se_version :: string

type_synonym 'a served = "server \<Rightarrow> 'a \<times> server"

definition on_threat :: "(threats \<Rightarrow> 'a \<times> threats) \<Rightarrow> 'a served" where
  "on_threat f s = (case f (sv_threat s) of (a, t) \<Rightarrow> (a, s\<lparr>sv_threat := t\<rparr>))"

definition on_trust :: "'a sop \<Rightarrow> (io_error, 'a) result served" where
  "on_trust op s = (case op (sv_trust s) (sv_world s) of (r, ts, w) \<Rightarrow> (r, s\<lparr>sv_trust := ts, sv_world := w\<rparr>))"

definition on_session :: "(trust_store \<Rightarrow> 'a \<times> trust_store) \<Rightarrow> 'a served" where
  "on_session f s = (case f (sv_trust s) of (a, ts) \<Rightarrow> (a, s\<lparr>sv_trust := ts\<rparr>))"

definition load_user :: "server_env \<Rightarrow> u32 \<Rightarrow> server \<Rightarrow> server" where
  "load_user env uid s = snd (on_trust (ensure_loaded (se_os env) uid) s)"

definition load_fetched :: "server_env \<Rightarrow> server \<Rightarrow> server" where
  "load_fetched env s =
     (case ensure_system_fetched_loaded (se_os env) (sv_trust s) (sv_world s) of
        (ts, w) \<Rightarrow> s\<lparr>sv_trust := ts, sv_world := w\<rparr>)"

section \<open>Gates\<close>

definition require_root_error :: "string \<Rightarrow> response" where
  "require_root_error op = RError (MRequiresRoot op)"

definition resolve_target_uid :: "peer_cred \<Rightarrow> u32 option \<Rightarrow> (message, u32) result" where
  "resolve_target_uid peer target =
     (case target of
        None \<Rightarrow> Inr (peer_uid peer)
      | Some t \<Rightarrow> if t = peer_uid peer then Inr t
                 else if peer_root peer then Inr t
                 else Inl (MOtherUid (peer_uid peer) t))"

text \<open>
  The first two steps of the three gates on a process number: its start time, then its owner. A process of
  another user, a gone one and an unreadable one are refused.
\<close>

definition owned_start :: "server_env \<Rightarrow> peer_cred \<Rightarrow> u32 \<Rightarrow> threats \<Rightarrow> (message, u64) result \<times> threats" where
  "owned_start env peer pid t =
     (case read_starttime (se_proc env) pid t of
        (NotFound, t1) \<Rightarrow> (Inl (MPidGone pid), t1)
      | (ReadError m, t1) \<Rightarrow> (Inl (MProcRead m), t1)
      | (Found start, t1) \<Rightarrow>
          (case read_owner (se_proc env) pid t1 of
             (Owner u, t2) \<Rightarrow> (if u \<noteq> peer_uid peer then Inl (MPidOwned (peer_uid peer) pid u) else Inr start, t2)
           | (OwnerNotFound, t2) \<Rightarrow> (Inl (MPidGone pid), t2)
           | (OwnerError m, t2) \<Rightarrow> (Inl (MProcRead m), t2)))"

definition caller_owns_pid :: "server_env \<Rightarrow> peer_cred \<Rightarrow> u32 \<Rightarrow> threats \<Rightarrow> bool \<times> threats" where
  "caller_owns_pid env peer pid t =
     (if peer_root peer then (True, t)
      else case read_owner (se_proc env) pid t of (l, t1) \<Rightarrow> (l = Owner (peer_uid peer), t1))"

definition truncate_to_bytes :: "string \<Rightarrow> nat \<Rightarrow> string" where
  "truncate_to_bytes s mx = (if length s \<le> mx then s else take (boundary_down s mx) s)"

lemma truncate_to_bytes_length: "length (truncate_to_bytes s n) \<le> n"
  using boundary_down_le [of s n] by (auto simp: truncate_to_bytes_def)

lemma truncate_to_bytes_valid: "utf8_valid s \<Longrightarrow> utf8_valid (truncate_to_bytes s n)"
  using utf8_valid_split [OF _ boundary_down_ok, of s n] boundary_down_le [of s n]
  by (auto simp: truncate_to_bytes_def)

text \<open>The cut loses less than one character.\<close>

lemma truncate_to_bytes_longest:
  assumes "n < length s" and "i \<le> n" and "is_char_boundary s i"
  shows "i \<le> length (truncate_to_bytes s n)"
  using assms boundary_down_greatest [of i n s] boundary_down_le [of s n] by (simp add: truncate_to_bytes_def)

section \<open>The slots are bounded and are given back\<close>

text \<open>\<open>held\<close> lists the users of the subscriptions that are open.\<close>

definition slots_ok :: "u32 list \<Rightarrow> subscriber_counts \<Rightarrow> bool" where
  "slots_ok held c \<longleftrightarrow> sc_total c = length held \<and> am_ok (sc_per_uid c)
     \<and> (\<forall>u. slot_count (sc_per_uid c) u = count_list held u)
     \<and> length held \<le> MAX_WARN_SUBSCRIBERS_TOTAL \<and> (\<forall>u. count_list held u \<le> MAX_WARN_SUBSCRIBERS_PER_UID)"

datatype slot_event = Subscribe u32 | Leave nat

definition drop_nth :: "nat \<Rightarrow> 'a list \<Rightarrow> 'a list" where
  "drop_nth i xs = take i xs @ drop (Suc i) xs"

fun slot_step :: "slot_event \<Rightarrow> u32 list \<times> subscriber_counts \<Rightarrow> u32 list \<times> subscriber_counts" where
  "slot_step (Subscribe uid) (held, c) =
     (case try_acquire uid c of (granted, c') \<Rightarrow> (if granted then uid # held else held, c'))"
| "slot_step (Leave i) (held, c) =
     (if i < length held then (drop_nth i held, release_slot (held ! i) c) else (held, c))"

lemma slot_count_upd [simp]: "slot_count (am_upd u n m) v = (if v = u then n else slot_count m v)"
  by (simp add: slot_count_def)

lemma slot_count_del [simp]: "slot_count (am_del u m) v = (if v = u then 0 else slot_count m v)"
  by (simp add: slot_count_def)

lemma length_drop_nth: "i < length xs \<Longrightarrow> length xs = Suc (length (drop_nth i xs))"
  by (simp add: drop_nth_def)

lemma count_list_drop_nth: "i < length xs \<Longrightarrow> count_list xs u = count_list (drop_nth i xs) u + (if xs ! i = u then 1 else 0)"
proof -
  assume "i < length xs"
  then have "xs = take i xs @ xs ! i # drop (Suc i) xs" by (rule id_take_nth_drop)
  then have "count_list xs u = count_list (take i xs @ xs ! i # drop (Suc i) xs) u" by simp
  then show ?thesis by (simp add: drop_nth_def)
qed

lemma slots_ok_acquire:
  assumes "slots_ok held c" and "try_acquire uid c = (granted, c')"
  shows "slots_ok (if granted then uid # held else held) c'
    \<and> (granted \<longleftrightarrow> length held < MAX_WARN_SUBSCRIBERS_TOTAL \<and> count_list held uid < MAX_WARN_SUBSCRIBERS_PER_UID)"
  using assms by (auto simp: slots_ok_def try_acquire_def Let_def split: if_splits)

lemma slots_ok_release:
  assumes "slots_ok held c" and "i < length held"
  shows "slots_ok (drop_nth i held) (release_slot (held ! i) c)"
proof -
  obtain u rest where u: "held ! i = u" "drop_nth i held = rest" by blast
  note len = length_drop_nth [OF assms(2), unfolded u] and cnt = count_list_drop_nth [OF assms(2), unfolded u]
  have "slot_count (sc_per_uid c) u \<noteq> 0" using assms(1) cnt [of u] by (simp add: slots_ok_def)
  then obtain n where n: "map_of (sc_per_uid c) u = Some n" by (auto simp: slot_count_def split: option.splits)
  then have "slot_count (sc_per_uid c) u = n" by (simp add: slot_count_def)
  then have "count_list held u = n" using assms(1) by (simp add: slots_ok_def)
  with cnt [of u] have nr: "count_list rest u = n - 1" by simp
  have le: "count_list rest v \<le> MAX_WARN_SUBSCRIBERS_PER_UID" for v
    using assms(1) cnt [of v] by (metis slots_ok_def le_add1 le_trans)
  have other: "v \<noteq> u \<Longrightarrow> slot_count (sc_per_uid c) v = count_list rest v" for v
    using assms(1) cnt [of v] by (simp add: slots_ok_def)
  show ?thesis
    unfolding u using assms(1) len nr n le other by (auto simp: slots_ok_def release_slot_def Let_def)
qed

lemma slots_ok_step: "slots_ok (fst st) (snd st) \<Longrightarrow> slots_ok (fst (slot_step e st)) (snd (slot_step e st))"
proof (induction e st rule: slot_step.induct)
  case (1 uid held c)
  then show ?case using slots_ok_acquire [of held c uid] by (cases "try_acquire uid c") auto
qed (auto intro: slots_ok_release)

text \<open>
  The subscriber slots bound what they should. After any sequence of subscriptions and departures, in any
  order, the counters are exact: at most 16 subscriptions are open, at most 4 of one user, every departure
  gives its slot back, and the next request is granted exactly when neither limit is reached. No user can use up the
  slots of all, and a full house empties again.
\<close>

theorem subscriber_slots_exact:
  assumes "fold slot_step es ([], subscriber_slots_new) = (held, c)"
  shows "length held \<le> 16 \<and> (\<forall>u. count_list held u \<le> 4)
    \<and> sc_total c = length held \<and> (\<forall>u. slot_count (sc_per_uid c) u = count_list held u)
    \<and> (fst (try_acquire uid c) \<longleftrightarrow> length held < 16 \<and> count_list held uid < 4)"
proof -
  have "slots_ok (fst (fold slot_step es st)) (snd (fold slot_step es st))" if "slots_ok (fst st) (snd st)" for st
    using that
  proof (induction es arbitrary: st)
    case (Cons e es)
    from Cons.IH [OF slots_ok_step [OF Cons.prems]] show ?case by simp
  qed simp
  from this [of "([], subscriber_slots_new)"] assms have ok: "slots_ok held c"
    by (simp add: slots_ok_def subscriber_slots_new_def slot_count_def)
  obtain granted c' where a: "try_acquire uid c = (granted, c')" by (cases "try_acquire uid c")
  from slots_ok_acquire [OF ok a] a ok show ?thesis
    by (auto simp: slots_ok_def MAX_WARN_SUBSCRIBERS_TOTAL_def MAX_WARN_SUBSCRIBERS_PER_UID_def)
qed

theorem subscriber_slots_exact_witness:
  "fst (try_acquire 7 (snd (fold slot_step [Subscribe 7, Subscribe 7, Subscribe 7, Subscribe 7] ([], subscriber_slots_new)))) = False
   \<and> fst (try_acquire 8 (snd (fold slot_step [Subscribe 7, Subscribe 7, Subscribe 7, Subscribe 7] ([], subscriber_slots_new)))) = True
   \<and> fst (try_acquire 7 (snd (fold slot_step [Subscribe 7, Subscribe 7, Subscribe 7, Subscribe 7, Leave 2] ([], subscriber_slots_new)))) = True"
proof -
  let ?st = "fold slot_step [Subscribe 7, Subscribe 7, Subscribe 7, Subscribe 7] ([], subscriber_slots_new)"
  let ?st2 = "fold slot_step [Subscribe 7, Subscribe 7, Subscribe 7, Subscribe 7, Leave 2] ([], subscriber_slots_new)"
  have "fst ?st = [7, 7, 7, 7]" "fst ?st2 = [7, 7, 7]"
    by (simp_all add: try_acquire_def subscriber_slots_new_def slot_count_def drop_nth_def
        MAX_WARN_SUBSCRIBERS_TOTAL_def MAX_WARN_SUBSCRIBERS_PER_UID_def Let_def)
  with subscriber_slots_exact [OF prod.collapse [symmetric], of "[Subscribe 7, Subscribe 7, Subscribe 7, Subscribe 7]" 7]
    subscriber_slots_exact [OF prod.collapse [symmetric], of "[Subscribe 7, Subscribe 7, Subscribe 7, Subscribe 7]" 8]
    subscriber_slots_exact [OF prod.collapse [symmetric], of "[Subscribe 7, Subscribe 7, Subscribe 7, Subscribe 7, Leave 2]" 7]
  show ?thesis by (simp del: fold.simps slot_step.simps)
qed

section \<open>A server for concrete runs\<close>

abbreviation demo_posture :: guard_posture where
  "demo_posture \<equiv> \<lparr>gp_profile = ''session'', gp_ebpf = ''attached'', gp_enforcement = ''block'', gp_atoms_version = [],
     gp_deny_path = 0, gp_deny_basename = 0, gp_features = []\<rparr>"

abbreviation demo_server :: server where
  "demo_server \<equiv> server_new demo_classifier demo_bpf (Some (Attached BlockMode)) None
     (fst (trust_store_new (calm_env (\<lambda>_. None)) [''d'', ''users''] demo_world)) demo_world broadcast_new demo_posture
     (profile_to_u8 Session) False [] []"

abbreviation demo_env :: server_env where
  "demo_env \<equiv> \<lparr>se_os = calm_env (\<lambda>_. None), se_alnum = \<lambda>_. False, se_proc = files_of demo_procs, se_lower = \<lambda>s. s,
     se_post = \<lambda>_ _. Inl LFeatureNotBuilt, se_instant = \<lambda>n. n, se_now_ms = 0, se_osv_others = \<lambda>_ c. c,
     se_threat_others = \<lambda>t. t, se_session_others = \<lambda>_ t. t, se_decode_drift = \<lambda>_. None, se_version = ''0''\<rparr>"

lemma demo_classifier_total: "utf8_valid cmd \<Longrightarrow> \<exists>r. classify demo_classifier cmd = Some r"
  using classify_all_total [OF demo_tier1_ok, of cmd] by (auto simp: classify_def consult_tier2_def stub_backend_def)

lemma server_new_simps [simp]:
  "sv_classifier (server_new c k e o' ts w bc p prof us bins names) = c"
  "sv_osv (server_new c k e o' ts w bc p prof us bins names) = o'"
  "sv_trust (server_new c k e o' ts w bc p prof us bins names) = ts"
  "sv_world (server_new c k e o' ts w bc p prof us bins names) = w"
  "sv_ebpf (server_new c k e o' ts w bc p prof us bins names) = e"
  "tm_reads (sv_threat (server_new c k e o' ts w bc p prof us bins names)) = 0"
  "tm_inner (sv_threat (server_new c k e o' ts w bc p prof us bins names)) = Map.empty"
  by (simp_all add: server_new_def with_ebpf_def threat_map_new_def Let_def split: option.splits)

end
