(* ===== verification/Server_Classify.thy ===== *)
theory Server_Classify
  imports Server_State
begin

text \<open>
  The classify handler (\<open>server.rs\<close>): the classifier's verdict, raised by the user's atoms, by the vulnerability
  lookup and by the threat level of the caller's process, and bounded for the wire. A panic of the classifier
  is \<open>None\<close>.
\<close>

definition MAX_FIELD_BYTES :: nat where "MAX_FIELD_BYTES = 256"
definition OSV_MAX_PKGS_PER_CMD :: nat where "OSV_MAX_PKGS_PER_CMD = 8"

definition osv_probe_pkgs :: "string \<Rightarrow> (string list \<times> nat) option" where
  "osv_probe_pkgs command =
     map_option (\<lambda>pkgs. (if OSV_MAX_PKGS_PER_CMD < length pkgs then take OSV_MAX_PKGS_PER_CMD pkgs else pkgs, length pkgs))
       (extract_npm_install_pkgs command)"

text \<open>The first atom found, with the name of its scope.\<close>

definition overlay_hit :: "string list \<Rightarrow> string list \<Rightarrow> string list \<Rightarrow> string \<Rightarrow> (string \<times> string) option" where
  "overlay_hit fetched persistent session command =
     (case find (\<lambda>a. str_contains a command) fetched of
        Some a \<Rightarrow> Some (''system-fetched'', a)
      | None \<Rightarrow>
          (case find (\<lambda>a. str_contains a command) persistent of
             Some a \<Rightarrow> Some (''user-persistent'', a)
           | None \<Rightarrow>
               (case find (\<lambda>a. str_contains a command) session of
                  Some a \<Rightarrow> Some (''user-session'', a)
                | None \<Rightarrow> None)))"

definition overlay_result :: "string \<times> string \<Rightarrow> classify_result" where
  "overlay_result hit = (case hit of (scope, atom) \<Rightarrow>
     \<lparr>verdict = Warn, category = NoCategory, confidence = f32_lit (6 / 10),
      reason = scope @ '' atom matched: `'' @ atom @ ''`'', matched = atom\<rparr>)"

definition with_overlay :: "server_env \<Rightarrow> peer_cred \<Rightarrow> string \<Rightarrow> classify_result \<Rightarrow> classify_result served" where
  "with_overlay env peer command r s =
     (if verdict r \<noteq> Safe then (r, s)
      else let s = load_user env (peer_uid peer) s;
               s = load_fetched env s;
               ts = sv_trust s;
               hit = overlay_hit (list_system_fetched ts) (list_atoms ts (peer_uid peer) Persistent)
                       (list_atoms ts (peer_uid peer) SessionList) command
           in (case hit of Some h \<Rightarrow> overlay_result h | None \<Rightarrow> r, s))"

fun probe_loop :: "server_env \<Rightarrow> nat \<Rightarrow> string list \<Rightarrow> classify_result \<Rightarrow> osv_client \<Rightarrow> classify_result \<times> osv_client" where
  "probe_loop env k [] r c = (r, c)"
| "probe_loop env k (pkg # pkgs) r c =
     (case lookup_npm (se_lower env) (se_post env) (se_osv_others env k)
             (se_instant env (3 * k)) (se_instant env (3 * k + 1)) (se_instant env (3 * k + 2)) pkg c of
        (Inl e, c) \<Rightarrow> probe_loop env (k + 1) pkgs r c
      | (Inr v, c) \<Rightarrow>
          (case osv_verdict_to_result v pkg of
             None \<Rightarrow> probe_loop env (k + 1) pkgs r c
           | Some r' \<Rightarrow>
               let r = (if verdict_strictly_worse (verdict r) (verdict r') then r' else r)
               in if verdict r = Block then (r, c) else probe_loop env (k + 1) pkgs r c))"

definition with_osv :: "server_env \<Rightarrow> string \<Rightarrow> classify_result \<Rightarrow> server \<Rightarrow> (classify_result \<times> server) option" where
  "with_osv env command r s =
     (if verdict r \<noteq> Safe then Some (r, s)
      else case sv_osv s of
             None \<Rightarrow> Some (r, s)
           | Some c \<Rightarrow>
               map_option (\<lambda>(pkgs, total_pkgs). case probe_loop env 0 pkgs r c of (r, c) \<Rightarrow> (r, s\<lparr>sv_osv := Some c\<rparr>))
                 (osv_probe_pkgs command))"

definition threat_candidate :: "ThreatLevel \<Rightarrow> string \<Rightarrow> classify_result" where
  "threat_candidate level command =
     \<lparr>verdict = (if level = Critical then Block else Warn), category = PidHighThreat, confidence = f32_lit 1,
      reason = ''this PID's process tree was marked high-risk by an earlier command'', matched = command\<rparr>"

definition with_threat_level ::
    "server_env \<Rightarrow> peer_cred \<Rightarrow> string \<Rightarrow> classify_context \<Rightarrow> classify_result \<Rightarrow> classify_result served" where
  "with_threat_level env peer command ctx r s =
     (case ctx_pid ctx of
        None \<Rightarrow> (r, s)
      | Some pid \<Rightarrow>
          (case on_threat (caller_owns_pid env peer pid) s of
             (False, s) \<Rightarrow> (r, s)
           | (True, s) \<Rightarrow>
               (case on_threat (get_level (se_proc env) (se_threat_others env) pid) s of
                  (level, s) \<Rightarrow>
                    (if level = High \<or> level = Critical
                     then let cand = threat_candidate level command
                          in if verdict_strictly_worse (verdict r) (verdict cand) then cand else r
                     else r, s))))"

definition bounded_result :: "classify_result \<Rightarrow> classify_result" where
  "bounded_result r =
     r\<lparr>reason := truncate_to_bytes (reason r) MAX_FIELD_BYTES, matched := truncate_to_bytes (matched r) MAX_FIELD_BYTES\<rparr>"

definition handle_classify ::
    "server_env \<Rightarrow> peer_cred \<Rightarrow> string \<Rightarrow> classify_context \<Rightarrow> server \<Rightarrow> (response \<times> server) option" where
  "handle_classify env peer command ctx s =
     (case classify (sv_classifier s) command of
        None \<Rightarrow> None
      | Some r \<Rightarrow>
          (case with_overlay env peer command r s of (r, s) \<Rightarrow>
           (case with_osv env command r s of
              None \<Rightarrow> None
            | Some (r, s) \<Rightarrow>
                (case with_threat_level env peer command ctx r s of
                   (r, s) \<Rightarrow> Some (RClassify (bounded_result r), s)))))"

section \<open>The worst signal wins\<close>

text \<open>What the lookups of all packages say, as if none was skipped.\<close>

fun probe_trace :: "server_env \<Rightarrow> nat \<Rightarrow> string list \<Rightarrow> osv_client \<Rightarrow> Verdict list" where
  "probe_trace env k [] c = []"
| "probe_trace env k (pkg # pkgs) c =
     (case lookup_npm (se_lower env) (se_post env) (se_osv_others env k)
             (se_instant env (3 * k)) (se_instant env (3 * k + 1)) (se_instant env (3 * k + 2)) pkg c of
        (res, c) \<Rightarrow>
          (case res of
             Inl e \<Rightarrow> Safe
           | Inr v \<Rightarrow> (case osv_verdict_to_result v pkg of None \<Rightarrow> Safe | Some r \<Rightarrow> verdict r))
          # probe_trace env (k + 1) pkgs c)"

text \<open>Stopping at the first \<open>Block\<close> loses nothing: the loop computes the worst of all lookups.\<close>

lemma fold_max_ge: "(v::Verdict) \<le> fold max vs v"
  by (induction vs arbitrary: v) (auto intro: order_trans max.cobounded2)

lemma fold_max_mem: "x \<in> set vs \<Longrightarrow> (x::Verdict) \<le> fold max vs v"
  by (induction vs arbitrary: v) (auto intro: order_trans [OF max.cobounded1 fold_max_ge])

lemma fold_max_Block [simp]: "fold max vs Block = Block"
  using fold_max_ge [of Block vs] by (metis Block_greatest antisym)

lemma verdict_if_worse: "verdict (if verdict r < verdict r' then r' else r) = max (verdict r') (verdict r)"
  by (auto simp: max_def)

lemma probe_loop_worst: "verdict (fst (probe_loop env k pkgs r c)) = fold max (probe_trace env k pkgs c) (verdict r)"
proof (induction pkgs arbitrary: k r c)
  case (Cons pkg pkgs)
  obtain res c1 where l: "lookup_npm (se_lower env) (se_post env) (se_osv_others env k)
      (se_instant env (3 * k)) (se_instant env (3 * k + 1)) (se_instant env (3 * k + 2)) pkg c = (res, c1)"
    by fastforce
  have safe: "max Safe v = v" for v by (simp add: max_def)
  show ?case
  proof (cases res)
    case (Inr v)
    show ?thesis
    proof (cases "osv_verdict_to_result v pkg")
      case (Some r')
      let ?m = "if verdict r < verdict r' then r' else r"
      have m: "verdict ?m = max (verdict r') (verdict r)" by (rule verdict_if_worse)
      show ?thesis
      proof (cases "verdict ?m = Block")
        case True
        with m l Inr Some show ?thesis by (simp add: Let_def)
      next
        case False
        have "probe_loop env k (pkg # pkgs) r c = probe_loop env (k + 1) pkgs ?m c1"
          using False l Inr Some by (simp add: Let_def)
        then show ?thesis using Cons.IH [of "k + 1" ?m c1] m l Inr Some by simp
      qed
    qed (use l Inr Cons.IH safe in simp)
  qed (use l Cons.IH safe in simp)
qed simp

lemma find_hit: "find P xs = Some x \<Longrightarrow> x \<in> set xs \<and> P x"
  by (induction xs) (auto split: if_splits)

lemma overlay_hit_None:
  "overlay_hit fetched persistent session command = None
   \<longleftrightarrow> (\<forall>a\<in>set fetched \<union> set persistent \<union> set session. \<not> str_contains a command)"
  unfolding overlay_hit_def by (fastforce simp: find_None_iff dest: find_hit split: option.splits)

definition loaded :: "server_env \<Rightarrow> peer_cred \<Rightarrow> server \<Rightarrow> server" where
  "loaded env peer s = load_fetched env (load_user env (peer_uid peer) s)"

definition caller_atoms :: "server_env \<Rightarrow> peer_cred \<Rightarrow> server \<Rightarrow> string set" where
  "caller_atoms env peer s =
     (let ts = sv_trust (loaded env peer s)
      in set (list_system_fetched ts) \<union> set (list_atoms ts (peer_uid peer) Persistent)
         \<union> set (list_atoms ts (peer_uid peer) SessionList))"

lemma sv_threat_loaded [simp]: "sv_threat (load_fetched env (load_user env uid s)) = sv_threat s"
  by (simp add: load_fetched_def load_user_def on_trust_def split: prod.splits)

lemma sv_osv_loaded [simp]: "sv_osv (load_fetched env (load_user env uid s)) = sv_osv s"
  by (simp add: load_fetched_def load_user_def on_trust_def split: prod.splits)

lemma with_overlay_cases:
  assumes "with_overlay env peer command r s = (r1, s1)"
  shows "sv_threat s1 = sv_threat s \<and> sv_osv s1 = sv_osv s \<and> verdict r \<le> verdict r1
    \<and> (verdict r \<noteq> Safe \<longrightarrow> r1 = r)
    \<and> (verdict r = Safe \<longrightarrow> (\<forall>a\<in>caller_atoms env peer s. \<not> str_contains a command) \<longrightarrow> r1 = r)
    \<and> (verdict r = Safe \<longrightarrow> (\<exists>a\<in>caller_atoms env peer s. str_contains a command) \<longrightarrow> verdict r1 = Warn)"
proof (cases "verdict r = Safe")
  case True
  let ?ts = "sv_trust (load_fetched env (load_user env (peer_uid peer) s))"
  let ?hit = "overlay_hit (list_system_fetched ?ts) (list_atoms ?ts (peer_uid peer) Persistent)
      (list_atoms ?ts (peer_uid peer) SessionList) command"
  have none: "?hit = None \<longleftrightarrow> (\<forall>a\<in>caller_atoms env peer s. \<not> str_contains a command)"
    by (simp add: overlay_hit_None caller_atoms_def loaded_def Let_def)
  have "r1 = (case ?hit of Some h \<Rightarrow> overlay_result h | None \<Rightarrow> r)"
    "s1 = load_fetched env (load_user env (peer_uid peer) s)"
    using assms True by (auto simp: with_overlay_def Let_def)
  then show ?thesis using none True
    by (cases ?hit) (auto simp: overlay_result_def split: prod.splits)
qed (use assms in \<open>simp add: with_overlay_def\<close>)

lemma with_osv_cases:
  assumes "with_osv env command r s = Some (r1, s1)"
  shows "sv_threat s1 = sv_threat s \<and> verdict r \<le> verdict r1
    \<and> (\<forall>c pkgs n. verdict r = Safe \<longrightarrow> sv_osv s = Some c \<longrightarrow> osv_probe_pkgs command = Some (pkgs, n)
         \<longrightarrow> verdict r1 = fold max (probe_trace env 0 pkgs c) Safe)"
proof (cases "verdict r = Safe \<and> sv_osv s \<noteq> None")
  case True
  then obtain c where c: "sv_osv s = Some c" by blast
  with True assms obtain pkgs n where p: "osv_probe_pkgs command = Some (pkgs, n)"
    by (auto simp: with_osv_def)
  have w: "with_osv env command r s = Some (case probe_loop env 0 pkgs r c of (r, c) \<Rightarrow> (r, s\<lparr>sv_osv := Some c\<rparr>))"
    using True c p by (simp add: with_osv_def)
  obtain r2 c2 where l: "probe_loop env 0 pkgs r c = (r2, c2)" by fastforce
  from assms w l have "r1 = r2" "s1 = s\<lparr>sv_osv := Some c2\<rparr>" by simp_all
  with probe_loop_worst [of env 0 pkgs r c] l True c p show ?thesis by simp
qed (use assms in \<open>auto simp: with_osv_def split: option.splits if_splits\<close>)

lemma with_threat_level_cases:
  assumes "with_threat_level env peer command ctx r s = (r1, s1)"
  shows "verdict r \<le> verdict r1"
  using assms
  by (auto simp: with_threat_level_def threat_candidate_def Let_def split: option.splits prod.splits bool.splits if_splits)

text \<open>The two reads the handler makes for the process of the caller.\<close>

definition caller_process :: "server_env \<Rightarrow> peer_cred \<Rightarrow> server \<Rightarrow> u32 \<Rightarrow> u64 \<Rightarrow> bool" where
  "caller_process env peer s pid start \<longleftrightarrow>
     (let n = tm_reads (sv_threat s)
      in if peer_root peer then pid_starttime (se_proc env) n pid = Found start
         else pid_owner_uid (se_proc env) n pid = Owner (peer_uid peer)
           \<and> pid_starttime (se_proc env) (n + 1) pid = Found start)"

lemma with_threat_level_marked:
  assumes "ctx_pid ctx = Some pid" and "tm_inner (sv_threat s) pid = Some (level, start)" and "level \<noteq> Low"
    and "caller_process env peer s pid start"
  shows "(if level = Critical then Block else Warn) \<le> verdict (fst (with_threat_level env peer command ctx r s))"
proof -
  have "level = High \<or> level = Critical" using assms(3) by (cases level) auto
  with assms show ?thesis
    by (auto simp: with_threat_level_def on_threat_def caller_owns_pid_def caller_process_def read_owner_def
        get_level_def read_starttime_def threat_candidate_def Let_def split: if_splits)
qed

lemma with_threat_level_foreign:
  assumes "ctx_pid ctx = Some pid" and "\<not> peer_root peer"
    and "pid_owner_uid (se_proc env) (tm_reads (sv_threat s)) pid \<noteq> Owner (peer_uid peer)"
  shows "fst (with_threat_level env peer command ctx r s) = r"
  using assms by (simp add: with_threat_level_def on_threat_def caller_owns_pid_def read_owner_def)

lemma handle_classify_steps:
  assumes "handle_classify env peer command ctx s = Some (resp, s')" and "classify (sv_classifier s) command = Some r"
  obtains r1 s1 r2 s2 r3 where "with_overlay env peer command r s = (r1, s1)" and "with_osv env command r1 s1 = Some (r2, s2)"
    and "with_threat_level env peer command ctx r2 s2 = (r3, s')" and "resp = RClassify (bounded_result r3)"
    and "sv_threat s2 = sv_threat s" and "sv_osv s1 = sv_osv s"
proof -
  obtain r1 s1 where o: "with_overlay env peer command r s = (r1, s1)" by fastforce
  from assms o obtain r2 s2 where v: "with_osv env command r1 s1 = Some (r2, s2)"
    by (auto simp: handle_classify_def split: option.splits)
  obtain r3 s3 where t: "with_threat_level env peer command ctx r2 s2 = (r3, s3)" by fastforce
  with assms o v have "resp = RClassify (bounded_result r3)" "s' = s3" by (simp_all add: handle_classify_def)
  with that o v t with_overlay_cases [OF o] with_osv_cases [OF v] show ?thesis by simp
qed

lemma verdict_bounded [simp]: "verdict (bounded_result r) = verdict r"
  by (simp add: bounded_result_def)

text \<open>
  C5. The answer to classify is the worst of all signals. Every answered verdict is at least the classifier's; an
  atom of the caller or of the fetched corpus that occurs in the command makes it at least \<open>Warn\<close>; for a
  command with no such signal, every one of the probed packages counts, and the first \<open>Block\<close> does not hide
  anything worse; and a mark on a process of the caller makes it at least \<open>Warn\<close>, \<open>Block\<close> for a critical one.
  A number that does not belong to the caller changes nothing in the answer, so that classifying reveals no mark of
  another user's process.
\<close>

theorem classify_worst_signal:
  assumes "handle_classify env peer command ctx s = Some (resp, s')" and "classify (sv_classifier s) command = Some r"
  shows "\<exists>r'. resp = RClassify r' \<and> verdict r \<le> verdict r'
    \<and> ((\<exists>a\<in>caller_atoms env peer s. str_contains a command) \<longrightarrow> Warn \<le> verdict r')
    \<and> (\<forall>c pkgs n. verdict r = Safe \<longrightarrow> (\<forall>a\<in>caller_atoms env peer s. \<not> str_contains a command)
         \<longrightarrow> sv_osv s = Some c \<longrightarrow> osv_probe_pkgs command = Some (pkgs, n)
         \<longrightarrow> (\<forall>v\<in>set (probe_trace env 0 pkgs c). v \<le> verdict r'))
    \<and> (\<forall>pid level start. ctx_pid ctx = Some pid \<longrightarrow> tm_inner (sv_threat s) pid = Some (level, start) \<longrightarrow> level \<noteq> Low
         \<longrightarrow> caller_process env peer s pid start \<longrightarrow> (if level = Critical then Block else Warn) \<le> verdict r')
    \<and> (\<forall>pid. ctx_pid ctx = Some pid \<longrightarrow> \<not> peer_root peer
         \<longrightarrow> pid_owner_uid (se_proc env) (tm_reads (sv_threat s)) pid \<noteq> Owner (peer_uid peer)
         \<longrightarrow> map_option fst (handle_classify env peer command (ctx\<lparr>ctx_pid := None\<rparr>) s) = Some resp)"
proof -
  obtain r1 s1 r2 s2 r3 where o: "with_overlay env peer command r s = (r1, s1)"
    and v: "with_osv env command r1 s1 = Some (r2, s2)" and t: "with_threat_level env peer command ctx r2 s2 = (r3, s')"
    and resp: "resp = RClassify (bounded_result r3)" and st: "sv_threat s2 = sv_threat s" and so: "sv_osv s1 = sv_osv s"
    using handle_classify_steps [OF assms] by metis
  note oc = with_overlay_cases [OF o] and vc = with_osv_cases [OF v] and tc = with_threat_level_cases [OF t]
  have le: "verdict r1 \<le> verdict r3" "verdict r \<le> verdict r3" using oc vc tc by (meson order_trans)+
  have warn: "x \<noteq> Safe \<Longrightarrow> Warn \<le> x" for x by (cases x) (simp_all add: less_eq_Verdict_def)
  have atom: "Warn \<le> verdict r3" if "\<exists>a\<in>caller_atoms env peer s. str_contains a command"
    using oc le that warn by (metis order_trans)
  have osv: "\<forall>v\<in>set (probe_trace env 0 pkgs c). v \<le> verdict r3"
    if "verdict r = Safe" "\<forall>a\<in>caller_atoms env peer s. \<not> str_contains a command" "sv_osv s = Some c"
      "osv_probe_pkgs command = Some (pkgs, n)" for c pkgs n
  proof -
    from that oc vc so have "verdict r2 = fold max (probe_trace env 0 pkgs c) Safe" by metis
    with tc show ?thesis using fold_max_mem order_trans by metis
  qed
  have mark: "(if level = Critical then Block else Warn) \<le> verdict r3"
    if "ctx_pid ctx = Some pid" "tm_inner (sv_threat s) pid = Some (level, start)" "level \<noteq> Low"
      "caller_process env peer s pid start" for pid level start
    using with_threat_level_marked [of ctx pid s2 level start env peer command r2] that st t
    by (simp add: caller_process_def)
  have foreign: "map_option fst (handle_classify env peer command (ctx\<lparr>ctx_pid := None\<rparr>) s) = Some resp"
    if "ctx_pid ctx = Some pid" "\<not> peer_root peer"
      "pid_owner_uid (se_proc env) (tm_reads (sv_threat s)) pid \<noteq> Owner (peer_uid peer)" for pid
    using with_threat_level_foreign [of ctx pid peer env s2 command r2] that st t resp o v assms(2)
    by (simp add: handle_classify_def with_threat_level_def)
  show ?thesis using resp le atom osv mark foreign by (intro exI [of _ "bounded_result r3"]) simp
qed

lemma probe_first_eight:
  assumes "utf8_valid command"
  obtains pkgs where "extract_npm_install_pkgs command = Some pkgs" and "osv_probe_pkgs command = Some (take 8 pkgs, length pkgs)"
  using extract_total [OF assms] that by (auto simp: osv_probe_pkgs_def OSV_MAX_PKGS_PER_CMD_def)

lemma classify_total:
  assumes "utf8_valid command" and "classify (sv_classifier s) command = Some r"
  shows "\<exists>r' s'. handle_classify env peer command ctx s = Some (RClassify (bounded_result r'), s')"
proof -
  obtain pkgs where p: "osv_probe_pkgs command = Some (take 8 pkgs, length pkgs)" using probe_first_eight [OF assms(1)] by metis
  obtain r1 s1 where o: "with_overlay env peer command r s = (r1, s1)" by fastforce
  have "with_osv env command r1 s1 \<noteq> None" using p by (simp add: with_osv_def split: option.splits)
  then obtain r2 s2 where v: "with_osv env command r1 s1 = Some (r2, s2)" by fastforce
  obtain r3 s3 where t: "with_threat_level env peer command ctx r2 s2 = (r3, s3)" by fastforce
  have "handle_classify env peer command ctx s = Some (RClassify (bounded_result r3), s3)"
    using assms(2) o v t by (simp add: handle_classify_def)
  then show ?thesis by blast
qed

text \<open>
  C29. The answer is bounded and the handler adds no panic. On well-formed text it is answered whenever the
  classifier answers; the two texts of the answer are at most 256 bytes, cut between characters and by less than
  one character more than needed; and at most eight packages are looked up, the first ones.
\<close>

theorem classify_bounded:
  assumes "utf8_valid command" and "classify (sv_classifier s) command = Some r"
  shows "\<exists>r' s'. handle_classify env peer command ctx s = Some (RClassify (bounded_result r'), s')
    \<and> length (reason (bounded_result r')) \<le> 256 \<and> length (matched (bounded_result r')) \<le> 256
    \<and> (utf8_valid (reason r') \<longrightarrow> utf8_valid (reason (bounded_result r')))
    \<and> (utf8_valid (matched r') \<longrightarrow> utf8_valid (matched (bounded_result r')))
    \<and> (\<exists>pkgs probed. extract_npm_install_pkgs command = Some pkgs
        \<and> osv_probe_pkgs command = Some (probed, length pkgs) \<and> probed = take 8 pkgs)"
proof -
  obtain pkgs where "extract_npm_install_pkgs command = Some pkgs" "osv_probe_pkgs command = Some (take 8 pkgs, length pkgs)"
    using probe_first_eight [OF assms(1)] by metis
  with classify_total [OF assms, of env peer ctx] show ?thesis
    using truncate_to_bytes_length [of _ 256] truncate_to_bytes_valid by (auto simp: bounded_result_def MAX_FIELD_BYTES_def)
qed

theorem classify_worst_signal_witness:
  "\<exists>r' s'. handle_classify demo_env \<lparr>peer_uid = 1000, peer_root = False\<rparr> ''ls'' \<lparr>ctx_pid = Some 7, ctx_shell = None, ctx_incognito = False\<rparr>
      (demo_server\<lparr>sv_threat := (sv_threat demo_server)\<lparr>tm_inner := [7 \<mapsto> (Critical, 100)]\<rparr>\<rparr>) = Some (RClassify r', s')
    \<and> verdict r' = Block"
proof -
  let ?p = "\<lparr>peer_uid = 1000, peer_root = False\<rparr>" and ?ctx = "\<lparr>ctx_pid = Some 7, ctx_shell = None, ctx_incognito = False\<rparr>"
  let ?s = "demo_server\<lparr>sv_threat := (sv_threat demo_server)\<lparr>tm_inner := [7 \<mapsto> (Critical, 100)]\<rparr>\<rparr>"
  have u: "utf8_valid ''ls''" by (rule ascii_valid) (simp add: ascii_def)
  from demo_classifier_total [OF u] obtain r where r: "classify (sv_classifier ?s) ''ls'' = Some r" by auto
  from classify_bounded [OF u r] obtain r' s' where h: "handle_classify demo_env ?p ''ls'' ?ctx ?s = Some (RClassify r', s')"
    by blast
  have own: "caller_process demo_env ?p ?s 7 100" by (simp add: caller_process_def files_of_start files_of_owner)
  from classify_worst_signal [OF h r] own have "Block \<le> verdict r'" by fastforce
  then have "verdict r' = Block" by (cases "verdict r'") (simp_all add: less_eq_Verdict_def)
  with h show ?thesis by blast
qed

theorem classify_bounded_witness:
  "\<exists>r' s'. handle_classify demo_env \<lparr>peer_uid = 1000, peer_root = False\<rparr> ''ls'' \<lparr>ctx_pid = None, ctx_shell = None, ctx_incognito = False\<rparr> demo_server
     = Some (RClassify (bounded_result r'), s') \<and> length (reason (bounded_result r')) \<le> 256"
proof -
  have u: "utf8_valid ''ls''" by (rule ascii_valid) (simp add: ascii_def)
  from demo_classifier_total [OF u] obtain r where r: "classify (sv_classifier demo_server) ''ls'' = Some r" by auto
  from classify_bounded [OF u r] show ?thesis by blast
qed

end
