(* ===== verification/Server_Threat.thy ===== *)
theory Server_Threat
  imports Server_State
begin

text \<open>
  The handlers on threat levels and watches, and the gate on subscriptions (\<open>server.rs\<close>). Every read of \<open>/proc\<close>
  takes the next index, so a process may end and its number be reused between any two of them.
\<close>

definition handle_set_watch :: "server_env \<Rightarrow> peer_cred \<Rightarrow> u32 \<Rightarrow> response served" where
  "handle_set_watch env peer pid s =
     (let watch = (\<lambda>s. case on_threat (set_watch pid) s of
                         (True, s) \<Rightarrow> (ROk, s) | (False, s) \<Rightarrow> (RError (MWatchFailed pid), s))
      in if peer_root peer then watch s
         else case on_threat (owned_start env peer pid) s of
                (Inl m, s) \<Rightarrow> (RError m, s)
              | (Inr start1, s) \<Rightarrow>
                  (case on_threat (read_starttime (se_proc env) pid) s of
                     (again, s) \<Rightarrow> if again = Found start1 then watch s else (RError (MPidRecycled pid), s)))"

definition set_gate :: "server_env \<Rightarrow> peer_cred \<Rightarrow> u32 \<Rightarrow> ThreatLevel \<Rightarrow> threats \<Rightarrow> (message, u64 option) result \<times> threats" where
  "set_gate env peer pid level t =
     (if \<not> peer_root peer \<and> level \<noteq> Low
      then case owned_start env peer pid t of
             (Inl m, t) \<Rightarrow> (Inl m, t)
           | (Inr start1, t) \<Rightarrow>
               (case read_starttime (se_proc env) pid t of
                  (NotFound, t) \<Rightarrow> (Inl (MPidVanished pid), t)
                | (ReadError m, t) \<Rightarrow> (Inl (MProcRead m), t)
                | (Found start2, t) \<Rightarrow>
                    (if start1 \<noteq> start2 then Inl (MPidRecycled pid) else Inr (Some start2), t))
      else if \<not> peer_root peer
      then case read_owner (se_proc env) pid t of
             (Owner u, t) \<Rightarrow> (if u \<noteq> peer_uid peer then Inl (MPidOwned (peer_uid peer) pid u) else Inr None, t)
           | (OwnerError m, t) \<Rightarrow> (Inl (MProcRead m), t)
           | (OwnerNotFound, t) \<Rightarrow> (Inr None, t)
      else (Inr None, t))"

definition handle_set_threat_level :: "server_env \<Rightarrow> peer_cred \<Rightarrow> u32 \<Rightarrow> ThreatLevel \<Rightarrow> response served" where
  "handle_set_threat_level env peer pid level s =
     (case on_threat (set_gate env peer pid level) s of
        (Inl m, s) \<Rightarrow> (RError m, s)
      | (Inr (Some start), s) \<Rightarrow> (ROk, s\<lparr>sv_threat := set_with_starttime pid level start (sv_threat s)\<rparr>)
      | (Inr None, s) \<Rightarrow>
          (case on_threat (set_level (se_proc env) pid level) s of
             (True, s) \<Rightarrow> (ROk, s) | (False, s) \<Rightarrow> (RError (MStatUnreadable pid), s)))"

definition handle_get_threat_level :: "server_env \<Rightarrow> peer_cred \<Rightarrow> u32 \<Rightarrow> response served" where
  "handle_get_threat_level env peer pid s =
     (let answer = (\<lambda>s. case on_threat (get_level (se_proc env) (se_threat_others env) pid) s of
                          (level, s) \<Rightarrow> (RThreatLevel level, s))
      in if peer_root peer then answer s
         else case on_threat (read_owner (se_proc env) pid) s of
                (Owner u, s) \<Rightarrow> if u \<noteq> peer_uid peer then (RError (MPidOwned (peer_uid peer) pid u), s) else answer s
              | (OwnerError m, s) \<Rightarrow> (RError (MProcRead m), s)
              | (OwnerNotFound, s) \<Rightarrow> answer s)"

definition warn_subscribe_denied :: "server_env \<Rightarrow> peer_cred \<Rightarrow> u32 \<Rightarrow> message option served" where
  "warn_subscribe_denied env peer tree_root s =
     (if peer_root peer then (None, s)
      else if tree_root = 0 then (Some MSubscribeAllNeedsRoot, s)
      else case on_threat (owned_start env peer tree_root) s of
             (Inl m, s) \<Rightarrow> (Some m, s)
           | (Inr start1, s) \<Rightarrow>
               (case on_threat (read_starttime (se_proc env) tree_root) s of
                  (Found t, s) \<Rightarrow> (if t = start1 then None else Some (MPidRecycled tree_root), s)
                | (NotFound, s) \<Rightarrow> (Some (MPidVanished tree_root), s)
                | (ReadError m, s) \<Rightarrow> (Some (MProcRead m), s)))"

section \<open>What a passed gate means\<close>

lemma read_starttime_eq: "read_starttime pf pid t = (pid_starttime pf (tm_reads t) pid, t\<lparr>tm_reads := tm_reads t + 1\<rparr>)"
  by (simp add: read_starttime_def)

lemma owned_start_Inr:
  assumes "owned_start env peer pid t = (Inr start, t')"
  shows "pid_starttime (se_proc env) (tm_reads t) pid = Found start
    \<and> pid_owner_uid (se_proc env) (tm_reads t + 1) pid = Owner (peer_uid peer) \<and> t' = t\<lparr>tm_reads := tm_reads t + 2\<rparr>"
  using assms
  by (auto simp: owned_start_def read_starttime_def read_owner_def split: ProcRead.splits OwnerLookup.splits if_splits)

text \<open>A gate only reads.\<close>

definition only_read :: "threats \<Rightarrow> threats \<Rightarrow> bool" where
  "only_read t t' \<longleftrightarrow> tm_inner t' = tm_inner t \<and> tm_ebpf t' = tm_ebpf t \<and> tm_bpf t' = tm_bpf t"

lemma owned_start_frame: "owned_start env peer pid t = (r, t') \<Longrightarrow> only_read t t'"
  unfolding only_read_def
  by (auto simp: owned_start_def read_starttime_def read_owner_def split: ProcRead.splits OwnerLookup.splits if_splits)

text \<open>The three steps together tie the number to one process of the caller.\<close>

lemma sandwich_owned:
  assumes "process_table (se_proc env) procs owner"
    and "owned_start env peer pid t = (Inr start, t')"
    and "pid_starttime (se_proc env) (tm_reads t') pid = Found start"
  shows "owner pid start = peer_uid peer \<and> procs (tm_reads t + 2) pid = Some start"
proof -
  from owned_start_Inr [OF assms(2)] assms(3)
  have "pid_starttime (se_proc env) (tm_reads t) pid = Found start"
    "pid_owner_uid (se_proc env) (tm_reads t + 1) pid = Owner (peer_uid peer)"
    "pid_starttime (se_proc env) (tm_reads t + 2) pid = Found start" by simp_all
  from process_table.sandwich [OF assms(1) this] show ?thesis by simp
qed

lemma set_gate_frame: "set_gate env peer pid level t = (r, t') \<Longrightarrow> only_read t t'"
proof -
  assume g: "set_gate env peer pid level t = (r, t')"
  obtain r1 t1 where o: "owned_start env peer pid t = (r1, t1)" by (cases "owned_start env peer pid t")
  with owned_start_frame [OF o] g show ?thesis
    by (auto simp: set_gate_def only_read_def read_starttime_def read_owner_def
        split: ProcRead.splits OwnerLookup.splits if_splits sum.splits)
qed

lemma set_gate_Some:
  assumes "set_gate env peer pid level t = (Inr (Some start), t')" and "process_table (se_proc env) procs owner"
  shows "\<not> peer_root peer \<and> level \<noteq> Low \<and> owner pid start = peer_uid peer \<and> procs (tm_reads t + 2) pid = Some start"
proof -
  have nr: "\<not> peer_root peer \<and> level \<noteq> Low" using assms(1)
    by (auto simp: set_gate_def split: if_splits OwnerLookup.splits prod.splits)
  obtain r1 t1 where o: "owned_start env peer pid t = (r1, t1)" by (cases "owned_start env peer pid t")
  with nr assms(1) have "r1 = Inr start" "pid_starttime (se_proc env) (tm_reads t1) pid = Found start"
    by (auto simp: set_gate_def read_starttime_def split: sum.splits ProcRead.splits if_splits)
  with sandwich_owned [OF assms(2)] o nr show ?thesis by blast
qed

lemma set_gate_None:
  assumes "set_gate env peer pid level t = (Inr None, t')"
  shows "peer_root peer \<or> (level = Low \<and> (pid_owner_uid (se_proc env) (tm_reads t) pid = Owner (peer_uid peer)
      \<or> pid_owner_uid (se_proc env) (tm_reads t) pid = OwnerNotFound))"
  using assms by (auto simp: set_gate_def read_starttime_def read_owner_def split: if_splits OwnerLookup.splits sum.splits ProcRead.splits prod.splits)

section \<open>Authorization\<close>

lemma tm_inner_write_through [simp]: "tm_inner (write_through pid level t) = tm_inner t"
  by (simp add: write_through_def split: option.splits)

lemma tm_inner_evict: "tm_inner (evict pid t) = (tm_inner t)(pid := None)"
  by (auto simp: evict_def)

lemma tm_inner_mark: "tm_inner (set_with_starttime_inner pid level start t) = (tm_inner t)(pid \<mapsto> (level, start))"
  by (simp add: set_with_starttime_inner_def insert_entry_def)


lemma demo_gate:
  "set_gate demo_env \<lparr>peer_uid = 1000, peer_root = False\<rparr> pid Critical t =
    (case demo_procs pid of
       None \<Rightarrow> (Inl (MPidGone pid), t\<lparr>tm_reads := tm_reads t + 1\<rparr>)
     | Some (st, u) \<Rightarrow> if u \<noteq> 1000 then (Inl (MPidOwned 1000 pid u), t\<lparr>tm_reads := tm_reads t + 2\<rparr>)
                      else (Inr (Some st), t\<lparr>tm_reads := tm_reads t + 3\<rparr>))"
  by (auto simp: set_gate_def owned_start_def read_starttime_def read_owner_def files_of_start files_of_owner
      split: option.splits)




section \<open>Privacy of the levels\<close>

text \<open>
  A level is not shown to other users. To a caller that is not root, a request for a process of another user,
  or of one whose owner cannot be read, is answered with the refusal alone: the answer does not depend on the
  table, and nothing but the count of reads changes.
\<close>

theorem threat_level_private:
  assumes "\<not> peer_root peer"
    and "pid_owner_uid (se_proc env) (tm_reads (sv_threat s)) pid \<noteq> Owner (peer_uid peer)"
    and "pid_owner_uid (se_proc env) (tm_reads (sv_threat s)) pid \<noteq> OwnerNotFound"
  shows "fst (handle_get_threat_level env peer pid s)
      = fst (handle_get_threat_level env peer pid (s\<lparr>sv_threat := (sv_threat s)\<lparr>tm_inner := other_table\<rparr>\<rparr>))
    \<and> (\<exists>m. fst (handle_get_threat_level env peer pid s) = RError m)
    \<and> only_read (sv_threat s) (sv_threat (snd (handle_get_threat_level env peer pid s)))"
  using assms
  by (cases "pid_owner_uid (se_proc env) (tm_reads (sv_threat s)) pid")
     (auto simp: handle_get_threat_level_def on_threat_def read_owner_def only_read_def Let_def)

theorem threat_level_private_witness:
  "fst (handle_get_threat_level demo_env \<lparr>peer_uid = 1000, peer_root = False\<rparr> 8
      (demo_server\<lparr>sv_threat := (sv_threat demo_server)\<lparr>tm_inner := [8 \<mapsto> (Critical, 200)]\<rparr>\<rparr>))
   = fst (handle_get_threat_level demo_env \<lparr>peer_uid = 1000, peer_root = False\<rparr> 8 demo_server)"
  using threat_level_private [of "\<lparr>peer_uid = 1000, peer_root = False\<rparr>" demo_env demo_server 8 "[8 \<mapsto> (Critical, 200)]"]
  by (simp add: files_of_owner)

text \<open>
  The gate of a read is a single look at the owner, not the sandwich of a write. If the process of the caller
  ends and its number goes to a marked process of another user between that look and the reading of the table,
  the caller is told the level of that process.
\<close>

definition recycled_procs :: procfs where
  "recycled_procs =
     \<lparr>stat_file = (\<lambda>t. stat_file (files_of [7 \<mapsto> (if t = 0 then (100, 1000) else (200, 1001))]) t),
      status_file = (\<lambda>t. status_file (files_of [7 \<mapsto> (if t = 0 then (100, 1000) else (200, 1001))]) t),
      cmdline_file = (\<lambda>_ _. Inl ENotFound)\<rparr>"

theorem recycled_pid_reveals_level:
  "fst (handle_get_threat_level (demo_env\<lparr>se_proc := recycled_procs\<rparr>) \<lparr>peer_uid = 1000, peer_root = False\<rparr> 7
      (demo_server\<lparr>sv_threat := (sv_threat demo_server)\<lparr>tm_inner := [7 \<mapsto> (Critical, 200)]\<rparr>\<rparr>)) = RThreatLevel Critical
   \<and> pid_owner_uid recycled_procs 1 7 = Owner 1001"
proof -
  have "pid_starttime recycled_procs t pid = pid_starttime (files_of [7 \<mapsto> (if t = 0 then (100, 1000) else (200, 1001))]) t pid"
    "pid_owner_uid recycled_procs t pid = pid_owner_uid (files_of [7 \<mapsto> (if t = 0 then (100, 1000) else (200, 1001))]) t pid" for t pid
    by (simp_all add: recycled_procs_def pid_starttime_def pid_owner_uid_def)
  then show ?thesis
    by (simp add: handle_get_threat_level_def on_threat_def read_owner_def get_level_def read_starttime_def Let_def
        files_of_start files_of_owner server_new_def with_ebpf_def threat_map_new_def)
qed

end
