(* ===== verification/Server_Profile.thy ===== *)
theory Server_Profile
  imports Server_State
begin

text \<open>
  The handlers on metrics and on the profile (\<open>server.rs\<close>), and the arming of the kernel's deny maps when a switch
  crosses the boundary of the strict profile. The switch lock makes a switch one step.
\<close>

section \<open>Metrics\<close>

definition handle_report_metrics ::
    "server_env \<Rightarrow> peer_cred \<Rightarrow> u32 \<Rightarrow> string \<Rightarrow> string \<Rightarrow> bool \<Rightarrow> metrics_counters \<Rightarrow> response served" where
  "handle_report_metrics env peer pid cwd shell incognito counters s =
     (let cwd = truncate_to_bytes cwd 512;
          shell = truncate_to_bytes shell 32
      in (ROk, s\<lparr>sv_metrics := report (se_now_ms env) (peer_uid peer) pid cwd shell incognito counters (sv_metrics s)\<rparr>))"

definition handle_list_instances :: "server_env \<Rightarrow> peer_cred \<Rightarrow> server \<Rightarrow> response" where
  "handle_list_instances env peer s = RInstances (instances (se_now_ms env) (peer_uid peer) (peer_root peer) (sv_metrics s))"

definition live_profile :: "server \<Rightarrow> SecurityProfile" where
  "live_profile s = profile_from_u8 (sv_profile s)"

definition handle_get_metrics :: "server_env \<Rightarrow> peer_cred \<Rightarrow> server \<Rightarrow> response" where
  "handle_get_metrics env peer s =
     (case aggregate (se_now_ms env) (peer_uid peer) (peer_root peer) (sv_metrics s) of
        (agg, count) \<Rightarrow>
          RMetrics agg ((sv_posture s)\<lparr>gp_profile := profile_as_str (live_profile s),
            gp_deny_path := sv_path_armed s, gp_deny_basename := sv_name_armed s\<rparr>) count)"

definition handle_get_profile :: "server \<Rightarrow> response" where
  "handle_get_profile s = RProfile (live_profile s)"

section \<open>Switching the profile\<close>

definition may_switch_profile :: "bool \<Rightarrow> bool \<Rightarrow> bool" where
  "may_switch_profile is_root allow_user_switch \<longleftrightarrow> is_root \<or> allow_user_switch"

datatype DenyAction = Arm | Clear | NoAction

fun deny_action :: "bool \<Rightarrow> bool \<Rightarrow> DenyAction" where
  "deny_action False True = Arm"
| "deny_action True False = Clear"
| "deny_action _ _ = NoAction"

text \<open>The loops over the lists: the first counts the successes, the second the failures.\<close>

fun arm_all :: "(string \<Rightarrow> unit bop) \<Rightarrow> string list \<Rightarrow> nat \<Rightarrow> bpf \<Rightarrow> nat \<times> bpf" where
  "arm_all op [] n k = (n, k)"
| "arm_all op (p # ps) n k =
     (case op p k of (Inr u, k) \<Rightarrow> arm_all op ps (n + 1) k | (Inl e, k) \<Rightarrow> arm_all op ps n k)"

fun clear_all :: "(string \<Rightarrow> unit bop) \<Rightarrow> string list \<Rightarrow> nat \<Rightarrow> bpf \<Rightarrow> nat \<times> bpf" where
  "clear_all op [] n k = (n, k)"
| "clear_all op (p # ps) n k =
     (case op p k of (Inr u, k) \<Rightarrow> clear_all op ps n k | (Inl e, k) \<Rightarrow> clear_all op ps (n + 1) k)"

definition arm_deny_lists :: "ebpf_state \<Rightarrow> string list \<Rightarrow> string list \<Rightarrow> bpf \<Rightarrow> (nat \<times> nat) \<times> bpf" where
  "arm_deny_lists es bins names k =
     (case arm_all (set_deny_bin es) bins 0 k of (armed_bins, k) \<Rightarrow>
      (case arm_all (set_deny_basename es) names 0 k of (armed_names, k) \<Rightarrow>
       (case set_basename_gate es (0 < armed_names) k of (gate, k) \<Rightarrow>
          ((armed_bins, if is_Ok gate then armed_names else 0), k))))"

definition clear_deny_lists :: "ebpf_state \<Rightarrow> string list \<Rightarrow> string list \<Rightarrow> bpf \<Rightarrow> (nat \<times> nat) \<times> bpf" where
  "clear_deny_lists es bins names k =
     (case clear_all (clear_deny_bin es) bins 0 k of (still_bins, k) \<Rightarrow>
      (case clear_all (clear_deny_basename es) names 0 k of (still_names, k) \<Rightarrow>
       (case set_basename_gate es False k of (gate, k) \<Rightarrow> ((still_bins, still_names), k))))"

definition store_armed :: "(nat \<times> nat) \<times> bpf \<Rightarrow> server \<Rightarrow> server" where
  "store_armed r s = (case r of ((bins, names), k) \<Rightarrow>
     s\<lparr>sv_threat := (sv_threat s)\<lparr>tm_bpf := k\<rparr>, sv_path_armed := word_of_nat bins, sv_name_armed := word_of_nat names\<rparr>)"

definition handle_set_profile :: "peer_cred \<Rightarrow> SecurityProfile \<Rightarrow> response served" where
  "handle_set_profile peer p s =
     (if \<not> may_switch_profile (peer_root peer) (sv_user_switch s) then (RError MProfileGlobal, s)
      else let strict = profile_to_u8 Strict;
               old = sv_profile s;
               s = s\<lparr>sv_profile := profile_to_u8 p\<rparr>;
               k = tm_bpf (sv_threat s)
           in (RProfile p,
               case sv_ebpf s of
                 None \<Rightarrow> s
               | Some es \<Rightarrow>
                   (case deny_action (old = strict) (profile_to_u8 p = strict) of
                      Arm \<Rightarrow> store_armed (arm_deny_lists es (sv_deny_bins s) (sv_deny_names s) k) s
                    | Clear \<Rightarrow> store_armed (clear_deny_lists es (sv_deny_bins s) (sv_deny_names s) k) s
                    | NoAction \<Rightarrow> s)))"

section \<open>The deny maps follow the profile\<close>

lemma strict_u8 [simp]: "profile_to_u8 p = profile_to_u8 Strict \<longleftrightarrow> p = Strict"
  by (cases p) simp_all

lemma profile_back [simp]: "profile_from_u8 (profile_to_u8 p) = p"
  by (cases p) (simp_all add: profile_from_u8_def)

text \<open>The content of a map that holds the keys of a list.\<close>

definition armed_keys :: "(string \<Rightarrow> (ebpf_error, string) result) \<Rightarrow> string list \<Rightarrow> string \<Rightarrow> string option" where
  "armed_keys enc ps x = (if \<exists>p\<in>set ps. enc p = Inr x then Some [CHR 0x01] else None)"

definition encodable :: "(string \<Rightarrow> (ebpf_error, string) result) \<Rightarrow> string list \<Rightarrow> string list" where
  "encodable enc ps = filter (\<lambda>p. is_Ok (enc p)) ps"

definition faultless :: "bpf \<Rightarrow> bool" where
  "faultless k \<longleftrightarrow> (\<forall>n. \<not> bpf_fault k n)"

text \<open>An operation that enters its key, and one that removes it.\<close>

definition arms :: "(string \<Rightarrow> unit bop) \<Rightarrow> string \<Rightarrow> (string \<Rightarrow> (ebpf_error, string) result) \<Rightarrow> bool" where
  "arms op name enc \<longleftrightarrow> (\<forall>p k. op p k =
     (case enc p of Inl e \<Rightarrow> (Inl e, k) | Inr key \<Rightarrow> bpf_update name key [CHR 0x01] k))"

definition clears :: "(string \<Rightarrow> unit bop) \<Rightarrow> string \<Rightarrow> (string \<Rightarrow> (ebpf_error, string) result) \<Rightarrow> bool" where
  "clears op name enc \<longleftrightarrow> (\<forall>p k. op p k =
     (case enc p of Inl e \<Rightarrow> (Inr (), k) | Inr key \<Rightarrow> bpf_delete name key k))"

lemma deny_ops:
  "arms (set_deny_bin (Attached lm)) ''deny_bins'' encode_deny_key"
  "arms (set_deny_basename (Attached lm)) ''deny_basenames'' encode_basename_key"
  "clears (clear_deny_bin (Attached lm)) ''deny_bins'' encode_deny_key"
  "clears (clear_deny_basename (Attached lm)) ''deny_basenames'' encode_basename_key"
  by (simp_all add: arms_def clears_def set_deny_bin_def set_deny_basename_def clear_deny_bin_def clear_deny_basename_def)

lemma arm_all_spec:
  assumes "arms op name enc" and "faultless k" and "bpf_maps k name = Some m"
    and "arm_all op ps n k = (n', k')"
  shows "faultless k' \<and> n' = n + length (encodable enc ps)
    \<and> bpf_maps k' = (bpf_maps k)(name \<mapsto> (\<lambda>x. if \<exists>p\<in>set ps. enc p = Inr x then Some [CHR 0x01] else m x))"
  using assms(2-4)
proof (induction ps arbitrary: n k m)
  case Nil
  then show ?case by (auto simp: encodable_def)
next
  case (Cons p ps)
  have op: "op p k = (case enc p of Inl e \<Rightarrow> (Inl e, k) | Inr key \<Rightarrow> bpf_update name key [CHR 0x01] k)"
    using assms(1) by (simp add: arms_def)
  show ?case
  proof (cases "enc p")
    case (Inl e)
    with op Cons.prems Cons.IH [of k m n] show ?thesis by (auto simp: encodable_def)
  next
    case (Inr key)
    let ?k = "k\<lparr>bpf_tick := bpf_tick k + 1, bpf_maps := (bpf_maps k)(name \<mapsto> m(key \<mapsto> [CHR 0x01]))\<rparr>"
    have "op p k = (Inr (), ?k)" using op Inr Cons.prems by (simp add: bpf_update_def faultless_def)
    with Cons.prems have "arm_all op ps (n + 1) ?k = (n', k')" by simp
    with Cons.IH [of ?k "m(key \<mapsto> [CHR 0x01])" "n + 1"] Cons.prems Inr show ?thesis
      by (auto simp: encodable_def faultless_def fun_eq_iff)
  qed
qed

lemma clear_all_spec:
  assumes "clears op name enc" and "\<And>p q key. enc p = Inr key \<Longrightarrow> enc q = Inr key \<Longrightarrow> p = q"
    and "faultless k" and "bpf_maps k name = Some m" and "distinct ps"
    and "\<forall>p\<in>set ps. \<forall>key. enc p = Inr key \<longrightarrow> m key \<noteq> None" and "clear_all op ps n k = (n', k')"
  shows "faultless k' \<and> n' = n
    \<and> bpf_maps k' = (bpf_maps k)(name \<mapsto> (\<lambda>x. if \<exists>p\<in>set ps. enc p = Inr x then None else m x))"
  using assms(3-7)
proof (induction ps arbitrary: n k m)
  case Nil
  then show ?case by auto
next
  case (Cons p ps)
  have op: "op p k = (case enc p of Inl e \<Rightarrow> (Inr (), k) | Inr key \<Rightarrow> bpf_delete name key k)"
    using assms(1) by (simp add: clears_def)
  show ?case
  proof (cases "enc p")
    case (Inl e)
    with op Cons.prems Cons.IH [of k m n] show ?thesis by auto
  next
    case (Inr key)
    let ?k = "k\<lparr>bpf_tick := bpf_tick k + 1, bpf_maps := (bpf_maps k)(name \<mapsto> m(key := None))\<rparr>"
    have "op p k = (Inr (), ?k)" using op Inr Cons.prems by (auto simp: bpf_delete_def faultless_def Let_def)
    with Cons.prems(5) have run: "clear_all op ps n ?k = (n', k')" by simp
    have "\<forall>q\<in>set ps. \<forall>key'. enc q = Inr key' \<longrightarrow> (m(key := None)) key' \<noteq> None"
      using Cons.prems(3,4) Inr assms(2) by (auto simp: fun_upd_def)
    with run Cons.IH [of ?k "m(key := None)" n] Cons.prems(1-3) Inr show ?thesis
      by (auto simp: faultless_def fun_eq_iff)
  qed
qed

lemma encode_deny_key_inj: "encode_deny_key p = Inr key \<Longrightarrow> encode_deny_key q = Inr key \<Longrightarrow> p = q"
  using deny_keys_exact [of p] deny_keys_exact [of q] by simp

lemma encode_basename_key_inj: "encode_basename_key p = Inr key \<Longrightarrow> encode_basename_key q = Inr key \<Longrightarrow> p = q"
  using deny_keys_exact [of p] deny_keys_exact [of q] by simp

text \<open>
  The kernel denies what the profile asks for: under strict the entries of the lists that have a key and otherwise
  nothing, the scan for names is on only if there is a name to find, and the counts are those of the maps.
\<close>

definition deny_synced :: "server \<Rightarrow> bool" where
  "deny_synced s \<longleftrightarrow>
     (let k = tm_bpf (sv_threat s);
          bins = (if live_profile s = Strict then sv_deny_bins s else []);
          names = (if live_profile s = Strict then sv_deny_names s else [])
      in (\<exists>lm. sv_ebpf s = Some (Attached lm)) \<and> (\<exists>p. sv_profile s = profile_to_u8 p) \<and> faultless k
        \<and> distinct (sv_deny_bins s) \<and> distinct (sv_deny_names s)
        \<and> bpf_maps k ''deny_bins'' = Some (armed_keys encode_deny_key bins)
        \<and> bpf_maps k ''deny_basenames'' = Some (armed_keys encode_basename_key names)
        \<and> (\<exists>g. bpf_maps k ''basename_gate'' = Some g
             \<and> (g (ne_bytes 0) = Some [CHR 0x01] \<longleftrightarrow> encodable encode_basename_key names \<noteq> []))
        \<and> sv_path_armed s = word_of_nat (length (encodable encode_deny_key bins))
        \<and> sv_name_armed s = word_of_nat (length (encodable encode_basename_key names)))"

lemma set_basename_gate_spec:
  assumes "faultless k" and "bpf_maps k ''basename_gate'' = Some g"
  shows "\<exists>k'. set_basename_gate (Attached lm) on k = (Inr (), k') \<and> faultless k'
    \<and> bpf_maps k' = (bpf_maps k)(''basename_gate'' \<mapsto> g(ne_bytes 0 \<mapsto> [if on then CHR 0x01 else NUL]))"
  using assms by (auto simp: set_basename_gate_def bpf_update_def faultless_def)

lemma arm_deny_lists_spec:
  assumes "faultless k" and "bpf_maps k ''deny_bins'' = Some (armed_keys encode_deny_key [])"
    and "bpf_maps k ''deny_basenames'' = Some (armed_keys encode_basename_key [])"
    and "bpf_maps k ''basename_gate'' = Some g" and "arm_deny_lists (Attached lm) bins names k = ((n, m), k')"
  shows "faultless k' \<and> n = length (encodable encode_deny_key bins) \<and> m = length (encodable encode_basename_key names)
    \<and> bpf_maps k' ''deny_bins'' = Some (armed_keys encode_deny_key bins)
    \<and> bpf_maps k' ''deny_basenames'' = Some (armed_keys encode_basename_key names)
    \<and> bpf_maps k' ''basename_gate'' = Some (g(ne_bytes 0 \<mapsto> [if 0 < m then CHR 0x01 else NUL]))"
proof -
  obtain n1 k1 where a: "arm_all (set_deny_bin (Attached lm)) bins 0 k = (n1, k1)" by fastforce
  obtain n2 k2 where b: "arm_all (set_deny_basename (Attached lm)) names 0 k1 = (n2, k2)" by fastforce
  note A = arm_all_spec [OF deny_ops(1) assms(1,2) a]
  with assms(3) have "faultless k1" "bpf_maps k1 ''deny_basenames'' = Some (armed_keys encode_basename_key [])" by simp_all
  note B = arm_all_spec [OF deny_ops(2) this b]
  with A assms(4) have "faultless k2" "bpf_maps k2 ''basename_gate'' = Some g" by simp_all
  from set_basename_gate_spec [OF this, of lm "0 < n2"] a b A B assms(5) show ?thesis
    by (auto simp: arm_deny_lists_def armed_keys_def fun_eq_iff)
qed

lemma clear_deny_lists_spec:
  assumes "faultless k" and "bpf_maps k ''deny_bins'' = Some (armed_keys encode_deny_key bins)"
    and "bpf_maps k ''deny_basenames'' = Some (armed_keys encode_basename_key names)"
    and "bpf_maps k ''basename_gate'' = Some g" and "distinct bins" and "distinct names"
    and "clear_deny_lists (Attached lm) bins names k = ((n, m), k')"
  shows "faultless k' \<and> n = 0 \<and> m = 0
    \<and> bpf_maps k' ''deny_bins'' = Some (armed_keys encode_deny_key [])
    \<and> bpf_maps k' ''deny_basenames'' = Some (armed_keys encode_basename_key [])
    \<and> bpf_maps k' ''basename_gate'' = Some (g(ne_bytes 0 \<mapsto> [NUL]))"
proof -
  obtain n1 k1 where a: "clear_all (clear_deny_bin (Attached lm)) bins 0 k = (n1, k1)" by fastforce
  obtain n2 k2 where b: "clear_all (clear_deny_basename (Attached lm)) names 0 k1 = (n2, k2)" by fastforce
  have "\<forall>p\<in>set bins. \<forall>key. encode_deny_key p = Inr key \<longrightarrow> armed_keys encode_deny_key bins key \<noteq> None"
    by (auto simp: armed_keys_def)
  note A = clear_all_spec [OF deny_ops(3) encode_deny_key_inj assms(1,2,5) this a]
  with assms(3) have k1: "faultless k1" "bpf_maps k1 ''deny_basenames'' = Some (armed_keys encode_basename_key names)" by simp_all
  have "\<forall>p\<in>set names. \<forall>key. encode_basename_key p = Inr key \<longrightarrow> armed_keys encode_basename_key names key \<noteq> None"
    by (auto simp: armed_keys_def)
  note B = clear_all_spec [OF deny_ops(4) encode_basename_key_inj k1 assms(6) this b]
  with A assms(4) have "faultless k2" "bpf_maps k2 ''basename_gate'' = Some g" by simp_all
  from set_basename_gate_spec [OF this, of lm False] a b A B assms(7) show ?thesis
    by (auto simp: clear_deny_lists_def armed_keys_def fun_eq_iff)
qed

lemma may_switch: "\<not> may_switch_profile (peer_root peer) (sv_user_switch s) \<Longrightarrow> handle_set_profile peer p s = (RError MProfileGlobal, s)"
  by (simp add: handle_set_profile_def)

lemma deny_synced_switch:
  assumes "deny_synced s" and "may_switch_profile (peer_root peer) (sv_user_switch s)"
  shows "fst (handle_set_profile peer p s) = RProfile p \<and> deny_synced (snd (handle_set_profile peer p s))
    \<and> live_profile (snd (handle_set_profile peer p s)) = p
    \<and> sv_deny_bins (snd (handle_set_profile peer p s)) = sv_deny_bins s
    \<and> sv_deny_names (snd (handle_set_profile peer p s)) = sv_deny_names s
    \<and> sv_user_switch (snd (handle_set_profile peer p s)) = sv_user_switch s"
proof -
  let ?k = "tm_bpf (sv_threat s)" and ?s = "s\<lparr>sv_profile := profile_to_u8 p\<rparr>"
  obtain lm q g where e: "sv_ebpf s = Some (Attached lm)" and q: "sv_profile s = profile_to_u8 q"
    and f: "faultless ?k" and g: "bpf_maps ?k ''basename_gate'' = Some g"
    and d: "distinct (sv_deny_bins s)" "distinct (sv_deny_names s)"
    using assms(1) by (auto simp: deny_synced_def Let_def)
  have live: "live_profile s = q" "live_profile ?s = p" using q by (simp_all add: live_profile_def)
  have run: "handle_set_profile peer p s = (RProfile p,
      case deny_action (q = Strict) (p = Strict) of
        Arm \<Rightarrow> store_armed (arm_deny_lists (Attached lm) (sv_deny_bins s) (sv_deny_names s) ?k) ?s
      | Clear \<Rightarrow> store_armed (clear_deny_lists (Attached lm) (sv_deny_bins s) (sv_deny_names s) ?k) ?s
      | NoAction \<Rightarrow> ?s)"
    using assms(2) e q by (simp add: handle_set_profile_def Let_def del: profile_to_u8.simps split: DenyAction.splits)
  consider (arm) "q \<noteq> Strict" "p = Strict" | (clear) "q = Strict" "p \<noteq> Strict" | (stay) "q = Strict \<longleftrightarrow> p = Strict" by blast
  then show ?thesis
  proof cases
    case arm
    obtain n m k' where r: "arm_deny_lists (Attached lm) (sv_deny_bins s) (sv_deny_names s) ?k = ((n, m), k')"
      by (metis prod.collapse)
    have "bpf_maps ?k ''deny_bins'' = Some (armed_keys encode_deny_key [])"
      "bpf_maps ?k ''deny_basenames'' = Some (armed_keys encode_basename_key [])"
      using assms(1) live arm by (simp_all add: deny_synced_def Let_def)
    note spec = arm_deny_lists_spec [OF f this g r]
    show ?thesis using run r spec arm live e q d
      by (simp add: store_armed_def deny_synced_def Let_def live_profile_def exI [of _ Strict] del: profile_to_u8.simps)
  next
    case clear
    obtain n m k' where r: "clear_deny_lists (Attached lm) (sv_deny_bins s) (sv_deny_names s) ?k = ((n, m), k')"
      by (metis prod.collapse)
    have "bpf_maps ?k ''deny_bins'' = Some (armed_keys encode_deny_key (sv_deny_bins s))"
      "bpf_maps ?k ''deny_basenames'' = Some (armed_keys encode_basename_key (sv_deny_names s))"
      using assms(1) live clear by (simp_all add: deny_synced_def Let_def)
    note spec = clear_deny_lists_spec [OF f this g d r]
    show ?thesis using run r spec clear live e q d
      by (simp add: store_armed_def deny_synced_def Let_def live_profile_def encodable_def exI [of _ p] del: profile_to_u8.simps)
  next
    case stay
    then show ?thesis using run live e q assms(1)
      by (cases "q = Strict") (simp_all add: deny_synced_def Let_def live_profile_def exI [of _ p] del: profile_to_u8.simps)
  qed
qed

definition kernel_denies :: "string \<Rightarrow> (string \<Rightarrow> (ebpf_error, string) result) \<Rightarrow> string \<Rightarrow> bpf \<Rightarrow> bool" where
  "kernel_denies name enc p k \<longleftrightarrow>
     (\<exists>key m. enc p = Inr key \<and> bpf_maps k name = Some m \<and> m key = Some [CHR 0x01])"

lemma armed_keys_iff:
  assumes "\<And>p q key. enc p = Inr key \<Longrightarrow> enc q = Inr key \<Longrightarrow> p = q" and "bpf_maps k name = Some (armed_keys enc ps)"
  shows "kernel_denies name enc p k \<longleftrightarrow> p \<in> set (encodable enc ps)"
  using assms by (cases "enc p") (auto simp: kernel_denies_def armed_keys_def encodable_def)

fun switch_all :: "(peer_cred \<times> SecurityProfile) list \<Rightarrow> server \<Rightarrow> server" where
  "switch_all [] s = s"
| "switch_all ((peer, p) # reqs) s = switch_all reqs (snd (handle_set_profile peer p s))"

lemma switch_all_synced:
  "deny_synced s \<Longrightarrow> deny_synced (switch_all reqs s) \<and> sv_deny_bins (switch_all reqs s) = sv_deny_bins s
    \<and> sv_deny_names (switch_all reqs s) = sv_deny_names s
    \<and> (live_profile (switch_all reqs s) \<noteq> live_profile s \<longrightarrow>
         (\<exists>(peer, p)\<in>set reqs. p = live_profile (switch_all reqs s) \<and> may_switch_profile (peer_root peer) (sv_user_switch s)))"
proof (induction reqs s rule: switch_all.induct)
  case (2 peer p reqs s)
  show ?case
  proof (cases "may_switch_profile (peer_root peer) (sv_user_switch s)")
    case True
    from deny_synced_switch [OF "2.prems" True, of p] "2.IH" True show ?thesis by fastforce
  next
    case False
    with "2.IH" "2.prems" show ?thesis by (fastforce simp: may_switch)
  qed
qed simp



text \<open>A server whose kernel has the maps, started under the session profile with one path and two names.\<close>

abbreviation strict_demo :: server where
  "strict_demo \<equiv> server_new demo_classifier
     \<lparr>bpf_maps = [''deny_bins'' \<mapsto> Map.empty, ''deny_basenames'' \<mapsto> Map.empty, ''basename_gate'' \<mapsto> Map.empty], bpf_tick = 0, bpf_fault = \<lambda>_. False\<rparr>
     (Some (Attached BlockMode)) None (fst (trust_store_new (calm_env (\<lambda>_. None)) [''d'', ''users''] demo_world)) demo_world
     broadcast_new demo_posture (profile_to_u8 Session) False [''/usr/bin/nc''] [''xmrig'', ''a/b'']"

lemma strict_demo_synced: "deny_synced strict_demo"
proof -
  have "armed_keys enc [] = Map.empty" for enc by (simp add: armed_keys_def fun_eq_iff)
  moreover have "live_profile strict_demo = Session"
    by (simp add: live_profile_def server_new_def profile_from_u8_def Let_def)
  ultimately show ?thesis
    by (auto simp: deny_synced_def server_new_def with_ebpf_def threat_map_new_def faultless_def encodable_def Let_def
        intro!: exI [of _ Session])
qed


text \<open>
  With an entry given twice the second removal finds no key and fails, so that after the switch away a rule is reported
  as still armed although the map is empty.
\<close>

theorem duplicate_entry_miscounted:
  assumes "faultless k" and "bpf_maps k ''deny_bins'' = Some Map.empty" and "encode_deny_key p = Inr key"
  shows "fst (clear_all (clear_deny_bin (Attached lm)) [p, p] 0 (snd (arm_all (set_deny_bin (Attached lm)) [p, p] 0 k))) = 1
    \<and> bpf_maps (snd (clear_all (clear_deny_bin (Attached lm)) [p, p] 0 (snd (arm_all (set_deny_bin (Attached lm)) [p, p] 0 k)))) ''deny_bins''
        = Some Map.empty"
  using assms by (simp add: set_deny_bin_def clear_deny_bin_def bpf_update_def bpf_delete_def faultless_def Let_def)

end
