(* ===== verification/Server_Trust.thy ===== *)
theory Server_Trust
  imports Server_State
begin

text \<open>
  The handlers on atoms, URLs, the session and trusted hashes (\<open>server.rs\<close>). Each resolves the user it works for;
  the ones that change the atoms or the URLs on disk ask for root first. An error of the store is reported as a value
  of \<open>message\<close>, where the code formats a text.
\<close>

section \<open>Handlers\<close>

definition io_response :: "(io_error, unit) result \<Rightarrow> response" where
  "io_response r = (case r of Inr _ \<Rightarrow> ROk | Inl e \<Rightarrow> RError (MIo e))"

definition handle_atoms_add :: "server_env \<Rightarrow> peer_cred \<Rightarrow> string \<Rightarrow> u32 option \<Rightarrow> response served" where
  "handle_atoms_add env peer pat target s =
     (if \<not> peer_root peer then (require_root_error ''atoms add'', s)
      else case resolve_target_uid peer target of
             Inl m \<Rightarrow> (RError m, s)
           | Inr uid \<Rightarrow> (case on_trust (persistent_add_atom (se_os env) (se_alnum env) uid pat) s of (r, s) \<Rightarrow> (io_response r, s)))"

definition handle_atoms_remove :: "server_env \<Rightarrow> peer_cred \<Rightarrow> string \<Rightarrow> u32 option \<Rightarrow> response served" where
  "handle_atoms_remove env peer pat target s =
     (if \<not> peer_root peer then (require_root_error ''atoms remove'', s)
      else case resolve_target_uid peer target of
             Inl m \<Rightarrow> (RError m, s)
           | Inr uid \<Rightarrow>
               (case on_trust (persistent_remove_atom (se_os env) uid pat) s of
                  (Inr True, s) \<Rightarrow> (ROk, s)
                | (Inr False, s) \<Rightarrow> (RError (MAtomNotPresent pat), s)
                | (Inl e, s) \<Rightarrow> (RError (MIo e), s)))"

definition handle_atoms_list :: "server_env \<Rightarrow> peer_cred \<Rightarrow> AtomScope \<Rightarrow> u32 option \<Rightarrow> response served" where
  "handle_atoms_list env peer scope target s =
     (case resolve_target_uid peer target of
        Inl m \<Rightarrow> (RError m, s)
      | Inr uid \<Rightarrow>
          (case scope of
             SystemScope \<Rightarrow> (RAtomsList (system_atoms_snapshot (sv_classifier s)), s)
           | FetchedScope \<Rightarrow> let s = load_fetched env s in (RAtomsList (list_system_fetched (sv_trust s)), s)
           | UserScope \<Rightarrow> let s = load_user env uid s in (RAtomsList (list_atoms (sv_trust s) uid Persistent), s)
           | SessionScope \<Rightarrow> (RAtomsList (list_atoms (sv_trust s) uid SessionList), s)))"

definition handle_atoms_drift :: "server_env \<Rightarrow> response served" where
  "handle_atoms_drift env s =
     (case read_snapshot (se_os env) (se_decode_drift env) DEFAULT_DRIFT_FILE (sv_world s) of
        (r, w) \<Rightarrow>
          (case r of
             Inr (Some snapshot) \<Rightarrow> RAtomsDrift True (Some (ds_updated_at snapshot)) (ds_sources snapshot)
           | Inr None \<Rightarrow> RAtomsDrift False None []
           | Inl e \<Rightarrow> RError MDriftUnreadable,
           s\<lparr>sv_world := w\<rparr>))"

definition handle_urls :: "string \<Rightarrow> UrlDecision \<Rightarrow> server_env \<Rightarrow> peer_cred \<Rightarrow> string \<Rightarrow> u32 option \<Rightarrow> response served" where
  "handle_urls op dec env peer host target s =
     (if \<not> peer_root peer then (require_root_error op, s)
      else case resolve_target_uid peer target of
             Inl m \<Rightarrow> (RError m, s)
           | Inr uid \<Rightarrow> (case on_trust (persistent_add_url (se_os env) uid host dec) s of (r, s) \<Rightarrow> (io_response r, s)))"

definition handle_urls_allow :: "server_env \<Rightarrow> peer_cred \<Rightarrow> string \<Rightarrow> u32 option \<Rightarrow> response served" where
  "handle_urls_allow = handle_urls ''urls allow'' Allow"

definition handle_urls_block :: "server_env \<Rightarrow> peer_cred \<Rightarrow> string \<Rightarrow> u32 option \<Rightarrow> response served" where
  "handle_urls_block = handle_urls ''urls block'' BlockUrl"

definition handle_urls_list :: "server_env \<Rightarrow> peer_cred \<Rightarrow> u32 option \<Rightarrow> response served" where
  "handle_urls_list env peer target s =
     (case resolve_target_uid peer target of
        Inl m \<Rightarrow> (RError m, s)
      | Inr uid \<Rightarrow>
          let s = load_user env uid s
          in (RUrlsList (map (\<lambda>(host, dec). (host, as_wire_str dec)) (list_urls (sv_trust s) uid)), s))"

definition handle_session_list :: "peer_cred \<Rightarrow> u32 option \<Rightarrow> response served" where
  "handle_session_list peer target s =
     (case resolve_target_uid peer target of
        Inl m \<Rightarrow> (RError m, s)
      | Inr uid \<Rightarrow> (case session_summary (sv_trust s) uid of (a, al, bl, t) \<Rightarrow> (RSessionList a al bl t, s)))"

definition handle_session_clear :: "peer_cred \<Rightarrow> u32 option \<Rightarrow> response served" where
  "handle_session_clear peer target s =
     (case resolve_target_uid peer target of
        Inl m \<Rightarrow> (RError m, s)
      | Inr uid \<Rightarrow> (ROk, s\<lparr>sv_trust := session_clear uid (sv_trust s)\<rparr>))"

definition session_response :: "(message, unit) result \<Rightarrow> response" where
  "session_response r = (case r of Inr _ \<Rightarrow> ROk | Inl m \<Rightarrow> RError m)"

definition handle_session_add_trust :: "peer_cred \<Rightarrow> string \<Rightarrow> u32 option \<Rightarrow> response served" where
  "handle_session_add_trust peer hash target s =
     (case resolve_target_uid peer target of
        Inl m \<Rightarrow> (RError m, s)
      | Inr uid \<Rightarrow> (case on_session (session_add_trust uid hash) s of (r, s) \<Rightarrow> (session_response r, s)))"

definition handle_session_add_url_block :: "peer_cred \<Rightarrow> string \<Rightarrow> u32 option \<Rightarrow> response served" where
  "handle_session_add_url_block peer host target s =
     (case resolve_target_uid peer target of
        Inl m \<Rightarrow> (RError m, s)
      | Inr uid \<Rightarrow> (case on_session (session_add_url_block uid host) s of (r, s) \<Rightarrow> (session_response r, s)))"

definition handle_trust_add :: "server_env \<Rightarrow> peer_cred \<Rightarrow> string \<Rightarrow> u32 option \<Rightarrow> response served" where
  "handle_trust_add env peer hash target s =
     (case resolve_target_uid peer target of
        Inl m \<Rightarrow> (RError m, s)
      | Inr uid \<Rightarrow> (case on_trust (persistent_add_trust (se_os env) uid hash) s of (r, s) \<Rightarrow> (io_response r, s)))"

definition handle_trust_list :: "server_env \<Rightarrow> peer_cred \<Rightarrow> u32 option \<Rightarrow> u32 option \<Rightarrow> response served" where
  "handle_trust_list env peer target limit s =
     (case resolve_target_uid peer target of
        Inl m \<Rightarrow> (RError m, s)
      | Inr uid \<Rightarrow>
          let s = load_user env uid s;
              trust = list_persistent_trust (sv_trust s) uid;
              trust = (case limit of None \<Rightarrow> trust | Some n \<Rightarrow> if unat n < length trust then take (unat n) trust else trust)
          in (RTrustList trust, s))"

definition session_report_response :: "session_write_report \<Rightarrow> response" where
  "session_report_response r =
     (if invalid r = [] \<and> not_persisted r = [] then ROk
      else RError (MSessionWritePartial (atoms_added r) (urls_allow_added r) (urls_block_added r) (trust_added r)
             (invalid r) (not_persisted r)))"

definition handle_session_write :: "server_env \<Rightarrow> peer_cred \<Rightarrow> u32 option \<Rightarrow> response served" where
  "handle_session_write env peer target s =
     (if \<not> peer_root peer then (require_root_error ''session write'', s)
      else case resolve_target_uid peer target of
             Inl m \<Rightarrow> (RError m, s)
           | Inr uid \<Rightarrow>
               (case on_trust (session_write (se_os env) (se_alnum env) (se_session_others env) uid) s of
                  (Inr rep, s) \<Rightarrow> (session_report_response rep, s)
                | (Inl e, s) \<Rightarrow> (RError (MIo e), s)))"

end
