(* ===== verification/Server.thy ===== *)
theory Server
  imports Server_Classify Server_Threat Server_Profile Server_Trust
begin

text \<open>
  The dispatcher (\<open>server.rs\<close>) over all handlers, and what holds of every request whatever its kind: it is answered with
  a response of its kind, and a caller that is not root changes nothing but its own session, its own file of trusted
  hashes and marks on its own processes. \<open>None\<close> is a panic: of the classifier, or of the arm that the connection loop
  keeps subscriptions from.
\<close>

definition handle_health :: "server_env \<Rightarrow> response" where
  "handle_health env = RHealth (se_version env)"

fun dispatch :: "server_env \<Rightarrow> request \<Rightarrow> peer_cred \<Rightarrow> server \<Rightarrow> (response \<times> server) option" where
  "dispatch env Health peer s = Some (handle_health env, s)"
| "dispatch env (Classify command ctx) peer s = handle_classify env peer command ctx s"
| "dispatch env (SetThreatLevel pid level) peer s = Some (handle_set_threat_level env peer pid level s)"
| "dispatch env (SetWatch pid) peer s = Some (handle_set_watch env peer pid s)"
| "dispatch env (GetThreatLevel pid) peer s = Some (handle_get_threat_level env peer pid s)"
| "dispatch env (ReportMetrics pid cwd shell incognito counters ts_ms) peer s =
     Some (handle_report_metrics env peer pid cwd shell incognito counters s)"
| "dispatch env ListInstances peer s = Some (handle_list_instances env peer s, s)"
| "dispatch env GetMetrics peer s = Some (handle_get_metrics env peer s, s)"
| "dispatch env GetProfile peer s = Some (handle_get_profile s, s)"
| "dispatch env (SetProfile p) peer s = Some (handle_set_profile peer p s)"
| "dispatch env (AtomsAdd pat target) peer s = Some (handle_atoms_add env peer pat target s)"
| "dispatch env (AtomsRemove pat target) peer s = Some (handle_atoms_remove env peer pat target s)"
| "dispatch env (AtomsList scope target) peer s = Some (handle_atoms_list env peer scope target s)"
| "dispatch env AtomsDrift peer s = Some (handle_atoms_drift env s)"
| "dispatch env (UrlsAllow host target) peer s = Some (handle_urls_allow env peer host target s)"
| "dispatch env (UrlsBlock host target) peer s = Some (handle_urls_block env peer host target s)"
| "dispatch env (UrlsList target) peer s = Some (handle_urls_list env peer target s)"
| "dispatch env (SessionListReq target) peer s = Some (handle_session_list peer target s)"
| "dispatch env (SessionClear target) peer s = Some (handle_session_clear peer target s)"
| "dispatch env (SessionAddTrust hash target) peer s = Some (handle_session_add_trust peer hash target s)"
| "dispatch env (SessionAddUrlBlock host target) peer s = Some (handle_session_add_url_block peer host target s)"
| "dispatch env (TrustAdd hash target) peer s = Some (handle_trust_add env peer hash target s)"
| "dispatch env (TrustList target limit) peer s = Some (handle_trust_list env peer target limit s)"
| "dispatch env (SessionWrite target) peer s = Some (handle_session_write env peer target s)"
| "dispatch env (SubscribeWarnEvents tree_root) peer s = None"

section \<open>Every answer has the kind of its request\<close>

fun answer_kind :: "request \<Rightarrow> response \<Rightarrow> bool" where
  "answer_kind Health r \<longleftrightarrow> (\<exists>v. r = RHealth v)"
| "answer_kind (Classify c x) r \<longleftrightarrow> (\<exists>v. r = RClassify v)"
| "answer_kind (GetThreatLevel p) r \<longleftrightarrow> (\<exists>l. r = RThreatLevel l)"
| "answer_kind ListInstances r \<longleftrightarrow> (\<exists>l. r = RInstances l)"
| "answer_kind GetMetrics r \<longleftrightarrow> (\<exists>a g n. r = RMetrics a g n)"
| "answer_kind GetProfile r \<longleftrightarrow> (\<exists>p. r = RProfile p)"
| "answer_kind (SetProfile p) r \<longleftrightarrow> r = RProfile p"
| "answer_kind (AtomsList c t) r \<longleftrightarrow> (\<exists>l. r = RAtomsList l)"
| "answer_kind AtomsDrift r \<longleftrightarrow> (\<exists>b u l. r = RAtomsDrift b u l)"
| "answer_kind (UrlsList t) r \<longleftrightarrow> (\<exists>l. r = RUrlsList l)"
| "answer_kind (SessionListReq t) r \<longleftrightarrow> (\<exists>a b c d. r = RSessionList a b c d)"
| "answer_kind (TrustList t n) r \<longleftrightarrow> (\<exists>l. r = RTrustList l \<and> (\<forall>k. n = Some k \<longrightarrow> length l \<le> unat k))"
| "answer_kind (SubscribeWarnEvents t) r \<longleftrightarrow> r = RSubscribed"
| "answer_kind _ r \<longleftrightarrow> r = ROk"

text \<open>Requests whose handler has no error of its own.\<close>

fun infallible :: "request \<Rightarrow> bool" where
  "infallible Health = True"
| "infallible (Classify c x) = True"
| "infallible (ReportMetrics a b c d e f) = True"
| "infallible ListInstances = True"
| "infallible GetMetrics = True"
| "infallible GetProfile = True"
| "infallible _ = False"

lemma handle_classify_kind: "handle_classify env peer command ctx s = Some (r, s') \<Longrightarrow> \<exists>v. r = RClassify v"
  by (auto simp: handle_classify_def split: option.splits prod.splits)

lemma answer_kinds:
  assumes "dispatch env req peer s = Some (r, s')"
  shows "answer_kind req r \<or> (\<not> infallible req \<and> (\<exists>m. r = RError m))"
proof (cases req)
  case (Classify c x)
  with assms handle_classify_kind show ?thesis by auto
next
  case (SetThreatLevel p l)
  with assms show ?thesis by (auto simp: handle_set_threat_level_def split: prod.splits sum.splits option.splits bool.splits)
next
  case (SetWatch p)
  with assms show ?thesis
    by (auto simp: handle_set_watch_def Let_def split: prod.splits sum.splits bool.splits if_splits)
next
  case (GetThreatLevel p)
  with assms show ?thesis
    by (auto simp: handle_get_threat_level_def Let_def split: prod.splits OwnerLookup.splits if_splits)
next
  case (SessionWrite t)
  with assms show ?thesis
    by (auto simp: handle_session_write_def require_root_error_def session_report_response_def
        split: prod.splits sum.splits if_splits)
next
  case (AtomsList sc t)
  with assms show ?thesis by (cases sc) (auto simp: handle_atoms_list_def Let_def split: sum.splits)
next
  case (TrustList t n)
  with assms show ?thesis by (auto simp: handle_trust_list_def Let_def split: sum.splits option.splits if_splits)
next
  case GetMetrics
  with assms show ?thesis by (auto simp: handle_get_metrics_def split: prod.splits)
next
  case (SetProfile p)
  with assms show ?thesis by (auto simp: handle_set_profile_def Let_def split: if_splits)
qed (use assms in \<open>auto simp: handle_health_def handle_report_metrics_def handle_list_instances_def handle_get_profile_def
       handle_atoms_add_def handle_atoms_remove_def handle_atoms_drift_def handle_urls_allow_def handle_urls_block_def
       handle_urls_def handle_urls_list_def handle_session_list_def handle_session_clear_def handle_session_add_trust_def
       handle_session_add_url_block_def handle_trust_add_def require_root_error_def io_response_def session_response_def Let_def
       split: prod.splits sum.splits option.splits bool.splits if_splits\<close>)

lemma dispatch_None:
  "dispatch env req peer s = None \<longleftrightarrow>
     (\<exists>t. req = SubscribeWarnEvents t) \<or> (\<exists>c x. req = Classify c x \<and> handle_classify env peer c x s = None)"
  by (cases req) auto

text \<open>
  C28. Every request other than a subscription is answered, and answered in kind. The dispatcher returns a response unless the
  classifier panics on the command or the command is not well-formed text, the response is the one of the request's kind
  (for a bounded listing within the caller's limit) or an error, and the requests that need no permission and no file are
  never answered with an error.
\<close>

theorem requests_answered_in_kind:
  assumes "\<nexists>t. req = SubscribeWarnEvents t"
    and "\<And>c x. req = Classify c x \<Longrightarrow> utf8_valid c \<and> classify (sv_classifier s) c \<noteq> None"
  shows "\<exists>r s'. dispatch env req peer s = Some (r, s') \<and> (answer_kind req r \<or> (\<not> infallible req \<and> (\<exists>m. r = RError m)))"
proof -
  have "dispatch env req peer s \<noteq> None"
  proof
    assume "dispatch env req peer s = None"
    with assms(1) obtain c x where c: "req = Classify c x" "handle_classify env peer c x s = None" by (auto simp: dispatch_None)
    with assms(2) obtain r where "utf8_valid c" "classify (sv_classifier s) c = Some r" by blast
    from classify_total [OF this, of env peer x] c(2) show False by auto
  qed
  then obtain r s' where "dispatch env req peer s = Some (r, s')" by fastforce
  with answer_kinds show ?thesis by blast
qed

theorem requests_answered_in_kind_witness:
  "\<exists>l s'. dispatch demo_env (TrustList None (Some 3)) \<lparr>peer_uid = 1000, peer_root = False\<rparr> demo_server = Some (RTrustList l, s')
     \<and> length l \<le> 3"
proof -
  let ?p = "\<lparr>peer_uid = 1000, peer_root = False\<rparr>" and ?q = "TrustList None (Some 3)"
  obtain r s' where d: "dispatch demo_env ?q ?p demo_server = Some (r, s')"
    and k: "answer_kind ?q r \<or> (\<not> infallible ?q \<and> (\<exists>m. r = RError m))"
    using requests_answered_in_kind [of ?q demo_server demo_env ?p] by auto
  have "resolve_target_uid ?p None = Inr 1000" by (simp add: resolve_target_uid_def)
  with d have "\<nexists>m. r = RError m" by (auto simp: handle_trust_list_def Let_def)
  with k d show ?thesis by auto
qed

section \<open>A caller that is not root\<close>

text \<open>The file of trusted hashes and its tmp files.\<close>

definition trust_file_name :: "path \<Rightarrow> bool" where
  "trust_file_name q \<longleftrightarrow> q \<noteq> [] \<and> (last q = ''commands.trusted.txt'' \<or> prefix ''commands.trusted.txt.tmp.'' (last q))"

text \<open>Operations of the store that change no other file.\<close>

definition trust_file_only :: "'a sop \<Rightarrow> bool" where
  "trust_file_only m \<longleftrightarrow> (\<forall>s w q. \<not> trust_file_name q \<longrightarrow> lookup_file (snd (snd (m s w))) q = lookup_file w q)"

lemma trust_file_only_files: "(\<And>s w. files (snd (snd (m s w))) = files w) \<Longrightarrow> trust_file_only m"
  by (simp add: trust_file_only_def)

lemma trust_file_only_bind:
  assumes "trust_file_only m" and "\<And>a. trust_file_only (k a)"
  shows "trust_file_only (sop_bind m k)"
  unfolding trust_file_only_def
proof (intro allI impI)
  fix s w q
  assume q: "\<not> trust_file_name q"
  obtain r s1 w1 where m: "m s w = (r, s1, w1)" by (cases "m s w") auto
  with assms(1) q have "lookup_file w1 q = lookup_file w q" unfolding trust_file_only_def by (metis snd_conv)
  with assms(2) q m show "lookup_file (snd (snd (sop_bind m k s w))) q = lookup_file w q"
    by (cases r) (simp_all add: sop_bind_def trust_file_only_def)
qed

lemma trust_file_only_basic:
  "trust_file_only (sop_ret a)" "trust_file_only (sop_err e)"
  "(\<And>w. files (snd (m w)) = files w) \<Longrightarrow> trust_file_only (sop_io m)"
  by (simp_all add: trust_file_only_def sop_ret_def sop_err_def files_sop_io)

lemma trust_file_only_get:
  assumes "\<And>s. trust_file_only (k (f s))" shows "trust_file_only (sop_bind (sop_get f) k)"
  using assms by (simp add: trust_file_only_def sop_bind_def sop_get_def)

lemma trust_file_only_if: "trust_file_only m \<Longrightarrow> trust_file_only n \<Longrightarrow> trust_file_only (if b then m else n)"
  by simp

lemma trust_file_only_lock: "trust_file_only m \<Longrightarrow> trust_file_only (with_write_lock uid m)"
  unfolding trust_file_only_def with_write_lock_def by (auto split: prod.splits) (metis snd_conv)

lemma trust_file_only_load: "trust_file_only (load_persistent env uid)"
proof (rule trust_file_only_files)
  fix s w
  show "files (snd (snd (load_persistent env uid s w))) = files w"
    using files_load_persistent [of env uid s w] by (metis prod.collapse)
qed

lemma trust_file_only_write:
  assumes "last p = ''commands.trusted.txt''" and "p \<noteq> []"
  shows "trust_file_only (sop_io (write_trust_file env p h))"
  unfolding trust_file_only_def
proof (intro allI impI)
  fix s w q
  assume q: "\<not> trust_file_name q"
  obtain r w' where w: "write_atomic env p (trust_content (utc_timestamp_ymd (now_secs env)) h) w = (r, w')" by fastforce
  let ?t = "write_atomic_tmp env (seq w) p"
  have "file_name p = Some (last p)" using assms(2) by (simp add: file_name_def)
  then have "prefix ''commands.trusted.txt.tmp.'' (last ?t)" "?t \<noteq> []"
    using assms(1) by (simp_all add: write_atomic_tmp_def with_file_name_def)
  then have "q \<noteq> p" "q \<noteq> ?t" using q assms by (auto simp: trust_file_name_def)
  then have "lookup_file w' q = lookup_file w q"
    using write_atomic_publishes [OF w] by (auto simp: publishes_def split: if_splits)
  with w show "lookup_file (snd (snd (sop_io (write_trust_file env p h) s w))) q = lookup_file w q"
    by (cases r) (simp_all add: sop_io_def write_trust_file_def)
qed

lemma trust_file_only_add_trust: "trust_file_only (persistent_add_trust env uid hash)"
proof -
  have path: "last (user_trust_path s uid) = ''commands.trusted.txt''" "user_trust_path s uid \<noteq> []" for s
    by (simp_all add: user_trust_path_def)
  have "trust_file_only (with_write_lock uid
          (sop_bind (sop_get (\<lambda>s. user_trust_path s uid)) (\<lambda>p.
           sop_bind (sop_io (ensure_parent_dir env p)) (\<lambda>_.
           sop_bind (sop_io (read_trust_file env p)) (\<lambda>existing.
             if hash \<in> set existing then sop_ret ()
             else if PERSISTENT_TRUST_CAP \<le> length existing then sop_err (InvalidInput TrustFileFull)
             else sop_bind (sop_io (write_trust_file env p (hs_insert hash existing)))
                    (\<lambda>_. load_persistent env uid))))))"
    by (intro trust_file_only_lock trust_file_only_get trust_file_only_bind trust_file_only_basic trust_file_only_if
        trust_file_only_load trust_file_only_write path) (simp_all add: read_trust_file_def)
  then show ?thesis
    by (cases "validate_trust_hash hash") (simp_all add: trust_file_only_def persistent_add_trust_def)
qed

definition confined :: "u32 \<Rightarrow> server \<Rightarrow> server \<Rightarrow> bool" where
  "confined uid s s' \<longleftrightarrow>
     data_root (sv_trust s') = data_root (sv_trust s)
     \<and> (\<forall>v. v \<noteq> uid \<longrightarrow> user_states (sv_trust s') v = user_states (sv_trust s) v)
     \<and> (\<forall>q. lookup_file (sv_world s') q \<noteq> lookup_file (sv_world s) q
          \<longrightarrow> prefix (user_dir (data_root (sv_trust s)) uid) q \<and> trust_file_name q)"

lemma confined_refl [simp]: "confined uid s s"
  by (simp add: confined_def)

lemma confined_trans: "confined uid a b \<Longrightarrow> confined uid b c \<Longrightarrow> confined uid a c"
  unfolding confined_def by metis

lemma confined_same: "sv_trust s' = sv_trust s \<Longrightarrow> files (sv_world s') = files (sv_world s) \<Longrightarrow> confined uid s s'"
  by (simp add: confined_def)

lemma confined_other [simp]:
  "confined uid s (s'\<lparr>sv_threat := t\<rparr>) \<longleftrightarrow> confined uid s s'" "confined uid s (s'\<lparr>sv_osv := c\<rparr>) \<longleftrightarrow> confined uid s s'"
  "confined uid s (s'\<lparr>sv_metrics := m\<rparr>) \<longleftrightarrow> confined uid s s'" "confined uid s (s'\<lparr>sv_profile := p\<rparr>) \<longleftrightarrow> confined uid s s'"
  "confined uid s (s'\<lparr>sv_path_armed := n\<rparr>) \<longleftrightarrow> confined uid s s'" "confined uid s (s'\<lparr>sv_name_armed := n\<rparr>) \<longleftrightarrow> confined uid s s'"
  by (simp_all add: confined_def)

lemma confined_on_trust:
  assumes "isop uid (data_root (sv_trust s)) m" and "trust_file_only m" and "on_trust m s = (r, s')"
  shows "confined uid s s'"
proof -
  obtain r1 ts w where m: "m (sv_trust s) (sv_world s) = (r1, ts, w)" by (cases "m (sv_trust s) (sv_world s)") auto
  with assms(3) have s': "s' = s\<lparr>sv_trust := ts, sv_world := w\<rparr>" by (simp add: on_trust_def)
  have "isolated uid (sv_trust s, sv_world s) (ts, w)" using assms(1) m by (metis isop_def snd_conv)
  moreover have "\<not> trust_file_name q \<longrightarrow> lookup_file w q = lookup_file (sv_world s) q" for q
    using assms(2) m by (metis trust_file_only_def snd_conv)
  ultimately show ?thesis by (auto simp: s' confined_def isolated_def)
qed

lemma confined_on_session:
  assumes "isolated uid (sv_trust s, w) (snd (f (sv_trust s)), w)" and "on_session f s = (r, s')"
  shows "confined uid s s'"
  using assms by (auto simp: on_session_def confined_def isolated_def split: prod.splits)

lemma confined_session_adds:
  "on_session (session_add_trust uid h) s = (r, s') \<Longrightarrow> confined uid s s'"
  "on_session (session_add_url_block uid h) s = (r, s') \<Longrightarrow> confined uid s s'"
  by (erule confined_on_session [rotated], rule session_ops_isolated)+

lemma confined_load_user: "confined uid s (load_user env uid s)"
proof -
  obtain r s' where l: "on_trust (ensure_loaded (se_os env) uid) s = (r, s')" by fastforce
  have "isop uid (data_root (sv_trust s)) (ensure_loaded (se_os env) uid)"
    using isop_load [of uid "data_root (sv_trust s)" "se_os env"] by (auto simp: isop_def ensure_loaded_def)
  moreover have "trust_file_only (ensure_loaded (se_os env) uid)"
    using trust_file_only_load [of "se_os env" uid] by (auto simp: trust_file_only_def ensure_loaded_def)
  ultimately have "confined uid s s'" using l by (rule confined_on_trust)
  with l show ?thesis by (simp add: load_user_def)
qed

lemma files_read_system: "files (snd (read_system_atoms_file_checked env p w)) = files w"
proof -
  have r: "files (snd (io_bind (sys_read_to_string env p) (\<lambda>c. io_ret (parse_atoms_content c)) w1)) = files w1" for w1
    by (rule files_io_bind) (simp_all add: io_ret_def)
  have m: "files (snd (sys_metadata env p w)) = files w"
    by (simp add: sys_metadata_def sys_def split: option.splits)
  obtain x w1 where x: "sys_metadata env p w = (x, w1)" by fastforce
  with m have "files w1 = files w" by simp
  with x r [of w1] show ?thesis
    by (cases "io_bind (sys_read_to_string env p) (\<lambda>c. io_ret (parse_atoms_content c)) w1")
       (simp add: read_system_atoms_file_checked_def map_err_def io_catch_def io_err_def split: prod.splits sum.splits os_error.splits)
qed

lemma confined_load_fetched: "confined uid s (load_fetched env s)"
proof -
  have "files (snd (ensure_system_fetched_loaded (se_os env) (sv_trust s) (sv_world s))) = files (sv_world s)
    \<and> user_states (fst (ensure_system_fetched_loaded (se_os env) (sv_trust s) (sv_world s))) = user_states (sv_trust s)
    \<and> data_root (fst (ensure_system_fetched_loaded (se_os env) (sv_trust s) (sv_world s))) = data_root (sv_trust s)"
    using files_read_system [of "se_os env" "system_fetched_path (sv_trust s)" "sv_world s"]
    by (auto simp: ensure_system_fetched_loaded_def reload_system_fetched_def split: prod.splits sum.splits)
  then show ?thesis by (auto simp: load_fetched_def confined_def split: prod.splits)
qed

lemma confined_classify:
  assumes "handle_classify env peer command ctx s = Some (r, s')"
  shows "confined (peer_uid peer) s s'"
proof -
  obtain c where c: "classify (sv_classifier s) command = Some c"
    using assms by (auto simp: handle_classify_def split: option.splits)
  from handle_classify_steps [OF assms c] obtain r1 s1 r2 s2 r3 where
    o: "with_overlay env peer command c s = (r1, s1)" and v: "with_osv env command r1 s1 = Some (r2, s2)"
    and t: "with_threat_level env peer command ctx r2 s2 = (r3, s')" by metis
  have "confined (peer_uid peer) s s1"
    using o confined_trans [OF confined_load_user confined_load_fetched] by (auto simp: with_overlay_def Let_def split: if_splits)
  moreover have "confined (peer_uid peer) s1 s2"
    using v by (auto simp: with_osv_def case_prod_unfold split: if_splits option.splits)
  moreover have "confined (peer_uid peer) s2 s'"
    using t by (auto simp: with_threat_level_def on_threat_def Let_def split: option.splits prod.splits bool.splits if_splits)
  ultimately show ?thesis by (blast intro: confined_trans)
qed

lemma confined_target: "resolve_target_uid peer target = Inr uid \<Longrightarrow> \<not> peer_root peer \<Longrightarrow> uid = peer_uid peer"
  by (auto simp: resolve_target_uid_def split: option.splits if_splits)

lemma confined_step:
  assumes "\<not> peer_root peer" and "dispatch env req peer s = Some (r, s')"
  shows "confined (peer_uid peer) s s'"
proof (cases req)
  case (Classify c x)
  with assms confined_classify show ?thesis by simp
next
  case (AtomsList sc t)
  show ?thesis
  proof (cases "resolve_target_uid peer t")
    case (Inr uid)
    with AtomsList assms confined_target [OF Inr] show ?thesis
      by (cases sc) (auto simp: handle_atoms_list_def Let_def confined_load_fetched confined_load_user)
  qed (use AtomsList assms in \<open>simp add: handle_atoms_list_def\<close>)
next
  case (TrustAdd h t)
  with assms show ?thesis
    by (auto simp: handle_trust_add_def dest!: confined_target split: sum.splits prod.splits
        intro: confined_on_trust [OF isop_persistent_add_trust trust_file_only_add_trust])
next
  case (SessionAddTrust h t)
  with assms show ?thesis
    by (auto simp: handle_session_add_trust_def dest!: confined_target split: sum.splits prod.splits
        intro: confined_session_adds)
next
  case (SessionAddUrlBlock h t)
  with assms show ?thesis
    by (auto simp: handle_session_add_url_block_def dest!: confined_target split: sum.splits prod.splits
        intro: confined_session_adds)
next
  case (SessionClear t)
  with assms session_ops_isolated(4) show ?thesis
    by (auto simp: handle_session_clear_def confined_def isolated_def dest!: confined_target split: sum.splits)
next
  case (UrlsList t)
  with assms show ?thesis
    by (auto simp: handle_urls_list_def Let_def confined_load_user dest!: confined_target split: sum.splits)
next
  case (TrustList t n)
  with assms show ?thesis
    by (auto simp: handle_trust_list_def Let_def confined_load_user dest!: confined_target split: sum.splits)
next
  case AtomsDrift
  have "files (snd (read_snapshot (se_os env) d p w)) = files w" for d p w
    by (auto simp: read_snapshot_def sys_read_def sys_def split: option.splits prod.splits sum.splits os_error.splits)
  with AtomsDrift assms show ?thesis by (auto simp: handle_atoms_drift_def split: prod.splits intro!: confined_same) (metis snd_conv)
next
  case (SetThreatLevel p l)
  with assms show ?thesis
    by (auto simp: handle_set_threat_level_def on_threat_def split: prod.splits sum.splits option.splits bool.splits)
next
  case (SetWatch p)
  with assms show ?thesis
    by (auto simp: handle_set_watch_def on_threat_def Let_def split: prod.splits sum.splits bool.splits if_splits)
next
  case (GetThreatLevel p)
  with assms show ?thesis
    by (auto simp: handle_get_threat_level_def on_threat_def Let_def split: prod.splits OwnerLookup.splits if_splits)
next
  case (SetProfile p)
  with assms show ?thesis
    by (auto simp: handle_set_profile_def store_armed_def Let_def split: prod.splits option.splits DenyAction.splits if_splits)
qed (use assms in \<open>auto simp: handle_report_metrics_def handle_atoms_add_def handle_atoms_remove_def handle_urls_allow_def
       handle_urls_block_def handle_urls_def handle_session_list_def handle_session_write_def Let_def
       split: prod.splits sum.splits\<close>)

text \<open>Requests one after the other, each with its own environment; \<open>None\<close> if one of them panics.\<close>

fun serve_requests :: "(server_env \<times> peer_cred \<times> request) list \<Rightarrow> server \<Rightarrow> (response list \<times> server) option" where
  "serve_requests [] s = Some ([], s)"
| "serve_requests ((env, peer, req) # rest) s =
     (case dispatch env req peer s of
        None \<Rightarrow> None
      | Some (r, s1) \<Rightarrow> map_option (\<lambda>(rs, s2). (r # rs, s2)) (serve_requests rest s1))"

definition confined_to :: "u32 set \<Rightarrow> server \<Rightarrow> server \<Rightarrow> bool" where
  "confined_to us s s' \<longleftrightarrow>
     data_root (sv_trust s') = data_root (sv_trust s)
     \<and> (\<forall>v. v \<notin> us \<longrightarrow> user_states (sv_trust s') v = user_states (sv_trust s) v)
     \<and> (\<forall>q. lookup_file (sv_world s') q \<noteq> lookup_file (sv_world s) q
          \<longrightarrow> (\<exists>u\<in>us. prefix (user_dir (data_root (sv_trust s)) u) q) \<and> trust_file_name q)"

lemma confined_to_one: "confined u s s' \<Longrightarrow> u \<in> us \<Longrightarrow> confined_to us s s'"
  by (auto simp: confined_def confined_to_def)

lemma confined_to_trans: "confined_to us a b \<Longrightarrow> confined_to us b c \<Longrightarrow> confined_to us a c"
  unfolding confined_to_def by metis

lemma serve_confined:
  assumes "\<forall>(env, peer, req)\<in>set reqs. \<not> peer_root peer \<and> peer_uid peer \<in> us"
    and "serve_requests reqs s = Some (rs, s')"
  shows "confined_to us s s'"
  using assms
proof (induction reqs arbitrary: s rs)
  case Nil
  then show ?case by (simp add: confined_to_def)
next
  case (Cons a reqs)
  obtain env peer req where a: "a = (env, peer, req)" by (cases a) auto
  from Cons.prems a obtain r s1 rs1 where d: "dispatch env req peer s = Some (r, s1)"
    and rest: "serve_requests reqs s1 = Some (rs1, s')"
    by (auto split: option.splits)
  from Cons.prems(1) a have "\<not> peer_root peer" "peer_uid peer \<in> us" by simp_all
  with confined_step [OF _ d] have "confined_to us s s1" by (blast intro: confined_to_one)
  moreover have "confined_to us s1 s'" using Cons.IH [OF _ rest] Cons.prems(1) by simp
  ultimately show ?case by (rule confined_to_trans)
qed

text \<open>
  C1. Callers that are not root are confined, whatever they send. After any sequence of requests of any kind by such callers, and
  under any faults of the file system, every other user's atoms, URLs, trusted hashes and session are as before; of all files
  only those of trusted hashes, in the directories of the callers, may differ; so the atoms and URL files of every user, the
  callers included, are as root left them.
\<close>

theorem unprivileged_confined:
  assumes "\<forall>(env, peer, req)\<in>set reqs. \<not> peer_root peer \<and> peer_uid peer \<in> us"
    and "serve_requests reqs s = Some (rs, s')"
  shows "(\<forall>v. v \<notin> us \<longrightarrow> (\<forall>scope. list_atoms (sv_trust s') v scope = list_atoms (sv_trust s) v scope)
        \<and> list_urls (sv_trust s') v = list_urls (sv_trust s) v
        \<and> list_persistent_trust (sv_trust s') v = list_persistent_trust (sv_trust s) v
        \<and> session_summary (sv_trust s') v = session_summary (sv_trust s) v)
    \<and> (\<forall>q. lookup_file (sv_world s') q \<noteq> lookup_file (sv_world s) q
        \<longrightarrow> (\<exists>u\<in>us. prefix (user_dir (data_root (sv_trust s)) u) q) \<and> trust_file_name q)
    \<and> (\<forall>v. lookup_file (sv_world s') (user_atoms_path (sv_trust s) v) = lookup_file (sv_world s) (user_atoms_path (sv_trust s) v)
        \<and> lookup_file (sv_world s') (user_urls_path (sv_trust s) v) = lookup_file (sv_world s) (user_urls_path (sv_trust s) v))"
proof -
  note C = serve_confined [OF assms]
  have names: "\<not> trust_file_name (user_atoms_path ts v)" "\<not> trust_file_name (user_urls_path ts v)" for ts v
    by (simp_all add: trust_file_name_def user_atoms_path_def user_urls_path_def)
  have "user_states (sv_trust s') v = user_states (sv_trust s) v" if "v \<notin> us" for v
    using C that by (simp add: confined_to_def)
  then show ?thesis using C names
    by (auto simp: confined_to_def list_atoms_def list_urls_def list_persistent_trust_def session_summary_def)
qed

theorem unprivileged_confined_witness:
  "\<exists>rs s'. serve_requests [(demo_env, \<lparr>peer_uid = 1000, peer_root = False\<rparr>, SessionAddTrust (replicate 64 CHR ''a'') None),
       (demo_env, \<lparr>peer_uid = 1000, peer_root = False\<rparr>, AtomsAdd ''curl evil'' None),
       (demo_env, \<lparr>peer_uid = 1000, peer_root = False\<rparr>, UrlsAllow ''evil.example'' (Some 2))] demo_server = Some (rs, s')
     \<and> list_urls (sv_trust s') 2 = [] \<and> lookup_file (sv_world s') (user_atoms_path (sv_trust demo_server) 1000)
         = lookup_file demo_world (user_atoms_path (sv_trust demo_server) 1000)"
proof -
  let ?p = "\<lparr>peer_uid = 1000, peer_root = False\<rparr>"
  let ?reqs = "[(demo_env, ?p, SessionAddTrust (replicate 64 CHR ''a'') None), (demo_env, ?p, AtomsAdd ''curl evil'' None),
      (demo_env, ?p, UrlsAllow ''evil.example'' (Some 2))]"
  obtain rs s' where r: "serve_requests ?reqs demo_server = Some (rs, s')"
    by (auto simp: option.map_comp case_prod_unfold)
  have "list_urls (sv_trust demo_server) 2 = []" by (simp add: list_urls_def trust_store_new_def)
  with unprivileged_confined [OF _ r, of "{1000}"] r show ?thesis by auto
qed

end
