(* ===== verification/Conn.thy ===== *)
theory Conn
  imports Server
begin

text \<open>
  Connections (\<open>server.rs\<close>): the gate of the accept loop, the loop of one connection over its lines, and the stream
  of a subscriber. The peer is the bytes it sends and whether the read then fails or the stream ends; what its lines mean as
  JSON and how a response is rendered are parameters, a request's effect is that of \<open>dispatch\<close>.
\<close>

section \<open>The connection cap\<close>

record daemon =
  dm_server :: server
  dm_in_flight :: nat

definition max_conn :: "nat \<Rightarrow> nat" where
  "max_conn cap = (if cap = 0 then 1 else cap)"

definition read_timeout :: "u64 \<Rightarrow> u64 option" where
  "read_timeout secs = (if 0 < secs then Some secs else None)"

text \<open>\<open>fetch_add\<close>, and \<open>fetch_sub\<close> at once if the previous value was at the cap.\<close>

definition accept_conn :: "nat \<Rightarrow> nat \<Rightarrow> bool \<times> nat" where
  "accept_conn cap n =
     (let prev = n; n = n + 1
      in if max_conn cap \<le> prev then (False, n - 1) else (True, n))"

text \<open>The guard of a connection: whether it still holds its slot. Both ways of giving it back disarm it.\<close>

definition release_now :: "bool \<times> nat \<Rightarrow> bool \<times> nat" where
  "release_now g = (case g of (armed, n) \<Rightarrow> if armed then (False, n - 1) else (armed, n))"

definition drop_guard :: "bool \<times> nat \<Rightarrow> nat" where
  "drop_guard g = (case g of (armed, n) \<Rightarrow> if armed then n - 1 else n)"

section \<open>Reading and writing\<close>

definition MAX_LINE_BYTES :: nat where "MAX_LINE_BYTES = 64 * 1024"
definition SUBSCRIBER_INBOX :: nat where "SUBSCRIBER_INBOX = 256"

datatype reception = Got response | Quiet int int | HungUp

record 'j conn_env =
  ce_parse :: "string \<Rightarrow> 'j option"
  ce_id :: "'j \<Rightarrow> u64 option"
  ce_request :: "'j \<Rightarrow> request option"
  ce_render :: "u64 \<Rightarrow> response \<Rightarrow> string option"
  ce_cred :: "int \<times> nat \<times> u32" \<comment> \<open>the answer of \<open>getsockopt\<close>\<close>
  ce_clone_fails :: bool
  ce_broken :: bool \<comment> \<open>after the bytes sent, a read fails\<close>
  ce_short :: "nat \<Rightarrow> nat option" \<comment> \<open>the \<open>k\<close>-th write fails after that many bytes\<close>
  ce_env :: "nat \<Rightarrow> server_env"
  ce_others :: "nat \<Rightarrow> daemon \<Rightarrow> daemon" \<comment> \<open>what the other threads do after the \<open>k\<close>-th line\<close>
  ce_received :: "reception list" \<comment> \<open>what the receiver of a subscription yields\<close>

record conn =
  cn_in :: string
  cn_out :: string
  cn_writes :: nat
  cn_armed :: bool

text \<open>\<open>take(64 KiB).read_line\<close>: up to a line feed, the limit or the end.\<close>

definition read_line :: "bool \<Rightarrow> string \<Rightarrow> (string \<times> string) option" where
  "read_line broken inp =
     (let n = length (takeWhile (\<lambda>c. c \<noteq> NL) inp)
      in if n < MAX_LINE_BYTES \<and> n < length inp then Some (take (n + 1) inp, drop (n + 1) inp)
         else if MAX_LINE_BYTES \<le> length inp then Some (take MAX_LINE_BYTES inp, drop MAX_LINE_BYTES inp)
         else if broken then None
         else Some (inp, []))"

definition write_all :: "'j conn_env \<Rightarrow> string \<Rightarrow> conn \<Rightarrow> bool \<times> conn" where
  "write_all ce b c =
     (case ce_short ce (cn_writes c) of
        None \<Rightarrow> (True, c\<lparr>cn_out := cn_out c @ b, cn_writes := cn_writes c + 1\<rparr>)
      | Some k \<Rightarrow> (False, c\<lparr>cn_out := cn_out c @ take k b, cn_writes := cn_writes c + 1\<rparr>))"

definition write_response :: "'j conn_env \<Rightarrow> u64 \<Rightarrow> response \<Rightarrow> conn \<Rightarrow> bool \<times> conn" where
  "write_response ce rid body c =
     (case ce_render ce rid body of
        None \<Rightarrow> (False, c)
      | Some s \<Rightarrow> (case write_all ce s c of (False, c) \<Rightarrow> (False, c) | (True, c) \<Rightarrow> write_all ce [NL] c))"

section \<open>The stream of a subscriber\<close>

datatype conn_end = ClosedOk | ConnFailed | ConnPanicked | StillOpen

definition EAGAIN :: int where "EAGAIN = 11"
definition EINTR :: int where "EINTR = 4"

text \<open>The result of peeking one byte, and the error number if it is negative.\<close>

definition peer_disconnected :: "int \<Rightarrow> int \<Rightarrow> bool" where
  "peer_disconnected n err \<longleftrightarrow> (if n < 0 then err \<noteq> EAGAIN \<and> err \<noteq> EINTR else True)"

fun stream_loop :: "'j conn_env \<Rightarrow> reception list \<Rightarrow> conn \<Rightarrow> conn_end \<times> conn" where
  "stream_loop ce [] c = (StillOpen, c)"
| "stream_loop ce (Got body # rs) c =
     (case write_response ce 0 body c of (True, c) \<Rightarrow> stream_loop ce rs c | (False, c) \<Rightarrow> (ClosedOk, c))"
| "stream_loop ce (Quiet n err # rs) c = (if peer_disconnected n err then (ClosedOk, c) else stream_loop ce rs c)"
| "stream_loop ce (HungUp # rs) c = (ClosedOk, c)"

text \<open>The end of the stream: out of the broadcast list, and the slot is dropped with the frame of the function.\<close>

definition end_subscription :: "u64 \<Rightarrow> u32 \<Rightarrow> server \<Rightarrow> server" where
  "end_subscription reg uid s =
     s\<lparr>sv_broadcast := deregister reg (sv_broadcast s), sv_slots := release_slot uid (sv_slots s)\<rparr>"

definition stream_warn_events :: "'j conn_env \<Rightarrow> nat \<Rightarrow> peer_cred \<Rightarrow> u64 \<Rightarrow> u32 \<Rightarrow> conn \<Rightarrow> daemon \<Rightarrow> conn_end \<times> conn \<times> daemon" where
  "stream_warn_events ce k peer rid tree_root c d =
     (let s = dm_server d;
          (reg, bc) = register (subscriber_new tree_root (new_inbox SUBSCRIBER_INBOX)) (sv_broadcast s);
          d = d\<lparr>dm_server := s\<lparr>sv_broadcast := bc\<rparr>\<rparr>;
          finish = (\<lambda>d. d\<lparr>dm_server := end_subscription reg (peer_uid peer) (dm_server d)\<rparr>)
      in case write_response ce rid RSubscribed c of
           (False, c) \<Rightarrow> (ConnFailed, c, finish d)
         | (True, c) \<Rightarrow>
             (case stream_loop ce (ce_received ce) c of
                (StillOpen, c) \<Rightarrow> (StillOpen, c, ce_others ce k d)
              | (e, c) \<Rightarrow> (e, c, finish (ce_others ce k d))))"

section \<open>The loop over the lines\<close>

definition reply :: "'j conn_env \<Rightarrow> u64 \<Rightarrow> response \<Rightarrow> conn \<Rightarrow> daemon \<Rightarrow> conn_end option \<times> conn \<times> daemon" where
  "reply ce rid body c d = (case write_response ce rid body c of (ok, c) \<Rightarrow> (if ok then None else Some ConnFailed, c, d))"

definition serve_subscribe ::
    "'j conn_env \<Rightarrow> nat \<Rightarrow> peer_cred \<Rightarrow> u64 \<Rightarrow> u32 \<Rightarrow> conn \<Rightarrow> daemon \<Rightarrow> conn_end option \<times> conn \<times> daemon" where
  "serve_subscribe ce k peer rid tree_root c d =
     (case warn_subscribe_denied (ce_env ce k) peer tree_root (dm_server d) of
        (Some m, s) \<Rightarrow> reply ce rid (RError m) c (d\<lparr>dm_server := s\<rparr>)
      | (None, s) \<Rightarrow>
          (case try_acquire (peer_uid peer) (sv_slots s) of
             (False, slots) \<Rightarrow> reply ce rid (RError MSubscriberLimit) c (d\<lparr>dm_server := s\<lparr>sv_slots := slots\<rparr>\<rparr>)
           | (True, slots) \<Rightarrow>
               (case release_now (cn_armed c, dm_in_flight d) of
                  (armed, n) \<Rightarrow>
                    (case stream_warn_events ce k peer rid tree_root (c\<lparr>cn_armed := armed\<rparr>)
                            (d\<lparr>dm_server := s\<lparr>sv_slots := slots\<rparr>, dm_in_flight := n\<rparr>) of
                       (e, c, d) \<Rightarrow> (Some e, c, d)))))"

definition serve_request ::
    "'j conn_env \<Rightarrow> nat \<Rightarrow> peer_cred \<Rightarrow> u64 \<Rightarrow> request \<Rightarrow> conn \<Rightarrow> daemon \<Rightarrow> conn_end option \<times> conn \<times> daemon" where
  "serve_request ce k peer rid req c d =
     (case req of
        SubscribeWarnEvents tree_root \<Rightarrow> serve_subscribe ce k peer rid tree_root c d
      | _ \<Rightarrow>
          (case dispatch (ce_env ce k) req peer (dm_server d) of
             None \<Rightarrow> (Some ConnPanicked, c, d)
           | Some (r, s) \<Rightarrow> reply ce rid r c (d\<lparr>dm_server := s\<rparr>)))"

definition serve_line ::
    "'j conn_env \<Rightarrow> nat \<Rightarrow> peer_cred \<Rightarrow> string \<Rightarrow> conn \<Rightarrow> daemon \<Rightarrow> conn_end option \<times> conn \<times> daemon" where
  "serve_line ce k peer body_text c d =
     (case ce_parse ce body_text of
        None \<Rightarrow> reply ce 0 (RError MInvalidJson) c d
      | Some j \<Rightarrow>
          let rid = (case ce_id ce j of Some i \<Rightarrow> i | None \<Rightarrow> 0)
          in case ce_request ce j of
               None \<Rightarrow> reply ce rid (RError MInvalidRequest) c d
             | Some req \<Rightarrow> serve_request ce k peer rid req c d)"

definition handle_step :: "'j conn_env \<Rightarrow> nat \<Rightarrow> peer_cred \<Rightarrow> conn \<Rightarrow> daemon \<Rightarrow> conn_end option \<times> conn \<times> daemon" where
  "handle_step ce k peer c d =
     (case read_line (ce_broken ce) (cn_in c) of
        None \<Rightarrow> (Some ConnFailed, c, d)
      | Some (line, rest) \<Rightarrow>
          let c = c\<lparr>cn_in := rest\<rparr>
          in if \<not> utf8_valid line then (Some ConnFailed, c, d)
             else if line = [] then (Some ClosedOk, c, d)
             else if length line = MAX_LINE_BYTES \<and> last line \<noteq> NL
             then (case reply ce 0 (RError MLineTooLong) c d of
                     (None, c, d) \<Rightarrow> (Some ClosedOk, c, d) | (Some e, c, d) \<Rightarrow> (Some e, c, d))
             else let body_text = str_trim line
                  in if body_text = [] then (None, c, d) else serve_line ce k peer body_text c d)"

text \<open>A line takes at least one byte, so the number of bytes sent is a bound on the iterations.\<close>

fun handle_loop :: "nat \<Rightarrow> 'j conn_env \<Rightarrow> nat \<Rightarrow> peer_cred \<Rightarrow> conn \<Rightarrow> daemon \<Rightarrow> (conn_end \<times> conn \<times> daemon) option" where
  "handle_loop 0 ce k peer c d = None"
| "handle_loop (Suc fuel) ce k peer c d =
     (case handle_step ce k peer c d of
        (Some e, c, d) \<Rightarrow> Some (e, c, d)
      | (None, c, d) \<Rightarrow> handle_loop fuel ce (k + 1) peer c (ce_others ce k d))"

definition close_conn :: "conn_end \<times> conn \<times> daemon \<Rightarrow> conn_end \<times> conn \<times> daemon" where
  "close_conn r = (case r of (e, c, d) \<Rightarrow>
     if e = StillOpen then (e, c, d)
     else (e, c\<lparr>cn_armed := False\<rparr>, d\<lparr>dm_in_flight := drop_guard (cn_armed c, dm_in_flight d)\<rparr>))"

definition handle_conn :: "nat \<Rightarrow> 'j conn_env \<Rightarrow> string \<Rightarrow> daemon \<Rightarrow> (conn_end \<times> conn \<times> daemon) option" where
  "handle_conn fuel ce sent d =
     (let c = \<lparr>cn_in = sent, cn_out = [], cn_writes = 0, cn_armed = True\<rparr>
      in case ce_cred ce of (rc, len, uid) \<Rightarrow>
         (case peer_from_stream rc len uid of
            Inl e \<Rightarrow> Some (close_conn (ConnFailed, c, d))
          | Inr peer \<Rightarrow>
              if ce_clone_fails ce then Some (close_conn (ConnFailed, c, d))
              else map_option close_conn (handle_loop fuel ce 0 peer c d)))"

section \<open>Every connection ends and gives its slot back once\<close>

lemma read_line_split:
  assumes "read_line broken inp = Some (line, rest)"
  shows "inp = line @ rest" and "length line \<le> MAX_LINE_BYTES" and "line = [] \<Longrightarrow> inp = []"
  using assms by (auto simp: read_line_def Let_def MAX_LINE_BYTES_def split: if_splits)

lemma write_all_frame: "write_all ce b c = (ok, c') \<Longrightarrow> cn_in c' = cn_in c \<and> cn_armed c' = cn_armed c"
  by (auto simp: write_all_def split: option.splits)

lemma write_response_frame: "write_response ce rid body c = (ok, c') \<Longrightarrow> cn_in c' = cn_in c \<and> cn_armed c' = cn_armed c"
  by (auto simp: write_response_def split: option.splits prod.splits bool.splits dest!: write_all_frame)

lemma reply_frame: "reply ce rid body c d = (e, c', d') \<Longrightarrow> cn_in c' = cn_in c \<and> cn_armed c' = cn_armed c \<and> d' = d \<and> e \<in> {None, Some ConnFailed}"
  by (auto simp: reply_def split: prod.splits if_splits dest!: write_response_frame)

lemma stream_loop_frame: "stream_loop ce rs c = (e, c') \<Longrightarrow> cn_armed c' = cn_armed c \<and> e \<in> {ClosedOk, StillOpen}"
  by (induction ce rs c rule: stream_loop.induct)
     (auto split: prod.splits bool.splits if_splits dest!: write_response_frame)

lemma serve_request_other:
  "\<nexists>t. req = SubscribeWarnEvents t \<Longrightarrow> serve_request ce k peer rid req c d =
     (case dispatch (ce_env ce k) req peer (dm_server d) of
        None \<Rightarrow> (Some ConnPanicked, c, d)
      | Some (r, s) \<Rightarrow> reply ce rid r c (d\<lparr>dm_server := s\<rparr>))"
  by (cases req) (simp_all add: serve_request_def)

text \<open>
  What a step does to the guard: the slot is held until the connection ends or becomes a stream, and only then the
  count goes down.
\<close>

definition guard_ok :: "conn \<times> daemon \<Rightarrow> conn_end option \<times> conn \<times> daemon \<Rightarrow> bool" where
  "guard_ok a r \<longleftrightarrow> (case (a, r) of ((c, d), (e, c', d')) \<Rightarrow>
     (e = None \<longrightarrow> cn_in c' = cn_in c \<and> cn_armed c' = cn_armed c \<and> dm_in_flight d' = dm_in_flight d)
     \<and> (e = Some StillOpen \<longrightarrow> \<not> cn_armed c')
     \<and> drop_guard (cn_armed c', dm_in_flight d') = drop_guard (cn_armed c, dm_in_flight d))"

lemma guard_ok_reply: "guard_ok (c, d) (reply ce rid body c (d\<lparr>dm_server := s\<rparr>))"
  by (cases "reply ce rid body c (d\<lparr>dm_server := s\<rparr>)") (auto simp: guard_ok_def dest!: reply_frame)

lemma guard_ok_reply': "guard_ok (c, d) (reply ce rid body c d)"
  by (cases "reply ce rid body c d") (auto simp: guard_ok_def dest!: reply_frame)

lemma stream_frame:
  assumes "stream_warn_events ce k peer rid tree_root c d = (e, c', d')" and "\<And>k d. ce_others ce k d = d"
  shows "cn_armed c' = cn_armed c \<and> dm_in_flight d' = dm_in_flight d"
proof -
  obtain ok c1 where w: "write_response ce rid RSubscribed c = (ok, c1)" by fastforce
  obtain e2 c2 where l: "stream_loop ce (ce_received ce) c1 = (e2, c2)" by fastforce
  show ?thesis
    using assms w l write_response_frame [OF w] stream_loop_frame [OF l]
    by (cases ok; cases e2) (auto simp: stream_warn_events_def Let_def split: prod.splits)
qed

lemma guard_ok_subscribe:
  assumes "\<And>k d. ce_others ce k d = d"
  shows "guard_ok (c, d) (serve_subscribe ce k peer rid tree_root c d)"
proof -
  obtain m s where m: "warn_subscribe_denied (ce_env ce k) peer tree_root (dm_server d) = (m, s)" by fastforce
  show ?thesis
  proof (cases m)
    case None
    obtain granted slots where a: "try_acquire (peer_uid peer) (sv_slots s) = (granted, slots)" by fastforce
    show ?thesis
    proof (cases granted)
      case True
      obtain armed n where g: "release_now (cn_armed c, dm_in_flight d) = (armed, n)" by fastforce
      obtain e c' d' where w: "stream_warn_events ce k peer rid tree_root (c\<lparr>cn_armed := armed\<rparr>)
          (d\<lparr>dm_server := s\<lparr>sv_slots := slots\<rparr>, dm_in_flight := n\<rparr>) = (e, c', d')"
        by (metis prod_cases3)
      from stream_frame [OF w assms] g m None a True w show ?thesis
        by (auto simp: serve_subscribe_def guard_ok_def release_now_def drop_guard_def split: if_splits)
    qed (use m None a guard_ok_reply in \<open>simp add: serve_subscribe_def\<close>)
  qed (use m guard_ok_reply in \<open>simp add: serve_subscribe_def\<close>)
qed

lemma guard_ok_line:
  assumes "\<And>k d. ce_others ce k d = d"
  shows "guard_ok (c, d) (serve_line ce k peer body_text c d)"
proof -
  have "guard_ok (c, d) (serve_request ce k peer rid req c d)" for rid req
  proof (cases "\<exists>t. req = SubscribeWarnEvents t")
    case True
    then show ?thesis using guard_ok_subscribe [OF assms] by (auto simp: serve_request_def)
  next
    case False
    then show ?thesis
      by (auto simp: serve_request_other guard_ok_reply split: option.split prod.split) (simp add: guard_ok_def)
  qed
  then show ?thesis by (simp add: serve_line_def guard_ok_reply' Let_def split: option.split)
qed

lemma subscribe_consumes:
  "serve_subscribe ce k peer rid tree_root c d = (None, c', d') \<Longrightarrow> cn_in c' = cn_in c"
  by (auto simp: serve_subscribe_def split: prod.splits option.splits bool.splits dest!: reply_frame)

lemma line_consumes: "serve_line ce k peer body_text c d = (None, c', d') \<Longrightarrow> cn_in c' = cn_in c"
proof -
  assume l: "serve_line ce k peer body_text c d = (None, c', d')"
  have "cn_in c' = cn_in c" if q: "serve_request ce k peer rid req c d = (None, c', d')" for rid req
  proof (cases "\<exists>t. req = SubscribeWarnEvents t")
    case True
    with q subscribe_consumes show ?thesis by (auto simp: serve_request_def)
  next
    case False
    with q show ?thesis by (simp add: serve_request_other) (auto split: option.splits prod.splits dest!: reply_frame)
  qed
  with l show ?thesis by (auto simp: serve_line_def Let_def split: option.splits dest!: reply_frame)
qed

lemma handle_step_consumes:
  assumes "handle_step ce k peer c d = (None, c', d')"
  shows "length (cn_in c') < length (cn_in c)"
proof -
  obtain line rest where r: "read_line (ce_broken ce) (cn_in c) = Some (line, rest)"
    using assms by (auto simp: handle_step_def split: option.splits)
  have "cn_in c' = rest \<and> line \<noteq> []"
    using assms r by (auto simp: handle_step_def Let_def split: if_splits prod.splits option.splits dest!: line_consumes)
  with read_line_split(1) [OF r] show ?thesis by auto
qed

lemma handle_step_guard:
  assumes "\<And>k d. ce_others ce k d = d" and "handle_step ce k peer c d = (e, c', d')"
  shows "(e = None \<longrightarrow> length (cn_in c') < length (cn_in c) \<and> cn_armed c' = cn_armed c \<and> dm_in_flight d' = dm_in_flight d)
    \<and> (e = Some StillOpen \<longrightarrow> \<not> cn_armed c')
    \<and> drop_guard (cn_armed c', dm_in_flight d') = drop_guard (cn_armed c, dm_in_flight d)"
proof (cases "read_line (ce_broken ce) (cn_in c)")
  case (Some r)
  obtain line rest where r: "r = (line, rest)" by fastforce
  have less: "line \<noteq> [] \<Longrightarrow> length rest < length (cn_in c)" using read_line_split(1) [OF Some [unfolded r]] by simp
  let ?c = "c\<lparr>cn_in := rest\<rparr>"
  have long: "guard_ok (?c, d) (reply ce 0 (RError MLineTooLong) ?c d)" by (rule guard_ok_reply')
  have line: "guard_ok (?c, d) (serve_line ce k peer (str_trim line) ?c d)" by (rule guard_ok_line [OF assms(1)])
  show ?thesis
  proof (cases "utf8_valid line \<and> line \<noteq> [] \<and> \<not> (length line = MAX_LINE_BYTES \<and> last line \<noteq> NL) \<and> str_trim line \<noteq> []")
    case True
    with assms(2) Some r have "serve_line ce k peer (str_trim line) ?c d = (e, c', d')" by (simp add: handle_step_def Let_def)
    with line less True show ?thesis by (auto simp: guard_ok_def)
  next
    case False
    with assms(2) Some r long less show ?thesis
      by (auto simp: handle_step_def Let_def guard_ok_def split: if_splits prod.splits option.splits dest!: reply_frame)
  qed
qed (use assms in \<open>auto simp: handle_step_def\<close>)

lemma handle_loop_guard:
  assumes "\<And>k d. ce_others ce k d = d" and "handle_loop fuel ce k peer c d = Some (e, c', d')"
  shows "(e = StillOpen \<longrightarrow> \<not> cn_armed c') \<and> drop_guard (cn_armed c', dm_in_flight d') = drop_guard (cn_armed c, dm_in_flight d)"
  using assms(2)
proof (induction fuel arbitrary: k c d)
  case (Suc fuel)
  obtain e1 c1 d1 where s: "handle_step ce k peer c d = (e1, c1, d1)" by (cases "handle_step ce k peer c d") auto
  show ?case
  proof (cases e1)
    case None
    with Suc.prems s assms(1) have "handle_loop fuel ce (k + 1) peer c1 d1 = Some (e, c', d')" by simp
    with Suc.IH [of "k + 1" c1 d1] handle_step_guard [OF assms(1) s] None show ?thesis by auto
  qed (use Suc.prems s handle_step_guard [OF assms(1) s] in auto)
qed simp

lemma handle_loop_total: "length (cn_in c) < fuel \<Longrightarrow> \<exists>r. handle_loop fuel ce k peer c d = Some r"
proof (induction fuel arbitrary: k c d)
  case (Suc fuel)
  obtain e c' d' where s: "handle_step ce k peer c d = (e, c', d')" by (cases "handle_step ce k peer c d") auto
  show ?case
  proof (cases e)
    case None
    have "length (cn_in c') < length (cn_in c)"
      using handle_step_consumes s None by blast
    then have "length (cn_in c') < fuel" using Suc.prems by simp
    with Suc.IH s None show ?thesis by simp
  qed (use s in simp)
qed simp

text \<open>
  C9. Every connection is served to its end and gives its slot back exactly once. Whatever bytes a peer sends, however reads
  and writes fail, and whatever its requests do, the loop ends after at most one iteration per byte (or the connection has become
  an open stream, which no longer counts), and the number of connections in flight is one less than when the connection was
  accepted, on every path: end of the stream, read and write errors, a line that is too long or not text, a panic, a subscription.
\<close>

theorem connection_ends:
  assumes "\<And>k d. ce_others ce k d = d" and "length sent < fuel" and "0 < dm_in_flight d"
  shows "\<exists>e c' d'. handle_conn fuel ce sent d = Some (e, c', d') \<and> \<not> cn_armed c' \<and> dm_in_flight d' = dm_in_flight d - 1"
proof -
  let ?c = "\<lparr>cn_in = sent, cn_out = [], cn_writes = 0, cn_armed = True\<rparr>"
  obtain rc len uid where cred: "ce_cred ce = (rc, len, uid)" by (metis prod_cases3)
  show ?thesis
  proof (cases "\<exists>peer. peer_from_stream rc len uid = Inr peer \<and> \<not> ce_clone_fails ce")
    case True
    then obtain peer where p: "peer_from_stream rc len uid = Inr peer" "\<not> ce_clone_fails ce" by blast
    obtain e c' d' where l: "handle_loop fuel ce 0 peer ?c d = Some (e, c', d')"
      using handle_loop_total [of ?c fuel ce 0 peer d] assms(2) by (metis conn.select_convs(1) prod_cases3)
    from handle_loop_guard [OF assms(1) l] p l cred show ?thesis
      by (auto simp: handle_conn_def close_conn_def drop_guard_def)
  next
    case False
    then have "handle_conn fuel ce sent d = Some (close_conn (ConnFailed, ?c, d))"
      using cred by (auto simp: handle_conn_def Let_def split: sum.split)
    then show ?thesis by (simp add: close_conn_def drop_guard_def)
  qed
qed

section \<open>The cap on connections\<close>

text \<open>
  The connections that run: whether each still holds its slot. \<open>Arrive\<close> is an accept, \<open>Upgrade\<close> the handing back of a slot at a
  subscription, \<open>Finish\<close> the end of a handler, by return or panic.
\<close>

datatype conn_event = Arrive | Upgrade nat | Finish nat

fun conn_event_step :: "nat \<Rightarrow> conn_event \<Rightarrow> bool list \<times> nat \<Rightarrow> bool list \<times> nat" where
  "conn_event_step cap Arrive (gs, n) = (case accept_conn cap n of (ok, n) \<Rightarrow> (if ok then gs @ [True] else gs, n))"
| "conn_event_step cap (Upgrade i) (gs, n) =
     (if i < length gs then (case release_now (gs ! i, n) of (armed, n) \<Rightarrow> (gs[i := armed], n)) else (gs, n))"
| "conn_event_step cap (Finish i) (gs, n) =
     (if i < length gs then (drop_nth i gs, drop_guard (gs ! i, n)) else (gs, n))"

definition holders :: "bool list \<Rightarrow> nat" where "holders gs = count_list gs True"

lemma count_list_update:
  "i < length xs \<Longrightarrow> count_list (xs[i := y]) x + (if xs ! i = x then 1 else 0) = count_list xs x + (if y = x then 1 else 0)"
proof (induction xs arbitrary: i)
  case (Cons z xs)
  show ?case
  proof (cases i)
    case (Suc j)
    with Cons.prems Cons.IH [of j] show ?thesis by auto
  qed simp
qed simp

lemma conn_event_step_ok:
  assumes "n = holders gs" and "holders gs \<le> max_conn cap" and "conn_event_step cap ev (gs, n) = (gs', n')"
  shows "n' = holders gs' \<and> holders gs' \<le> max_conn cap"
proof (cases ev)
  case Arrive
  with assms show ?thesis by (auto simp: accept_conn_def holders_def Let_def split: if_splits)
next
  case (Upgrade i)
  show ?thesis
  proof (cases "i < length gs")
    case True
    with assms Upgrade count_list_update [OF True, of False True] show ?thesis
      by (cases "gs ! i") (auto simp: release_now_def holders_def)
  qed (use assms Upgrade in auto)
next
  case (Finish i)
  show ?thesis
  proof (cases "i < length gs")
    case True
    with assms Finish count_list_drop_nth [OF True, of True] show ?thesis
      by (cases "gs ! i") (auto simp: drop_guard_def holders_def)
  qed (use assms Finish in auto)
qed

text \<open>
  C26. The cap on connections is exact and never locks the daemon. After any sequence of arrivals, upgrades to a
  subscription and departures, the counter is the number of connections that hold a slot, at most the cap (1 if it is configured as 0);
  an arrival is admitted exactly if fewer than that hold one; and when all have gone the next one is admitted.
\<close>

theorem connection_cap_exact:
  assumes "fold (conn_event_step cap) evs ([], 0) = (gs, n)"
  shows "n = holders gs \<and> n \<le> max_conn cap \<and> (fst (accept_conn cap n) \<longleftrightarrow> holders gs < max_conn cap)
    \<and> (gs = [] \<longrightarrow> fst (accept_conn cap n))"
proof -
  have "n' = holders gs' \<and> holders gs' \<le> max_conn cap"
    if "fold (conn_event_step cap) evs (gs0, n0) = (gs', n')" "n0 = holders gs0" "holders gs0 \<le> max_conn cap" for gs0 n0 gs' n'
    using that
  proof (induction evs arbitrary: gs0 n0)
    case (Cons ev evs)
    obtain gs1 n1 where s: "conn_event_step cap ev (gs0, n0) = (gs1, n1)" by fastforce
    with conn_event_step_ok [OF Cons.prems(2,3) s] Cons.IH [of gs1 n1] Cons.prems(1) show ?case by simp
  qed simp
  from this [OF assms] have "n = holders gs \<and> holders gs \<le> max_conn cap" by (simp add: holders_def)
  then show ?thesis by (auto simp: accept_conn_def holders_def max_conn_def Let_def)
qed

section \<open>The lines of a connection are answered in order\<close>

text \<open>What one line is answered, if it is not blank: the reference the loop is compared with.\<close>

definition answer_line :: "'j conn_env \<Rightarrow> nat \<Rightarrow> peer_cred \<Rightarrow> string \<Rightarrow> daemon \<Rightarrow> ((u64 \<times> response) list \<times> daemon) option" where
  "answer_line ce k peer line d =
     (let body_text = str_trim line
      in if body_text = [] then Some ([], d)
         else case ce_parse ce body_text of
                None \<Rightarrow> Some ([(0, RError MInvalidJson)], d)
              | Some j \<Rightarrow>
                  let rid = (case ce_id ce j of Some i \<Rightarrow> i | None \<Rightarrow> 0)
                  in case ce_request ce j of
                       None \<Rightarrow> Some ([(rid, RError MInvalidRequest)], d)
                     | Some req \<Rightarrow>
                         map_option (\<lambda>(r, s). ([(rid, r)], d\<lparr>dm_server := s\<rparr>)) (dispatch (ce_env ce k) req peer (dm_server d)))"

fun answer_lines :: "'j conn_env \<Rightarrow> nat \<Rightarrow> peer_cred \<Rightarrow> string list \<Rightarrow> daemon \<Rightarrow> ((u64 \<times> response) list \<times> daemon) option" where
  "answer_lines ce k peer [] d = Some ([], d)"
| "answer_lines ce k peer (l # ls) d =
     (case answer_line ce k peer l d of
        None \<Rightarrow> None
      | Some (a, d1) \<Rightarrow> map_option (\<lambda>(b, d2). (a @ b, d2)) (answer_lines ce (k + 1) peer ls (ce_others ce k d1)))"

definition rendered :: "'j conn_env \<Rightarrow> (u64 \<times> response) list \<Rightarrow> string" where
  "rendered ce as = concat (map (\<lambda>(rid, r). the (ce_render ce rid r) @ [NL]) as)"

text \<open>A line with its line feed, and the rest after the last one.\<close>

definition line_ok :: "string \<Rightarrow> bool" where
  "line_ok l \<longleftrightarrow> NL \<notin> set l \<and> length l < MAX_LINE_BYTES \<and> utf8_valid l"

definition raw_lines :: "string list \<Rightarrow> string \<Rightarrow> string list" where
  "raw_lines lines rest = map (\<lambda>l. l @ [NL]) lines @ (if rest = [] then [] else [rest])"

definition well_behaved :: "'j conn_env \<Rightarrow> bool" where
  "well_behaved ce \<longleftrightarrow> \<not> ce_broken ce \<and> (\<forall>k. ce_short ce k = None) \<and> (\<forall>rid r. ce_render ce rid r \<noteq> None)"

lemma write_response_ok:
  assumes "well_behaved ce"
  shows "\<exists>n. write_response ce rid body c = (True, c\<lparr>cn_out := cn_out c @ the (ce_render ce rid body) @ [NL], cn_writes := n\<rparr>)"
  using assms by (auto simp: well_behaved_def write_response_def write_all_def split: option.splits)

lemma reply_ok:
  assumes "well_behaved ce"
  shows "\<exists>n. reply ce rid body c d = (None, c\<lparr>cn_out := cn_out c @ rendered ce [(rid, body)], cn_writes := n\<rparr>, d)"
  using write_response_ok [OF assms, of rid body c] by (auto simp: reply_def rendered_def)

lemma takeWhile_line:
  "NL \<notin> set l \<Longrightarrow> takeWhile (\<lambda>c. c \<noteq> NL) (l @ NL # rest) = l" "NL \<notin> set l \<Longrightarrow> takeWhile (\<lambda>c. c \<noteq> NL) l = l"
  by (induction l) auto

lemma read_line_terminated: "line_ok l \<Longrightarrow> read_line broken (l @ NL # rest) = Some (l @ [NL], rest)"
  by (simp add: read_line_def Let_def line_ok_def takeWhile_line(1))

lemma read_line_last: "line_ok l \<Longrightarrow> read_line False l = Some (l, [])"
  by (simp add: read_line_def Let_def line_ok_def takeWhile_line(2))

lemma serve_line_answer:
  assumes "well_behaved ce" and "answer_line ce k peer line d = Some (as, d')" and "str_trim line \<noteq> []"
  shows "\<exists>n. serve_line ce k peer (str_trim line) c d = (None, c\<lparr>cn_out := cn_out c @ rendered ce as, cn_writes := n\<rparr>, d')"
proof (cases "ce_parse ce (str_trim line)")
  case None
  with assms show ?thesis using reply_ok [OF assms(1), of 0 "RError MInvalidJson" c d]
    by (simp add: answer_line_def serve_line_def)
next
  case (Some j)
  obtain rid where rid_def: "rid = (case ce_id ce j of Some i \<Rightarrow> i | None \<Rightarrow> 0)" by blast
  show ?thesis
  proof (cases "ce_request ce j")
    case None
    with Some assms show ?thesis using reply_ok [OF assms(1), of rid "RError MInvalidRequest" c d]
      by (simp add: answer_line_def serve_line_def rid_def)
  next
    case (Some req)
    with \<open>ce_parse ce (str_trim line) = Some j\<close> assms(2,3) obtain r s where
      d: "dispatch (ce_env ce k) req peer (dm_server d) = Some (r, s)" and out: "as = [(rid, r)]" "d' = d\<lparr>dm_server := s\<rparr>"
      by (auto simp: answer_line_def rid_def Let_def)
    then have "\<nexists>t. req = SubscribeWarnEvents t" by auto
    with d out Some \<open>ce_parse ce (str_trim line) = Some j\<close> show ?thesis
      using reply_ok [OF assms(1), of rid r c "d\<lparr>dm_server := s\<rparr>"]
      by (simp add: serve_line_def serve_request_other rid_def)
  qed
qed

lemma handle_step_answer:
  assumes "well_behaved ce" and "read_line (ce_broken ce) (cn_in c) = Some (line, rest)"
    and "line = l @ [NL] \<or> (line = l \<and> l \<noteq> [])" and "line_ok l" and "answer_line ce k peer line d = Some (as, d')"
  shows "\<exists>n. handle_step ce k peer c d = (None, c\<lparr>cn_in := rest, cn_out := cn_out c @ rendered ce as, cn_writes := n\<rparr>, d')"
proof -
  have "utf8_valid [NL]" by (rule ascii_valid) (simp add: ascii_def)
  then have line: "utf8_valid line" "line \<noteq> []" "\<not> (length line = MAX_LINE_BYTES \<and> last line \<noteq> NL)"
    using assms(3,4) utf8_valid_append [of l "[NL]"] by (auto simp: line_ok_def)
  show ?thesis
  proof (cases "str_trim line = []")
    case True
    with assms(5) have "as = [] \<and> d' = d" by (simp add: answer_line_def)
    moreover have "c\<lparr>cn_in := rest, cn_out := cn_out c, cn_writes := cn_writes c\<rparr> = c\<lparr>cn_in := rest\<rparr>" by simp
    ultimately show ?thesis using True line assms(2)
      by (intro exI [of _ "cn_writes c"]) (auto simp: handle_step_def rendered_def Let_def)
  next
    case False
    from serve_line_answer [OF assms(1,5) False, of "c\<lparr>cn_in := rest\<rparr>"] False line assms(2) show ?thesis
      by (auto simp: handle_step_def Let_def)
  qed
qed

lemma rendered_append: "rendered ce (as @ bs) = rendered ce as @ rendered ce bs"
  by (simp add: rendered_def)

lemma handle_loop_lines:
  assumes "well_behaved ce" and "\<forall>l\<in>set lines. line_ok l" and "line_ok rest"
    and "answer_lines ce k peer (raw_lines lines rest) d = Some (as, d')"
    and "cn_in c = concat (raw_lines lines rest)" and "length (cn_in c) < fuel"
  shows "\<exists>n. handle_loop fuel ce k peer c d = Some (ClosedOk, c\<lparr>cn_in := [], cn_out := cn_out c @ rendered ce as, cn_writes := n\<rparr>, d')"
  using assms(2-6)
proof (induction lines arbitrary: fuel k c d as)
  case Nil
  have nb: "ce_broken ce = False" using assms(1) by (simp add: well_behaved_def)
  have empty: "handle_step ce j peer c d = (Some ClosedOk, c, d)" if "cn_in c = []" for j c d
    using that nb by (simp add: handle_step_def read_line_def MAX_LINE_BYTES_def)
  show ?case
  proof (cases "rest = []")
    case True
    with Nil.prems have "as = [] \<and> d' = d" "cn_in c = []" by (simp_all add: raw_lines_def)
    then show ?thesis using Nil.prems(5) empty [of c k d]
      by (intro exI [of _ "cn_writes c"]) (cases fuel; simp add: rendered_def)
  next
    case False
    with Nil.prems have inp: "cn_in c = rest" by (simp add: raw_lines_def)
    with False Nil.prems(3) obtain d1 where a: "answer_line ce k peer rest d = Some (as, d1)" "d' = ce_others ce k d1"
      by (auto simp: raw_lines_def split: option.splits)
    have "read_line (ce_broken ce) (cn_in c) = Some (rest, [])" using inp nb read_line_last [OF Nil.prems(2)] by simp
    from handle_step_answer [OF assms(1) this _ Nil.prems(2) a(1)] False obtain n where
      s: "handle_step ce k peer c d = (None, c\<lparr>cn_in := [], cn_out := cn_out c @ rendered ce as, cn_writes := n\<rparr>, d1)" by blast
    obtain f where f: "fuel = Suc (Suc f)" using Nil.prems(5) inp False by (cases fuel; cases "fuel - 1") auto
    show ?thesis using s a(2) empty by (intro exI [of _ n]) (simp add: f)
  qed
next
  case (Cons l lines)
  obtain a d1 b where a: "answer_line ce k peer (l @ [NL]) d = Some (a, d1)"
    and b: "answer_lines ce (k + 1) peer (raw_lines lines rest) (ce_others ce k d1) = Some (b, d')" and as: "as = a @ b"
    using Cons.prems(3) by (auto simp: raw_lines_def split: option.splits)
  have l: "line_ok l" using Cons.prems(1) by simp
  have inp: "cn_in c = l @ NL # concat (raw_lines lines rest)" using Cons.prems(4) by (simp add: raw_lines_def)
  with read_line_terminated [OF l] have "read_line (ce_broken ce) (cn_in c) = Some (l @ [NL], concat (raw_lines lines rest))" by simp
  from handle_step_answer [OF assms(1) this _ l a] obtain n where
    s: "handle_step ce k peer c d = (None, c\<lparr>cn_in := concat (raw_lines lines rest), cn_out := cn_out c @ rendered ce a, cn_writes := n\<rparr>, d1)"
    by blast
  let ?c = "c\<lparr>cn_in := concat (raw_lines lines rest), cn_out := cn_out c @ rendered ce a, cn_writes := n\<rparr>"
  obtain f where f: "fuel = Suc f" using Cons.prems(5) by (cases fuel) auto
  have "length (cn_in ?c) < f" using Cons.prems(5) inp f by simp
  with Cons.IH [of "k + 1" "ce_others ce k d1" b ?c f] Cons.prems(1,2) b obtain n2 where
    "handle_loop f ce (k + 1) peer ?c (ce_others ce k d1)
      = Some (ClosedOk, ?c\<lparr>cn_in := [], cn_out := cn_out ?c @ rendered ce b, cn_writes := n2\<rparr>, d')" by auto
  then show ?case using s by (intro exI [of _ n2]) (simp add: f as rendered_append)
qed

lemma answer_line_count:
  "answer_line ce k peer l d = Some (as, d') \<Longrightarrow> length as = (if str_trim l = [] then 0 else 1)"
  by (auto simp: answer_line_def Let_def split: if_splits option.splits)

lemma answer_lines_count:
  "answer_lines ce k peer ls d = Some (as, d') \<Longrightarrow> length as = length (filter (\<lambda>l. str_trim l \<noteq> []) ls)"
proof (induction ls arbitrary: k d as)
  case (Cons l ls)
  obtain a d1 b where a: "answer_line ce k peer l d = Some (a, d1)"
    and b: "answer_lines ce (k + 1) peer ls (ce_others ce k d1) = Some (b, d')" and as: "as = a @ b"
    using Cons.prems by (auto split: option.splits)
  from answer_line_count [OF a] Cons.IH [OF b] show ?case by (simp add: as)
qed simp

text \<open>
  C8. The lines of a connection are answered one by one, in order, to the last. If the peer's lines are well-formed text of at most
  64 KiB, none of them subscribes and the classifier does not panic, and reads and writes work, then the connection
  is served to the end of the stream, every line that is not blank has exactly one answer, with its own number and in its
  place, whatever the other threads do in between, an unterminated last line included; a line that is not JSON or not a request
  is answered with an error and does not end the connection; and nothing else is written.
\<close>

theorem lines_answered_in_order:
  assumes "well_behaved ce" and "ce_cred ce = (0, UCRED_LEN, uid)" and "\<not> ce_clone_fails ce"
    and "\<forall>l\<in>set lines. line_ok l" and "line_ok rest"
    and "answer_lines ce 0 \<lparr>peer_uid = uid, peer_root = (uid = 0)\<rparr> (raw_lines lines rest) d = Some (as, d')"
    and "sent = concat (raw_lines lines rest)" and "length sent < fuel"
  shows "\<exists>c. handle_conn fuel ce sent d = Some (ClosedOk, c, d'\<lparr>dm_in_flight := dm_in_flight d' - 1\<rparr>)
    \<and> cn_out c = rendered ce as \<and> cn_in c = []
    \<and> length as = length (filter (\<lambda>l. str_trim l \<noteq> []) (raw_lines lines rest))"
proof -
  let ?peer = "\<lparr>peer_uid = uid, peer_root = (uid = 0)\<rparr>" and ?c = "\<lparr>cn_in = sent, cn_out = [], cn_writes = 0, cn_armed = True\<rparr>"
  obtain n where "handle_loop fuel ce 0 ?peer ?c d = Some (ClosedOk, ?c\<lparr>cn_in := [], cn_out := cn_out ?c @ rendered ce as, cn_writes := n\<rparr>, d')"
    using handle_loop_lines [OF assms(1,4,5,6), of ?c fuel] assms(7,8) by auto
  then show ?thesis
    using assms(2,3) answer_lines_count [OF assms(6)]
    by (simp add: handle_conn_def peer_from_stream_def close_conn_def drop_guard_def)
qed

text \<open>A peer whose lines all ask for the version, and a careless one.\<close>

abbreviation demo_conn :: "string conn_env" where
  "demo_conn \<equiv> \<lparr>ce_parse = Some, ce_id = (\<lambda>_. None), ce_request = (\<lambda>_. Some Health), ce_render = (\<lambda>_ _. Some ''y''),
     ce_cred = (0, 12, 1000), ce_clone_fails = False, ce_broken = False, ce_short = (\<lambda>_. None), ce_env = (\<lambda>_. demo_env),
     ce_others = (\<lambda>_ d. d), ce_received = []\<rparr>"

theorem lines_answered_in_order_witness:
  "\<exists>c d'. handle_conn 20 demo_conn (''a'' @ [NL] @ [NL] @ ''b'') \<lparr>dm_server = demo_server, dm_in_flight = 3\<rparr> = Some (ClosedOk, c, d')
     \<and> cn_out c = ''y'' @ [NL] @ ''y'' @ [NL]"
proof -
  let ?d = "\<lparr>dm_server = demo_server, dm_in_flight = 3\<rparr>" and ?as = "[(0, RHealth ''0''), (0, RHealth ''0'')]"
  have trims: "str_trim (''a'' @ [NL]) = ''a''" "str_trim [NL] = []" "str_trim ''b'' = ''b''" by code_simp+
  have ok: "line_ok ''a''" "line_ok []" "line_ok ''b''"
    by (auto simp: line_ok_def MAX_LINE_BYTES_def ascii_def intro!: ascii_valid)
  have wb: "well_behaved demo_conn" by (simp add: well_behaved_def)
  have raw: "raw_lines [''a'', []] ''b'' = [''a'' @ [NL], [NL], ''b'']" by (simp add: raw_lines_def)
  have ans: "answer_lines demo_conn 0 \<lparr>peer_uid = 1000, peer_root = (1000 = (0 :: u32))\<rparr> (raw_lines [''a'', []] ''b'') ?d = Some (?as, ?d)"
    unfolding raw using trims by (simp add: answer_line_def handle_health_def Let_def)
  show ?thesis
    using lines_answered_in_order [OF wb _ _ _ ok(3) ans refl, of 20] ok raw
    by (auto simp: UCRED_LEN_def rendered_def)
qed

theorem connection_ends_witness:
  "\<exists>e c' d'. handle_conn 10 (demo_conn\<lparr>ce_broken := True, ce_parse := \<lambda>_. None, ce_short := \<lambda>_. Some 0\<rparr>) (CHR 0xFF # ''x!'' @ [NL])
      \<lparr>dm_server = demo_server, dm_in_flight = 3\<rparr> = Some (e, c', d') \<and> dm_in_flight d' = 2"
  using connection_ends [of "demo_conn\<lparr>ce_broken := True, ce_parse := \<lambda>_. None, ce_short := \<lambda>_. Some 0\<rparr>" "CHR 0xFF # ''x!'' @ [NL]" 10
      "\<lparr>dm_server = demo_server, dm_in_flight = 3\<rparr>"] by fastforce

theorem connection_cap_exact_witness:
  "fst (accept_conn 1 (snd (fold (conn_event_step 1) [Arrive, Arrive] ([], 0)))) = False
   \<and> fst (accept_conn 1 (snd (fold (conn_event_step 1) [Arrive, Arrive, Upgrade 0] ([], 0)))) = True
   \<and> fst (accept_conn 0 (snd (fold (conn_event_step 0) [Arrive, Finish 0] ([], 0)))) = True"
proof -
  have "fold (conn_event_step 1) [Arrive, Arrive] ([], 0) = ([True], 1)"
    "fold (conn_event_step 1) [Arrive, Arrive, Upgrade 0] ([], 0) = ([False], 0)"
    "fold (conn_event_step 0) [Arrive, Finish 0] ([], 0) = ([], 0)"
    by (simp_all add: accept_conn_def max_conn_def release_now_def drop_guard_def drop_nth_def Let_def)
  from this [THEN connection_cap_exact] this show ?thesis by (simp add: holders_def max_conn_def)
qed

end
