(* ===== verification/Startup.thy ===== *)
theory Startup
  imports Conn Onnx_Backend
begin

text \<open>
  The start of the daemon (\<open>main.rs\<close>, \<open>config.rs\<close>, \<open>shutdown.rs\<close>): the configuration, the options with a syntax of their own, the
  lock that admits one instance per socket, what the kernel is told, the posture that is reported, and the
  sleep of the refresh thread that a signal interrupts. Reading command line and TOML is a parameter.
\<close>

section \<open>Configuration\<close>

record profile_config =
  pc_mode :: SecurityProfile
  pc_smart_allow_lockdown :: bool
  pc_deny_binaries :: "string list"
  pc_deny_basenames :: "string list"
  pc_allow_user_switch :: bool

record enforcement_config =
  ec_depth :: string
  ec_max_depth :: u8

record server_config =
  sc_max_concurrent_connections :: nat
  sc_idle_read_timeout_secs :: u64

record tier2_config =
  tc_backend :: "string option"
  tc_onnx :: onnx_config

record guard_config =
  gc_tier2 :: tier2_config
  gc_block_threshold :: "f32 option"
  gc_server :: server_config
  gc_enforcement :: enforcement_config
  gc_profile :: profile_config

definition enforcement_default :: enforcement_config where
  "enforcement_default = \<lparr>ec_depth = ''one_level'', ec_max_depth = 8\<rparr>"

definition server_default :: server_config where
  "server_default = \<lparr>sc_max_concurrent_connections = 64, sc_idle_read_timeout_secs = 30\<rparr>"

definition onnx_default :: onnx_config where
  "onnx_default = \<lparr>oc_model = ''securebert2'', oc_model_path = [], oc_tokenizer_path = [], oc_max_tokens = 1024,
     oc_warn_threshold = f32_lit (1 / 2), oc_block_threshold = f32_lit (85 / 100)\<rparr>"

definition guard_default :: guard_config where
  "guard_default =
     \<lparr>gc_tier2 = \<lparr>tc_backend = None, tc_onnx = onnx_default\<rparr>, gc_block_threshold = None, gc_server = server_default,
      gc_enforcement = enforcement_default,
      gc_profile = \<lparr>pc_mode = Prompt, pc_smart_allow_lockdown = False, pc_deny_binaries = [], pc_deny_basenames = [],
                    pc_allow_user_switch = False\<rparr>\<rparr>"

definition depth_mode_byte :: "string \<Rightarrow> u8 option" where
  "depth_mode_byte depth =
     (if depth = ''one_level'' then Some 0 else if depth = ''ancestry'' then Some 1
      else if depth = ''propagate_on_fork'' then Some 2 else None)"

definition MAX_CONFIG_BYTES :: nat where "MAX_CONFIG_BYTES = 1024 * 1024"

datatype config_error = CfgIo os_error | CfgNotRegular | CfgTooLarge nat | CfgParse string

text \<open>The metadata says whether the file is a regular one and how long it is; the file is read by another call.\<close>

definition config_load ::
    "(os_error, bool \<times> nat) result \<Rightarrow> (os_error, string) result \<Rightarrow> (string \<Rightarrow> (string, 'c) result) \<Rightarrow> (config_error, 'c) result" where
  "config_load meta content toml =
     (case meta of
        Inl e \<Rightarrow> Inl (CfgIo e)
      | Inr (is_file, len) \<Rightarrow>
          if \<not> is_file then Inl CfgNotRegular
          else if MAX_CONFIG_BYTES < len then Inl (CfgTooLarge len)
          else (case content of
                  Inl e \<Rightarrow> Inl (CfgIo e)
                | Inr txt \<Rightarrow> (case toml txt of Inl e \<Rightarrow> Inl (CfgParse e) | Inr c \<Rightarrow> Inr c)))"

section \<open>Options\<close>

datatype interval_error = BadNumber | BadSuffix char | IntervalOverflow | BelowMinute

definition is_ascii_alphabetic :: "char \<Rightarrow> bool" where
  "is_ascii_alphabetic c \<longleftrightarrow> (65 \<le> byte_of c \<and> byte_of c \<le> 90) \<or> (97 \<le> byte_of c \<and> byte_of c \<le> 122)"

definition interval_unit :: "char \<Rightarrow> nat option" where
  "interval_unit c =
     (if c = CHR ''s'' then Some 1 else if c = CHR ''m'' then Some 60
      else if c = CHR ''h'' then Some 3600 else if c = CHR ''d'' then Some 86400 else None)"

definition parse_interval :: "string \<Rightarrow> (interval_error, nat option) result" where
  "parse_interval s0 =
     (let s = str_trim s0
      in if s = ''0'' \<or> s = [] then Inr None
         else let (digits, suffix) = (if is_ascii_alphabetic (last s) then (butlast s, last s) else (s, CHR ''s''))
              in case parse_uint 64 digits of
                   None \<Rightarrow> Inl BadNumber
                 | Some n \<Rightarrow>
                     (case interval_unit suffix of
                        None \<Rightarrow> Inl (BadSuffix suffix)
                      | Some mult \<Rightarrow>
                          let secs = n * mult
                          in if 2 ^ 64 \<le> secs then Inl IntervalOverflow
                             else if secs < 60 then Inl BelowMinute
                             else Inr (Some secs)))"

fun split_char :: "char \<Rightarrow> string \<Rightarrow> string list" where
  "split_char c [] = [[]]"
| "split_char c (x # xs) =
     (if x = c then [] # split_char c xs
      else case split_char c xs of [] \<Rightarrow> [[x]] | p # ps \<Rightarrow> (x # p) # ps)"

definition parse_atom_sources :: "string \<Rightarrow> SourceId list" where
  "parse_atom_sources s0 =
     (let s = str_trim s0
      in if s = [] then default_enabled
         else concat (map (\<lambda>raw.
                let name = str_trim raw
                in if name = [] then [] else case source_parse name of Some sid \<Rightarrow> [sid] | None \<Rightarrow> [])
              (split_char (CHR '','') s)))"

section \<open>One instance per socket\<close>

text \<open>\<open>canon\<close> is \<open>canonicalize\<close>; paths are absolute.\<close>

definition with_lock_suffix :: "path \<Rightarrow> path" where
  "with_lock_suffix p = butlast p @ [last p @ ''.lock'']"

definition lock_path_for_socket :: "(path \<Rightarrow> path option) \<Rightarrow> path \<Rightarrow> path" where
  "lock_path_for_socket canon sock =
     (case canon sock of
        Some p \<Rightarrow> with_lock_suffix p
      | None \<Rightarrow>
          (case canon (butlast sock) of
             Some parent \<Rightarrow> with_lock_suffix (parent @ [last sock])
           | None \<Rightarrow> with_lock_suffix sock))"

datatype call_error = Interrupted | WouldBlock | OtherError nat
datatype lock_error = AlreadyRunning | LockIo call_error

text \<open>\<open>n\<close> repetitions are left for calls that a signal interrupts; \<open>k\<close> is the number of the call.\<close>

fun open_lock :: "(nat \<Rightarrow> call_error option) \<Rightarrow> nat \<Rightarrow> nat \<Rightarrow> (lock_error, unit) result" where
  "open_lock call n k =
     (case call k of
        None \<Rightarrow> Inr ()
      | Some e \<Rightarrow> (case (e, n) of (Interrupted, Suc m) \<Rightarrow> open_lock call m (k + 1) | _ \<Rightarrow> Inl (LockIo e)))"

fun flock_loop :: "(nat \<Rightarrow> call_error option) \<Rightarrow> nat \<Rightarrow> nat \<Rightarrow> (lock_error, unit) result" where
  "flock_loop call n k =
     (case call k of
        None \<Rightarrow> Inr ()
      | Some e \<Rightarrow>
          (case (e, n) of
             (Interrupted, Suc m) \<Rightarrow> flock_loop call m (k + 1)
           | (WouldBlock, _) \<Rightarrow> Inl AlreadyRunning
           | _ \<Rightarrow> Inl (LockIo e)))"

definition acquire_single_instance_lock ::
    "(nat \<Rightarrow> call_error option) \<Rightarrow> (nat \<Rightarrow> call_error option) \<Rightarrow> (lock_error, unit) result" where
  "acquire_single_instance_lock opens flocks =
     (case open_lock opens 8 0 of Inl e \<Rightarrow> Inl e | Inr _ \<Rightarrow> flock_loop flocks 8 0)"

datatype node = SocketNode | OtherNode
datatype socket_error = NotASocket | SocketIo os_error

text \<open>What the path resolves to and what is there, and the calls that look and remove.\<close>

record sock_fs =
  sf_lstat :: "path \<Rightarrow> os_error option"
  sf_canon :: "path \<Rightarrow> path option"
  sf_nodes :: "path \<Rightarrow> node option"
  sf_remove_error :: "os_error option"

definition remove_socket_if_safe :: "path \<Rightarrow> sock_fs \<Rightarrow> (socket_error, unit) result \<times> sock_fs" where
  "remove_socket_if_safe p fs =
     (case sf_lstat fs p of
        Some ENotFound \<Rightarrow> (Inr (), fs)
      | Some e \<Rightarrow> (Inl (SocketIo e), fs)
      | None \<Rightarrow>
          (case sf_canon fs p of
             None \<Rightarrow> (Inl (SocketIo ENotFound), fs)
           | Some resolved \<Rightarrow>
               (case sf_nodes fs resolved of
                  None \<Rightarrow> (Inl (SocketIo ENotFound), fs)
                | Some OtherNode \<Rightarrow> (Inl NotASocket, fs)
                | Some SocketNode \<Rightarrow>
                    (case sf_remove_error fs of
                       Some e \<Rightarrow> (Inl (SocketIo e), fs)
                     | None \<Rightarrow> (Inr (), fs\<lparr>sf_nodes := (sf_nodes fs)(resolved := None)\<rparr>)))))"

section \<open>The kernel at the start\<close>

datatype EbpfMode = ModeDisabled | ModeObserve | ModeWarn | ModeBlock

text \<open>\<open>None\<close> is the exit with status 2.\<close>

definition effective_mode :: "bool \<Rightarrow> EbpfMode \<Rightarrow> EbpfMode option" where
  "effective_mode enable emode =
     (if enable \<and> emode = ModeDisabled then Some ModeBlock
      else if enable \<and> emode \<noteq> ModeBlock then None
      else Some emode)"

fun loaded_mode :: "EbpfMode \<Rightarrow> LoadedMode option" where
  "loaded_mode ModeDisabled = None"
| "loaded_mode ModeObserve = Some Observe"
| "loaded_mode ModeWarn = Some WarnMode"
| "loaded_mode ModeBlock = Some BlockMode"

definition startup_depth :: "string option \<Rightarrow> u8 option \<Rightarrow> enforcement_config \<Rightarrow> (u8 \<times> u8) option" where
  "startup_depth cli_depth cli_max cfg =
     (let depth = (case cli_depth of Some d \<Rightarrow> d | None \<Rightarrow> ec_depth cfg);
          max_depth = (case cli_max of Some m \<Rightarrow> m | None \<Rightarrow> ec_max_depth cfg);
          max_depth = (if depth = ''ancestry'' \<and> max_depth = 0 then 1 else max_depth)
      in map_option (\<lambda>b. (b, max_depth)) (depth_mode_byte depth))"

definition startup_kernel :: "ebpf_state \<Rightarrow> u8 \<times> u8 \<Rightarrow> profile_config \<Rightarrow> bpf \<Rightarrow> bpf" where
  "startup_kernel es depth cfg k =
     (let k = snd (set_enforce_cfg es (fst depth) (snd depth) k)
      in if pc_mode cfg = Strict then snd (arm_deny_lists es (pc_deny_binaries cfg) (pc_deny_basenames cfg) k) else k)"

definition startup_posture :: "guard_config \<Rightarrow> bool \<Rightarrow> string option \<Rightarrow> string list \<Rightarrow> guard_posture" where
  "startup_posture cfg attached cli_depth features =
     (let p = gc_profile cfg; is_strict = (pc_mode p = Strict)
      in \<lparr>gp_profile = profile_as_str (pc_mode p),
          gp_ebpf = (if attached then ''attached'' else ''off''),
          gp_enforcement = (case cli_depth of Some d \<Rightarrow> d | None \<Rightarrow> ec_depth (gc_enforcement cfg)),
          gp_atoms_version = [],
          gp_deny_path = (if is_strict then word_of_nat (length (pc_deny_binaries p)) else 0),
          gp_deny_basename = (if is_strict then word_of_nat (length (pc_deny_basenames p)) else 0),
          gp_features = features\<rparr>)"

text \<open>The features a build can have, as the list is reported.\<close>

definition enabled_features :: "bool \<Rightarrow> bool \<Rightarrow> bool \<Rightarrow> bool \<Rightarrow> string list" where
  "enabled_features ebpf onnx osv fetch =
     sorted_vec ((if ebpf then [''ebpf''] else []) @ (if onnx then [''tier2-onnx''] else [])
       @ (if osv then [''osv-live''] else []) @ (if fetch then [''atoms-fetch''] else []))"

text \<open>The directory of the per-user files: \<open>users\<close> below the first entry of \<open>STATE_DIRECTORY\<close>.\<close>

definition path_join :: "string \<Rightarrow> string \<Rightarrow> string" where
  "path_join d f = (if d \<noteq> [] \<and> last d = CHR ''/'' then d @ f else d @ ''/'' @ f)"

definition trust_root :: "string option \<Rightarrow> string" where
  "trust_root state_dir =
     (case state_dir of
        Some s \<Rightarrow> (let d = hd (split_char (CHR '':'') s) in if d \<noteq> [] then path_join d ''users'' else ''/var/lib/atty-guard/users'')
      | None \<Rightarrow> ''/var/lib/atty-guard/users'')"

definition startup_server ::
    "classifier \<Rightarrow> bpf \<Rightarrow> ebpf_state option \<Rightarrow> osv_client option \<Rightarrow> trust_store \<Rightarrow> world \<Rightarrow> guard_config \<Rightarrow> string option
     \<Rightarrow> string list \<Rightarrow> server" where
  "startup_server c k ebpf osv ts w cfg cli_depth features =
     server_new c k ebpf osv ts w broadcast_new (startup_posture cfg (ebpf \<noteq> None) cli_depth features)
       (profile_to_u8 (pc_mode (gc_profile cfg))) (pc_allow_user_switch (gc_profile cfg))
       (pc_deny_binaries (gc_profile cfg)) (pc_deny_basenames (gc_profile cfg))"

section \<open>The start as a whole\<close>

text \<open>The command line as it is parsed, and what the start asks of its surroundings.\<close>

record 'c cli =
  cl_socket :: "path option"
  cl_verbosity :: u8
  cl_tier2 :: "string option"
  cl_config :: "path option"
  cl_enable_ebpf :: bool
  cl_ebpf_mode :: EbpfMode
  cl_enforcement_depth :: "string option"
  cl_ancestry_max_depth :: "u8 option"
  cl_enable_osv :: bool
  cl_osv_endpoint :: string
  cl_update_atoms_now :: bool
  cl_atoms_update_interval :: string
  cl_atoms_sources :: string
  cl_print_features :: bool
  cl_command :: "'c option"

definition default_socket_path :: path where
  "default_socket_path = [''run'', ''atty-guard'', ''atty-guard.sock'']"

definition osv_config_default :: osv_config where
  "osv_config_default = \<lparr>cfg_endpoint = ''https://api.osv.dev'', cfg_timeout_ms = 250, cfg_cache_ttl = 3600\<rparr>"

record start_env =
  st_load :: "path \<Rightarrow> (config_error, guard_config) result"
  st_onnx :: "onnx_config \<Rightarrow> (load_error, tier2_backend) result"
  st_rules :: heuristic_rules
  st_tier1 :: tier1
  st_opens :: "nat \<Rightarrow> call_error option"
  st_flocks :: "nat \<Rightarrow> call_error option"
  st_attach :: "LoadedMode \<Rightarrow> bpf option" \<comment> \<open>the maps of the loaded programs, if they attach\<close>
  st_os :: os_env
  st_trust_root :: path
  st_features :: "string list"
  st_osv_built :: bool
  st_fetch_built :: bool
  st_toml :: "string \<Rightarrow> atom_pins option"
  st_atoms_path :: path

datatype start_error =
    BadInterval interval_error
  | ConfigRejected config_error
  | BadBackend string BackendSource
  | BackendFailed load_error
  | LockRefused lock_error
  | SocketRefused socket_error
  | ModesDisagree
  | BadDepth

text \<open>An error that \<open>main\<close> returns is status 1.\<close>

fun exit_status :: "start_error \<Rightarrow> nat" where
  "exit_status ModesDisagree = 2"
| "exit_status BadDepth = 2"
| "exit_status _ = 1"

definition start_config :: "start_env \<Rightarrow> 'c cli \<Rightarrow> (start_error, guard_config) result" where
  "start_config env cl =
     (case cl_config cl of
        Some p \<Rightarrow> (case st_load env p of Inl e \<Rightarrow> Inl (ConfigRejected e) | Inr c \<Rightarrow> Inr c)
      | None \<Rightarrow> Inr guard_default)"

definition start_classifier :: "start_env \<Rightarrow> 'c cli \<Rightarrow> guard_config \<Rightarrow> (start_error, classifier) result" where
  "start_classifier env cl cfg =
     (let onnx = st_onnx env (tc_onnx (gc_tier2 cfg))
      in case resolve_backend (cl_tier2 cl) (tc_backend (gc_tier2 cfg)) of
           Inl (raw, source) \<Rightarrow> Inl (BadBackend raw source)
         | Inr (backend, source) \<Rightarrow>
             (case source of
                DefaultSource \<Rightarrow>
                  Inr (with_block_threshold (gc_block_threshold cfg) (new_with_backend onnx (st_rules env) (st_tier1 env) backend))
              | _ \<Rightarrow>
                  (case try_new_with_backend onnx (st_rules env) (st_tier1 env) backend of
                     Inl e \<Rightarrow> Inl (BackendFailed e)
                   | Inr c \<Rightarrow> Inr (with_block_threshold (gc_block_threshold cfg) c))))"

definition prepare_socket ::
    "(nat \<Rightarrow> call_error option) \<Rightarrow> (nat \<Rightarrow> call_error option) \<Rightarrow> path \<Rightarrow> sock_fs \<Rightarrow> (start_error, unit) result \<times> sock_fs" where
  "prepare_socket opens flocks p fs =
     (case acquire_single_instance_lock opens flocks of
        Inl e \<Rightarrow> (Inl (LockRefused e), fs)
      | Inr _ \<Rightarrow>
          (case remove_socket_if_safe p fs of
             (Inl e, fs) \<Rightarrow> (Inl (SocketRefused e), fs)
           | (Inr _, fs) \<Rightarrow> (Inr (), fs)))"

text \<open>A kernel without the programs has none of the maps.\<close>

definition no_programs :: bpf where
  "no_programs = \<lparr>bpf_maps = Map.empty, bpf_tick = 0, bpf_fault = (\<lambda>_. False)\<rparr>"

definition start_hook :: "start_env \<Rightarrow> 'c cli \<Rightarrow> guard_config \<Rightarrow> (start_error, ebpf_state option \<times> bpf) result" where
  "start_hook env cl cfg =
     (case effective_mode (cl_enable_ebpf cl) (cl_ebpf_mode cl) of
        None \<Rightarrow> Inl ModesDisagree
      | Some emode \<Rightarrow>
          (case loaded_mode emode of
             None \<Rightarrow> Inr (None, no_programs)
           | Some lm \<Rightarrow>
               (case st_attach env lm of
                  None \<Rightarrow> Inr (None, no_programs)
                | Some k \<Rightarrow>
                    (case startup_depth (cl_enforcement_depth cl) (cl_ancestry_max_depth cl) (gc_enforcement cfg) of
                       None \<Rightarrow> Inl BadDepth
                     | Some depth \<Rightarrow> Inr (Some (Attached lm), startup_kernel (Attached lm) depth (gc_profile cfg) k)))))"

definition start_osv :: "start_env \<Rightarrow> 'c cli \<Rightarrow> osv_client option" where
  "start_osv env cl =
     (if cl_enable_osv cl then Some (osv_new (st_osv_built env) (osv_config_default\<lparr>cfg_endpoint := cl_osv_endpoint cl\<rparr>)) else None)"

text \<open>What the refresh thread is started with, if it is; a pin file that is refused does not stop the daemon.\<close>

definition start_refresh :: "start_env \<Rightarrow> nat option \<Rightarrow> world \<Rightarrow> (nat \<times> fetcher_config) option \<times> world" where
  "start_refresh env interval w =
     (case interval of
        None \<Rightarrow> (None, w)
      | Some secs \<Rightarrow>
          if \<not> st_fetch_built env then (None, w)
          else case default_with_pins_from (st_os env) (st_toml env) (st_atoms_path env) DEFAULT_PIN_FILE w of
                 (Inl e, w) \<Rightarrow> (None, w)
               | (Inr cfg, w) \<Rightarrow> (Some (secs, cfg), w))"

text \<open>\<open>--update-atoms-now\<close>: one refresh instead of a daemon.\<close>

definition update_atoms_now ::
    "os_env \<Rightarrow> (string \<Rightarrow> atom_pins option) \<Rightarrow> fetch_env \<Rightarrow> path \<Rightarrow> SourceId list \<Rightarrow> (fetch_error, fetch_report) io" where
  "update_atoms_now env toml fe out sids =
     io_bind (default_with_pins_from env toml out DEFAULT_PIN_FILE) (\<lambda>cfg. fetch_all fe env cfg sids)"

definition daemon_start :: "start_env \<Rightarrow> 'c cli \<Rightarrow> path \<Rightarrow> sock_fs \<Rightarrow> world \<Rightarrow> (start_error, server \<times> (nat \<times> fetcher_config) option) result \<times> sock_fs" where
  "daemon_start env cl sock fs w =
     (case parse_interval (cl_atoms_update_interval cl) of
        Inl e \<Rightarrow> (Inl (BadInterval e), fs)
      | Inr interval \<Rightarrow>
     (case start_config env cl of
        Inl e \<Rightarrow> (Inl e, fs)
      | Inr cfg \<Rightarrow>
     (case start_classifier env cl cfg of
        Inl e \<Rightarrow> (Inl e, fs)
      | Inr c \<Rightarrow>
     (case prepare_socket (st_opens env) (st_flocks env) sock fs of
        (Inl e, fs) \<Rightarrow> (Inl e, fs)
      | (Inr _, fs) \<Rightarrow>
     (case start_hook env cl cfg of
        Inl e \<Rightarrow> (Inl e, fs)
      | Inr (ebpf, k) \<Rightarrow>
          (case trust_store_new (st_os env) (st_trust_root env) w of (ts, w) \<Rightarrow>
          (case start_refresh env interval w of (refresh, w) \<Rightarrow>
          (case reload_system_fetched (st_os env) ts w of (_, ts, w) \<Rightarrow>
             (Inr (startup_server c k ebpf (start_osv env cl) ts w cfg (cl_enforcement_depth cl) (st_features env), refresh), fs)))))))))"

text \<open>\<open>main\<close>: print the features, refresh once, be a client, or be the daemon.\<close>

datatype 'c main_mode =
    Features "string list"
  | RefusedInterval interval_error
  | OneShot "(fetch_error, fetch_report) result"
  | ClientMode path 'c
  | DaemonMode "(start_error, server \<times> (nat \<times> fetcher_config) option) result"

definition guard_main :: "start_env \<Rightarrow> fetch_env \<Rightarrow> 'c cli \<Rightarrow> sock_fs \<Rightarrow> world \<Rightarrow> 'c main_mode" where
  "guard_main env fe cl fs w =
     (if cl_print_features cl then Features (st_features env)
      else let sids = parse_atom_sources (cl_atoms_sources cl);
               sock = (case cl_socket cl of Some p \<Rightarrow> p | None \<Rightarrow> default_socket_path)
           in case parse_interval (cl_atoms_update_interval cl) of
                Inl e \<Rightarrow> RefusedInterval e
              | Inr interval \<Rightarrow>
                  if cl_update_atoms_now cl then OneShot (fst (update_atoms_now (st_os env) (st_toml env) fe (st_atoms_path env) sids w))
                  else case cl_command cl of
                         Some c \<Rightarrow> ClientMode sock c
                       | None \<Rightarrow> DaemonMode (fst (daemon_start env cl sock fs w)))"

section \<open>Signals and the accept loop\<close>

text \<open>
  The handler of the three signals sets the flag, whatever it was. The accept loop ends only when the listener has no next connection;
  \<open>signals k\<close> says whether a signal arrives while it waits for the \<open>k\<close>-th one, \<open>leaving k\<close> how many connections end meanwhile.
\<close>

definition shutdown_handle :: "bool \<Rightarrow> bool" where
  "shutdown_handle flag = True"

datatype accepted = NewConn | AcceptFailed

fun serve_loop ::
    "nat \<Rightarrow> (nat \<Rightarrow> accepted option) \<Rightarrow> (nat \<Rightarrow> bool) \<Rightarrow> (nat \<Rightarrow> nat) \<Rightarrow> nat \<Rightarrow> nat \<Rightarrow> bool \<times> nat \<Rightarrow> (bool \<times> nat) option" where
  "serve_loop 0 incoming signals leaving cap k st = None"
| "serve_loop (Suc fuel) incoming signals leaving cap k (flag, n) =
     (let flag = (if signals k then shutdown_handle flag else flag); n = n - leaving k
      in case incoming k of
           None \<Rightarrow> Some (flag, n)
         | Some AcceptFailed \<Rightarrow> serve_loop fuel incoming signals leaving cap (k + 1) (flag, n)
         | Some NewConn \<Rightarrow> serve_loop fuel incoming signals leaving cap (k + 1) (flag, snd (accept_conn cap n)))"

section \<open>A sleep that a signal interrupts\<close>

text \<open>
  \<open>now\<close> is the time since the start of the sleep, \<open>flag k\<close> whether a shutdown was requested at the \<open>k\<close>-th poll, \<open>later k t\<close> the
  second reading of the clock after a first reading \<open>t\<close>, and \<open>wake k t d\<close> the time after the \<open>k\<close>-th sleep of \<open>d\<close> begun at \<open>t\<close>. The result
  says whether the sleep was cut short, and when it ended.
\<close>

fun sleep_interruptible ::
    "nat \<Rightarrow> (nat \<Rightarrow> bool) \<Rightarrow> (nat \<Rightarrow> nat \<Rightarrow> nat) \<Rightarrow> (nat \<Rightarrow> nat \<Rightarrow> nat \<Rightarrow> nat) \<Rightarrow> nat \<Rightarrow> nat \<Rightarrow> nat \<Rightarrow> nat \<Rightarrow> (bool \<times> nat) option" where
  "sleep_interruptible 0 flag later wake total_time step k now = None"
| "sleep_interruptible (Suc fuel) flag later wake total_time step k now =
     (if now < total_time
      then if flag k then Some (True, now)
           else let remaining = total_time - later k now
                in sleep_interruptible fuel flag later wake total_time step (k + 1)
                     (wake k (later k now) (if remaining < step then remaining else step))
      else Some (False, now))"

section \<open>What the start guarantees\<close>

text \<open>
  A sleep lasts at least as long as asked, so one iteration per step is enough: the loop ends, at the first poll that
  sees the request or not before the full time.
\<close>

lemma sleep_rounds:
  assumes "0 < (step :: nat)" and "t + (if r < step then r else step) \<le> t'" and "r = goal - t" and "0 < r"
  shows "(goal - t' + (step - 1)) div step < (r + (step - 1)) div step"
proof (cases "r < step")
  case True
  with assms have "goal - t' = 0" by simp
  moreover have "step \<le> r + (step - 1)" using assms(1,4) by linarith
  then have "1 \<le> (r + (step - 1)) div step" using assms(1) by (simp add: Suc_le_eq div_greater_zero_iff)
  ultimately show ?thesis using assms(1) by simp
next
  case False
  then have "goal - t' + (step - 1) \<le> r + (step - 1) - step" using assms by simp
  then have "(goal - t' + (step - 1)) div step \<le> (r + (step - 1) - step) div step" by (rule div_le_mono)
  also have "\<dots> < (r + (step - 1)) div step" using False assms(1) by (simp add: le_div_geq)
  finally show ?thesis .
qed

lemma sleep_ends:
  assumes "0 < step" and "\<And>k t d. t + d \<le> wake k t d" and "\<And>k t. t \<le> later k t"
    and "(total_time - now + (step - 1)) div step < fuel"
  shows "\<exists>cut end. sleep_interruptible fuel flag later wake total_time step k now = Some (cut, end)
    \<and> (if cut then \<exists>j. flag j else total_time \<le> end)"
  using assms(4)
proof (induction fuel arbitrary: k now)
  case (Suc fuel)
  show ?case
  proof (cases "now < total_time \<and> \<not> flag k")
    case True
    let ?r = "total_time - later k now"
    let ?w = "wake k (later k now) (if ?r < step then ?r else step)"
    have "(total_time - ?w + (step - 1)) div step < fuel"
    proof (cases "?r = 0")
      case True
      then have "total_time - ?w = 0" using assms(2) [of "later k now" 0 k] assms(1) by simp
      moreover have "step \<le> total_time - now + (step - 1)" using \<open>now < total_time \<and> \<not> flag k\<close> assms(1) by linarith
      then have "1 \<le> (total_time - now + (step - 1)) div step" using assms(1) by (simp add: Suc_le_eq div_greater_zero_iff)
      ultimately show ?thesis using Suc.prems assms(1) by simp
    next
      case False
      have "(total_time - ?w + (step - 1)) div step < (?r + (step - 1)) div step"
        using sleep_rounds [OF assms(1) assms(2) refl] False by blast
      also have "\<dots> \<le> (total_time - now + (step - 1)) div step"
        using assms(3) [of now k] by (intro div_le_mono) simp
      finally show ?thesis using Suc.prems by simp
    qed
    from Suc.IH [OF this] True show ?thesis by (simp add: Let_def)
  qed auto
qed simp

section \<open>Intervals\<close>

lemma unit_chars: "interval_unit c = Some m \<Longrightarrow> is_ascii_alphabetic c \<and> \<not> ascii_ws c \<and> byte_of c < (0x80::nat)"
  by (auto simp: interval_unit_def is_ascii_alphabetic_def ascii_ws_def split: if_splits)

lemma digit_plain: "is_digit d \<Longrightarrow> \<not> ascii_ws d \<and> byte_of d < (0x80::nat)"
  by (auto simp: is_digit_def ascii_ws_def)

text \<open>A number with a unit is read exactly, and every interval that is accepted is at least a minute and fits 64 bits.\<close>

lemma interval_exact:
  assumes "interval_unit c = Some m" and "n < 2 ^ 64"
  shows "parse_interval (show_nat n @ [c]) =
    (if 2 ^ 64 \<le> n * m then Inl IntervalOverflow else if n * m < 60 then Inl BelowMinute else Inr (Some (n * m)))"
proof -
  have "list_all (\<lambda>c. \<not> ascii_ws c \<and> byte_of c < (0x80::nat)) (show_nat n @ [c])"
    using unit_chars [OF assms(1)] digit_plain [OF show_nat_digits [of _ n]] by (simp add: list_all_iff)
  from plain_trim [OF this] have t: "str_trim (show_nat n @ [c]) = show_nat n @ [c]" .
  have c: "is_ascii_alphabetic c" using unit_chars [OF assms(1)] by simp
  have "show_nat n @ [c] \<noteq> ''0''" using c by (auto simp: is_ascii_alphabetic_def)
  then show ?thesis using t c assms parse_uint_show_nat [OF assms(2)] by (simp add: parse_interval_def Let_def)
qed

lemma interval_bounds: "parse_interval s = Inr (Some secs) \<Longrightarrow> 60 \<le> secs \<and> secs < 2 ^ 64"
  by (auto simp: parse_interval_def Let_def split: option.splits if_splits prod.splits)

section \<open>One instance per socket\<close>

text \<open>
  A start as \<open>main\<close> makes it: the lock, then the old socket. \<open>held\<close> are the locks of the daemons that run; \<open>flock\<close> answers that it would
  block exactly if the lock is held.
\<close>

definition claim_socket :: "path \<Rightarrow> path set \<Rightarrow> sock_fs \<Rightarrow> (start_error, unit) result \<times> path set \<times> sock_fs" where
  "claim_socket p held fs =
     (let lock = lock_path_for_socket (sf_canon fs) p
      in case prepare_socket (\<lambda>_. None) (\<lambda>_. if lock \<in> held then Some WouldBlock else None) p fs of
           (Inl e, fs) \<Rightarrow> (Inl e, held, fs)
         | (Inr u, fs) \<Rightarrow> (Inr (), insert lock held, fs))"

lemma lock_suffix_inj: "p \<noteq> [] \<Longrightarrow> q \<noteq> [] \<Longrightarrow> with_lock_suffix p = with_lock_suffix q \<Longrightarrow> p = q"
  by (auto simp: with_lock_suffix_def) (metis append_butlast_last_id)

lemma remove_cases:
  "remove_socket_if_safe p fs = (r, fs') \<Longrightarrow> fs' = fs \<or>
     (\<exists>q. sf_canon fs p = Some q \<and> sf_nodes fs q = Some SocketNode \<and> fs' = fs\<lparr>sf_nodes := (sf_nodes fs)(q := None)\<rparr>)"
  by (auto simp: remove_socket_if_safe_def split: option.splits os_error.splits node.splits)

lemma claim_cases:
  "claim_socket p held fs =
     (if lock_path_for_socket (sf_canon fs) p \<in> held then (Inl (LockRefused AlreadyRunning), held, fs)
      else case remove_socket_if_safe p fs of
             (Inl e, fs) \<Rightarrow> (Inl (SocketRefused e), held, fs)
           | (Inr u, fs) \<Rightarrow> (Inr (), insert (lock_path_for_socket (sf_canon fs) p) held, fs))"
proof -
  have "sf_canon (snd (remove_socket_if_safe p fs)) = sf_canon fs"
    using remove_cases [of p fs "fst (remove_socket_if_safe p fs)" "snd (remove_socket_if_safe p fs)"] by auto
  then show ?thesis
    by (auto simp: claim_socket_def prepare_socket_def acquire_single_instance_lock_def Let_def split: prod.splits sum.splits)
qed


abbreviation alias_fs :: sock_fs where
  "alias_fs \<equiv> \<lparr>sf_lstat = (\<lambda>_. None), sf_canon = (\<lambda>p. Some [''run'', ''a.sock'']),
     sf_nodes = [[''run'', ''a.sock''] \<mapsto> SocketNode, [''etc'', ''x''] \<mapsto> OtherNode], sf_remove_error = None\<rparr>"


section \<open>The reported counts at the start\<close>

text \<open>
  The counts are seeded with the lengths of the lists. Under strict without the kernel hook nothing is armed, and the metrics report
  every configured entry as armed.
\<close>

theorem strict_without_hook_reports_rules:
  assumes "pc_mode (gc_profile cfg) = Strict"
  shows "\<exists>agg posture n. handle_get_metrics env peer (startup_server c k None osv ts w cfg cli_depth features) = RMetrics agg posture n
    \<and> gp_deny_path posture = word_of_nat (length (pc_deny_binaries (gc_profile cfg)))
    \<and> gp_ebpf posture = ''off''"
  using assms
  by (cases "aggregate (se_now_ms env) (peer_uid peer) (peer_root peer) []")
     (simp add: handle_get_metrics_def startup_server_def server_new_def startup_posture_def Let_def)

text \<open>Entering strict at the start arms what a switch to strict arms.\<close>

lemma startup_arms:
  assumes "pc_mode cfg = Strict"
  shows "startup_kernel es depth cfg k
    = snd (arm_deny_lists es (pc_deny_binaries cfg) (pc_deny_basenames cfg) (snd (set_enforce_cfg es (fst depth) (snd depth) k)))"
  using assms by (simp add: startup_kernel_def)

text \<open>An accepted depth has one of the three modes, and walking the ancestry always looks at the parent at least.\<close>

lemma startup_depth_ok:
  "startup_depth cli_depth cli_max cfg = Some (mode_byte, max_depth) \<Longrightarrow> mode_byte < 3 \<and> (mode_byte = 1 \<longrightarrow> max_depth \<noteq> 0)"
  by (auto simp: startup_depth_def depth_mode_byte_def Let_def split: if_splits)

section \<open>An explicit wish is met or the start is refused\<close>

lemma backend_never_falls_back:
  assumes "start_classifier env cl cfg = Inr c"
  shows "\<exists>kind source. resolve_backend (cl_tier2 cl) (tc_backend (gc_tier2 cfg)) = Inr (kind, source)
    \<and> (case kind of StubKind \<Rightarrow> c_tier2 c = stub_backend
       | HeuristicKind \<Rightarrow> c_tier2 c = heuristic_backend (st_rules env)
       | OnnxKind \<Rightarrow> st_onnx env (tc_onnx (gc_tier2 cfg)) = Inr (c_tier2 c))
    \<and> c_tier1 c = st_tier1 env \<and> c = with_block_threshold (gc_block_threshold cfg) c"
proof -
  obtain kind source where r: "resolve_backend (cl_tier2 cl) (tc_backend (gc_tier2 cfg)) = Inr (kind, source)"
    using assms by (auto simp: start_classifier_def Let_def split: sum.splits)
  have stub: "source = DefaultSource \<Longrightarrow> kind = StubKind"
    using r by (auto simp: resolve_backend_def backend_parse_def split: option.splits if_splits)
  have "try_new_with_backend (st_onnx env (tc_onnx (gc_tier2 cfg))) (st_rules env) (st_tier1 env) kind = Inr c0
      \<Longrightarrow> c = with_block_threshold (gc_block_threshold cfg) c0 \<Longrightarrow> ?thesis" for c0
    using r by (cases kind) (auto simp: try_new_with_backend_def with_block_threshold_def split: sum.splits option.splits)
  moreover have "\<exists>c0. try_new_with_backend (st_onnx env (tc_onnx (gc_tier2 cfg))) (st_rules env) (st_tier1 env) kind = Inr c0
      \<and> c = with_block_threshold (gc_block_threshold cfg) c0"
    using assms r stub
    by (cases source) (auto simp: start_classifier_def new_with_backend_def try_new_with_backend_def split: sum.splits)
  ultimately show ?thesis by blast
qed

lemma reload_frame: "reload_system_fetched env ts w = (r, ts', w') \<Longrightarrow> data_root ts' = data_root ts"
  by (auto simp: reload_system_fetched_def split: prod.splits sum.splits)

lemma daemon_start_cases:
  assumes "daemon_start env cl sock fs w = (Inr (s, refresh), fs')"
  shows "(\<exists>interval w1. parse_interval (cl_atoms_update_interval cl) = Inr interval \<and> refresh = fst (start_refresh env interval w1))
    \<and> (\<exists>cfg c ebpf k ts w'. start_config env cl = Inr cfg \<and> start_classifier env cl cfg = Inr c
        \<and> prepare_socket (st_opens env) (st_flocks env) sock fs = (Inr (), fs') \<and> start_hook env cl cfg = Inr (ebpf, k)
        \<and> data_root ts = st_trust_root env
        \<and> s = startup_server c k ebpf (start_osv env cl) ts w' cfg (cl_enforcement_depth cl) (st_features env))"
proof -
  obtain r1 fs1 where p: "prepare_socket (st_opens env) (st_flocks env) sock fs = (r1, fs1)" by fastforce
  obtain ts0 w0 where t: "trust_store_new (st_os env) (st_trust_root env) w = (ts0, w0)" by fastforce
  have l: "\<exists>r2 ts w'. reload_system_fetched (st_os env) ts0 w1 = (r2, ts, w') \<and> data_root ts = data_root ts0" for w1
    using reload_frame [of "st_os env" ts0 w1] by (metis prod_cases3)
  have "data_root ts0 = st_trust_root env" using t by (auto simp: trust_store_new_def)
  with assms p t show ?thesis
    by (auto simp: daemon_start_def split: sum.splits prod.splits dest: reload_frame) (metis fst_conv reload_frame)+
qed

lemma backend_in_force:
  assumes "start_classifier env cl cfg = Inr c" and "cl_tier2 cl = Some t \<or> (cl_tier2 cl = None \<and> tc_backend (gc_tier2 cfg) = Some t)"
  shows "(t = ''stub'' \<and> c_tier2 c = stub_backend) \<or> (t = ''heuristic'' \<and> c_tier2 c = heuristic_backend (st_rules env))
    \<or> (t = ''onnx'' \<and> st_onnx env (tc_onnx (gc_tier2 cfg)) = Inr (c_tier2 c))"
proof -
  obtain kind source where r: "resolve_backend (cl_tier2 cl) (tc_backend (gc_tier2 cfg)) = Inr (kind, source)"
    and k: "case kind of StubKind \<Rightarrow> c_tier2 c = stub_backend | HeuristicKind \<Rightarrow> c_tier2 c = heuristic_backend (st_rules env)
       | OnnxKind \<Rightarrow> st_onnx env (tc_onnx (gc_tier2 cfg)) = Inr (c_tier2 c)"
    using backend_never_falls_back [OF assms(1)] by blast
  have "backend_parse t = Some kind"
    using r assms(2) by (auto simp: resolve_backend_def split: option.splits)
  with k show ?thesis by (auto simp: backend_parse_def split: if_splits)
qed

lemma threshold_in_force:
  assumes "start_classifier env cl cfg = Inr c" and "block_threshold c = Some t"
  shows "gc_block_threshold cfg = Some t"
proof -
  have "block_threshold c = block_threshold (with_block_threshold (gc_block_threshold cfg) c)"
    using backend_never_falls_back [OF assms(1)] by metis
  with assms(2) show ?thesis by (auto simp: with_block_threshold_def split: option.splits if_splits)
qed

lemma hook_in_force:
  "start_hook env cl cfg = Inr (Some (Attached lm), k) \<Longrightarrow>
     (\<exists>m. effective_mode (cl_enable_ebpf cl) (cl_ebpf_mode cl) = Some m \<and> loaded_mode m = Some lm)
     \<and> (\<exists>depth k0. st_attach env lm = Some k0 \<and> startup_depth (cl_enforcement_depth cl) (cl_ancestry_max_depth cl) (gc_enforcement cfg) = Some depth
          \<and> k = startup_kernel (Attached lm) depth (gc_profile cfg) k0)"
  by (auto simp: start_hook_def split: option.splits)

lemma prepare_cases:
  "prepare_socket opens flocks p fs = (r, fs') \<Longrightarrow> fs' = fs \<or>
     (\<exists>q. sf_canon fs p = Some q \<and> sf_nodes fs q = Some SocketNode \<and> fs' = fs\<lparr>sf_nodes := (sf_nodes fs)(q := None)\<rparr>)"
  by (auto simp: prepare_socket_def split: sum.splits prod.splits dest!: remove_cases)

lemma daemon_start_sockets:
  "daemon_start env cl sock fs w = (res, fs') \<Longrightarrow> fs' = fs \<or> (\<exists>r. prepare_socket (st_opens env) (st_flocks env) sock fs = (r, fs'))"
  by (auto simp: daemon_start_def split: sum.splits prod.splits)

lemma startup_server_simps [simp]:
  "sv_classifier (startup_server c k ebpf osv ts w cfg d f) = c"
  "sv_ebpf (startup_server c k ebpf osv ts w cfg d f) = ebpf"
  "sv_user_switch (startup_server c k ebpf osv ts w cfg d f) = pc_allow_user_switch (gc_profile cfg)"
  "live_profile (startup_server c k ebpf osv ts w cfg d f) = pc_mode (gc_profile cfg)"
  by (simp_all add: startup_server_def live_profile_def server_new_def Let_def)


abbreviation demo_rules :: heuristic_rules where
  "demo_rules \<equiv> \<lparr>ip_url_fetcher = \<lambda>_. None, insecure_tls_fetcher = \<lambda>_. None, chmod_then_exec = \<lambda>_. None, proc_subst_curl = \<lambda>_. None\<rparr>"

abbreviation demo_start :: start_env where
  "demo_start \<equiv> \<lparr>st_load = (\<lambda>p. Inr (guard_default
        \<lparr>gc_tier2 := \<lparr>tc_backend = Some ''heuristic'', tc_onnx = onnx_default\<rparr>,
         gc_profile := (gc_profile guard_default)\<lparr>pc_mode := Strict, pc_deny_binaries := [''/usr/bin/nc''], pc_deny_basenames := [''xmrig'']\<rparr>\<rparr>)),
     st_onnx = (\<lambda>_. Inl FeatureNotBuilt), st_rules = demo_rules, st_tier1 = c_tier1 demo_classifier,
     st_opens = (\<lambda>_. None), st_flocks = (\<lambda>k. if k = 0 then Some Interrupted else None),
     st_attach = (\<lambda>_. Some \<lparr>bpf_maps = [''deny_bins'' \<mapsto> Map.empty, ''deny_basenames'' \<mapsto> Map.empty, ''basename_gate'' \<mapsto> Map.empty],
        bpf_tick = 0, bpf_fault = \<lambda>_. False\<rparr>),
     st_os = calm_env (\<lambda>_. None), st_trust_root = [''d'', ''users''], st_features = [''ebpf''], st_osv_built = False, st_fetch_built = False,
     st_toml = (\<lambda>_. None), st_atoms_path = [''d'', ''atoms.system.txt'']\<rparr>"

abbreviation demo_options :: "unit cli" where
  "demo_options \<equiv> \<lparr>cl_socket = None, cl_verbosity = 1, cl_tier2 = None, cl_config = Some [''etc'', ''guard.toml''], cl_enable_ebpf = True,
     cl_ebpf_mode = ModeDisabled, cl_enforcement_depth = None, cl_ancestry_max_depth = None, cl_enable_osv = False, cl_osv_endpoint = [],
     cl_update_atoms_now = False, cl_atoms_update_interval = ''6h'', cl_atoms_sources = [], cl_print_features = False, cl_command = None\<rparr>"

lemma daemon_starts:
  assumes "parse_interval (cl_atoms_update_interval cl) = Inr iv" and "start_config env cl = Inr cfg" and "start_classifier env cl cfg = Inr c"
    and "prepare_socket (st_opens env) (st_flocks env) sock fs = (Inr (), fs')" and "start_hook env cl cfg = Inr (ebpf, k)"
    and "\<not> st_fetch_built env"
  shows "\<exists>s. daemon_start env cl sock fs w = (Inr (s, None), fs')"
proof -
  obtain ts0 w0 where t: "trust_store_new (st_os env) (st_trust_root env) w = (ts0, w0)" by fastforce
  obtain r2 ts w' where "reload_system_fetched (st_os env) ts0 w0 = (r2, ts, w')" by (metis prod_cases3)
  with assms t show ?thesis by (simp add: daemon_start_def start_refresh_def split: option.split)
qed

lemma demo_start_runs: "\<exists>s fs'. daemon_start demo_start demo_options [''tmp'', ''alias''] alias_fs w = (Inr (s, None), fs')"
proof -
  have "parse_interval (show_nat 6 @ ''h'') = Inr (Some 21600)"
    by (subst interval_exact [of "CHR ''h''" 3600]) (simp_all add: interval_unit_def)
  moreover have "show_nat 6 = ''6''" by code_simp
  ultimately have iv: "parse_interval ''6h'' = Inr (Some 21600)" by simp
  obtain cfg where cfg: "start_config demo_start demo_options = Inr cfg" by (simp add: start_config_def)
  then have fields: "tc_backend (gc_tier2 cfg) = Some ''heuristic''" "gc_enforcement cfg = enforcement_default"
    by (auto simp: start_config_def guard_default_def)
  obtain c where c: "start_classifier demo_start demo_options cfg = Inr c"
    using fields by (simp add: start_classifier_def resolve_backend_def backend_parse_def try_new_with_backend_def)
  obtain fs' where p: "prepare_socket (st_opens demo_start) (st_flocks demo_start) [''tmp'', ''alias''] alias_fs = (Inr (), fs')"
    by (simp add: prepare_socket_def acquire_single_instance_lock_def remove_socket_if_safe_def eval_nat_numeral)
  obtain ebpf k where h: "start_hook demo_start demo_options cfg = Inr (ebpf, k)"
    using fields by (simp add: start_hook_def effective_mode_def startup_depth_def enforcement_default_def depth_mode_byte_def)
  have "parse_interval (cl_atoms_update_interval demo_options) = Inr (Some 21600)" using iv by simp
  moreover have "\<not> st_fetch_built demo_start" by simp
  ultimately show ?thesis using daemon_starts [OF _ cfg c p h] by blast
qed


section \<open>Strict is armed from the start\<close>

lemma enforce_cfg_frame:
  "faultless k \<Longrightarrow> faultless (snd (set_enforce_cfg es m d k))
    \<and> (n \<noteq> ''enforce_cfg'' \<longrightarrow> bpf_maps (snd (set_enforce_cfg es m d k)) n = bpf_maps k n)"
  by (cases es) (auto simp: set_enforce_cfg_def bpf_update_def faultless_def Let_def split: option.splits)

definition fresh_kernel :: "bpf \<Rightarrow> bool" where
  "fresh_kernel k \<longleftrightarrow> faultless k \<and> bpf_maps k ''deny_bins'' = Some Map.empty \<and> bpf_maps k ''deny_basenames'' = Some Map.empty
     \<and> bpf_maps k ''basename_gate'' = Some Map.empty"

text \<open>Lists whose entries all have a key, none of them twice; then the seeded counts are those of the armed entries.\<close>

definition clean_lists :: "profile_config \<Rightarrow> bool" where
  "clean_lists p \<longleftrightarrow> distinct (pc_deny_binaries p) \<and> distinct (pc_deny_basenames p)
     \<and> list_all (\<lambda>x. is_Ok (encode_deny_key x)) (pc_deny_binaries p)
     \<and> list_all (\<lambda>x. is_Ok (encode_basename_key x)) (pc_deny_basenames p)"

lemma clean_encodable:
  assumes "clean_lists p"
  shows "encodable encode_deny_key (pc_deny_binaries p) = pc_deny_binaries p"
    "encodable encode_basename_key (pc_deny_basenames p) = pc_deny_basenames p"
  using assms by (simp_all add: clean_lists_def encodable_def list_all_iff)

lemma armed_nothing: "armed_keys enc [] = Map.empty"
  by (simp add: armed_keys_def fun_eq_iff)

lemma startup_synced:
  assumes "fresh_kernel k" and "clean_lists (gc_profile cfg)"
  shows "deny_synced (startup_server c (startup_kernel (Attached lm) depth (gc_profile cfg) k) (Some (Attached lm)) osv ts w cfg d f)"
proof -
  let ?p = "gc_profile cfg" and ?k1 = "snd (set_enforce_cfg (Attached lm) (fst depth) (snd depth) k)"
  have k1: "faultless ?k1" "bpf_maps ?k1 ''deny_bins'' = Some (armed_keys encode_deny_key [])"
    "bpf_maps ?k1 ''deny_basenames'' = Some (armed_keys encode_basename_key [])" "bpf_maps ?k1 ''basename_gate'' = Some Map.empty"
    using assms(1) enforce_cfg_frame [of k "Attached lm" "fst depth" "snd depth"] by (simp_all add: fresh_kernel_def armed_nothing)
  have live: "live_profile (startup_server c k2 (Some (Attached lm)) osv ts w cfg d f) = pc_mode ?p" for k2 by simp
  show ?thesis
  proof (cases "pc_mode ?p = Strict")
    case True
    obtain n m k' where a: "arm_deny_lists (Attached lm) (pc_deny_binaries ?p) (pc_deny_basenames ?p) ?k1 = ((n, m), k')"
      by (metis prod.collapse)
    note A = arm_deny_lists_spec [OF k1 a]
    have "startup_kernel (Attached lm) depth ?p k = k'" using True a by (simp add: startup_kernel_def)
    with True A assms(2) clean_encodable [OF assms(2)] live [of k'] show ?thesis
      unfolding deny_synced_def Let_def live
      by (auto simp: startup_server_def server_new_def startup_posture_def with_ebpf_def threat_map_new_def clean_lists_def Let_def
          simp del: profile_to_u8.simps)
  next
    case False
    then have "startup_kernel (Attached lm) depth ?p k = ?k1" by (simp add: startup_kernel_def)
    with False k1 assms(2) show ?thesis
      unfolding deny_synced_def Let_def live
      by (auto simp: startup_server_def server_new_def startup_posture_def with_ebpf_def threat_map_new_def clean_lists_def
          armed_nothing encodable_def Let_def)
  qed
qed



section \<open>A signal does not stop the daemon\<close>

text \<open>
  The standard library's iterator of incoming connections never ends, and its \<open>accept\<close> is repeated after a signal. Then the accept loop
  does not return, however many signals arrive and whatever the flag is: only the refresh thread sees it.
\<close>

theorem signals_ignored_by_server:
  assumes "\<And>k. incoming k \<noteq> None"
  shows "serve_loop fuel incoming signals leaving cap k st = None"
proof (induction fuel arbitrary: k st)
  case (Suc fuel)
  obtain a where "incoming k = Some a" using assms by blast
  then show ?case by (cases st; cases a) (simp_all add: Suc Let_def)
qed simp

end
