(* ===== verification/Cli.thy ===== *)
theory Cli
  imports Startup
begin

text \<open>
  The command-line client (\<open>cli_client.rs\<close>): the subcommands, the user the client acts for under \<open>sudo\<close>, the exchange with the
  daemon, what is printed and the status the process ends with, and \<open>atoms pin-init\<close>, which works on the disk and not through the
  daemon. The texts of notices and errors are values; the listings are the lines that are printed.
\<close>

section \<open>Subcommands\<close>

datatype ProfileOp = ProfileGet | ProfileSet SecurityProfile
datatype AtomsOp =
    AtomsOpAdd string | AtomsOpRemove string
  | AtomsOpList bool bool bool bool \<comment> \<open>the flags: system, fetched, user, session\<close>
  | AtomsOpDrift bool | AtomsOpPinInit bool
datatype UrlsOp = UrlsOpAllow string | UrlsOpBlock string | UrlsOpList
datatype TrustOp = TrustOpList | TrustOpAdd string
datatype SessionOp = SessionOpList | SessionOpClear | SessionOpWrite

datatype Subcommand =
    AtomsCommand AtomsOp | UrlsCommand UrlsOp | SessionCommand SessionOp | TrustCommand TrustOp | ProfileCommand ProfileOp

section \<open>The user the client acts for\<close>

record cli_env =
  ci_euid :: u32
  ci_var :: "string \<Rightarrow> string option"
  ci_passwd :: "string \<Rightarrow> u32 option" \<comment> \<open>\<open>getpwnam\<close>\<close>

definition sudo_user_matches_uid :: "(string \<Rightarrow> u32 option) \<Rightarrow> string \<Rightarrow> u32 \<Rightarrow> bool" where
  "sudo_user_matches_uid passwd name uid =
     (if NUL \<in> set name then False else case passwd name of None \<Rightarrow> False | Some u \<Rightarrow> u = uid)"

definition sudo_target_uid :: "cli_env \<Rightarrow> u32 option" where
  "sudo_target_uid ci =
     (if ci_euid ci \<noteq> 0 then None
      else do {
        txt \<leftarrow> ci_var ci ''SUDO_UID'';
        n \<leftarrow> parse_uint 32 txt;
        sudo_user \<leftarrow> ci_var ci ''SUDO_USER'';
        _ \<leftarrow> ci_var ci ''SUDO_GID'';
        (if \<not> sudo_user_matches_uid (ci_passwd ci) sudo_user (word_of_nat n) then None else Some (word_of_nat n))
      })"

section \<open>The exchange\<close>

datatype link_error = ConnectFailed os_error | CloneFailed os_error | NotSerialized | LinkIo os_error | NotUtf8 | NotAResponse

text \<open>
  \<open>so_talk\<close> hands bytes to the daemon and yields what it writes back, with its state. The writer that is dropped is a duplicate of
  the descriptor that the reader keeps, so the daemon sees no end of file before the client has read its answer.
\<close>

record 's socket =
  so_connect :: "os_error option"
  so_clone :: "os_error option"
  so_serialize :: "u64 \<Rightarrow> request \<Rightarrow> string option"
  so_talk :: "string \<Rightarrow> 's \<Rightarrow> (os_error, string) result \<times> 's"
  so_parse :: "string \<Rightarrow> response option"

definition first_line :: "string \<Rightarrow> string" where
  "first_line s = take (length (takeWhile (\<lambda>c. c \<noteq> NL) s) + 1) s"

type_synonym 's link = "request \<Rightarrow> 's \<Rightarrow> (link_error, response) result \<times> 's"

definition send_request :: "'s socket \<Rightarrow> 's link" where
  "send_request so req s =
     (case so_connect so of Some e \<Rightarrow> (Inl (ConnectFailed e), s) | None \<Rightarrow>
      case so_clone so of Some e \<Rightarrow> (Inl (CloneFailed e), s) | None \<Rightarrow>
      case so_serialize so 1 req of None \<Rightarrow> (Inl NotSerialized, s) | Some b \<Rightarrow>
      case so_talk so (b @ [NL]) s of
        (Inl e, s) \<Rightarrow> (Inl (LinkIo e), s)
      | (Inr answer, s) \<Rightarrow>
          let line = first_line answer
          in if \<not> utf8_valid line then (Inl NotUtf8, s)
             else case so_parse so (str_trim line) of None \<Rightarrow> (Inl NotAResponse, s) | Some r \<Rightarrow> (Inr r, s))"

section \<open>What is printed, and how it ends\<close>

datatype notice = NoSnapshot | PinNeedsSudo | PinExists | PinCreated
datatype cli_line = Printed string | Note notice | DaemonSays message | Unexpected response
datatype cli_end = Done | Exit nat | LinkFailed link_error | PinFailed os_error | JsonFailed

type_synonym outcome = "cli_end \<times> cli_line list"

text \<open>The status of the process: an error that \<open>main\<close> returns is 1.\<close>

fun cli_status :: "cli_end \<Rightarrow> nat" where
  "cli_status Done = 0"
| "cli_status (Exit n) = n"
| "cli_status _ = 1"

definition other_response :: "response \<Rightarrow> outcome" where
  "other_response r = (case r of RError m \<Rightarrow> (Exit 1, [DaemonSays m]) | _ \<Rightarrow> (Exit 1, [Unexpected r]))"

definition on_response :: "'s link \<Rightarrow> request \<Rightarrow> (response \<Rightarrow> outcome) \<Rightarrow> 's \<Rightarrow> outcome \<times> 's" where
  "on_response send req f s =
     (case send req s of (Inl e, s) \<Rightarrow> ((LinkFailed e, []), s) | (Inr r, s) \<Rightarrow> (f r, s))"

definition send_and_check :: "'s link \<Rightarrow> request \<Rightarrow> 's \<Rightarrow> outcome \<times> 's" where
  "send_and_check send req = on_response send req (\<lambda>r. case r of ROk \<Rightarrow> (Done, []) | _ \<Rightarrow> other_response r)"

definition cli_profile :: "'s link \<Rightarrow> request \<Rightarrow> string \<Rightarrow> 's \<Rightarrow> outcome \<times> 's" where
  "cli_profile send req label = on_response send req
     (\<lambda>r. case r of RProfile p \<Rightarrow> (Done, [Printed (label @ '' '' @ profile_as_str p)]) | _ \<Rightarrow> other_response r)"

definition cli_trust_list :: "'s link \<Rightarrow> u32 option \<Rightarrow> 's \<Rightarrow> outcome \<times> 's" where
  "cli_trust_list send target = on_response send (TrustList target None)
     (\<lambda>r. case r of RTrustList trust \<Rightarrow> (Done, map Printed trust) | _ \<Rightarrow> other_response r)"

definition cli_atoms_list :: "'s link \<Rightarrow> AtomScope \<Rightarrow> u32 option \<Rightarrow> 's \<Rightarrow> outcome \<times> 's" where
  "cli_atoms_list send scope target = on_response send (AtomsList scope target)
     (\<lambda>r. case r of RAtomsList atoms \<Rightarrow> (Done, map Printed atoms) | _ \<Rightarrow> other_response r)"

definition cli_urls_list :: "'s link \<Rightarrow> u32 option \<Rightarrow> 's \<Rightarrow> outcome \<times> 's" where
  "cli_urls_list send target = on_response send (UrlsList target)
     (\<lambda>r. case r of RUrlsList entries \<Rightarrow> (Done, map (\<lambda>(host, dec). Printed (dec @ [TAB] @ host)) entries) | _ \<Rightarrow> other_response r)"

definition titled :: "string \<Rightarrow> string list \<Rightarrow> cli_line list" where
  "titled name xs =
     (if xs = [] then [] else Printed (name @ '' ('' @ show_nat (length xs) @ ''):'') # map (\<lambda>x. Printed (''  '' @ x)) xs)"

definition cli_session_list :: "'s link \<Rightarrow> u32 option \<Rightarrow> 's \<Rightarrow> outcome \<times> 's" where
  "cli_session_list send target = on_response send (SessionListReq target)
     (\<lambda>r. case r of
        RSessionList atoms allow block trust \<Rightarrow>
          if atoms = [] \<and> allow = [] \<and> block = [] \<and> trust = [] then (Done, [Printed ''(session is empty)''])
          else (Done, titled ''atoms'' atoms @ titled ''urls allow'' allow @ titled ''urls block'' block @ titled ''trust'' trust)
      | _ \<Rightarrow> other_response r)"

section \<open>The drift report\<close>

definition drift_status :: "drift_entry \<Rightarrow> string" where
  "drift_status e =
     (case (de_pinned e, de_upstream e) of
        (Some p, Some u) \<Rightarrow> if p = u then ''in-sync'' else ''BEHIND''
      | (None, Some _) \<Rightarrow> ''live''
      | _ \<Rightarrow> ''unknown'')"

definition drift_line :: "drift_entry \<Rightarrow> string" where
  "drift_line e =
     de_name e @ [TAB] @ drift_status e
     @ [TAB] @ ''pinned='' @ (case de_pinned e of Some p \<Rightarrow> p | None \<Rightarrow> ''(live tracking)'')
     @ [TAB] @ ''upstream='' @ (case de_upstream e of Some u \<Rightarrow> u | None \<Rightarrow> ''(probe failed)'')
     @ (case de_behind_since e of Some s \<Rightarrow> '' (since '' @ s @ '')'' | None \<Rightarrow> [])"

text \<open>\<open>pretty\<close> is the JSON writer.\<close>

definition cli_atoms_drift ::
    "(bool \<times> string option \<times> drift_entry list \<Rightarrow> string option) \<Rightarrow> 's link \<Rightarrow> bool \<Rightarrow> 's \<Rightarrow> outcome \<times> 's" where
  "cli_atoms_drift pretty send json = on_response send AtomsDrift
     (\<lambda>r. case r of
        RAtomsDrift available updated_at sources \<Rightarrow>
          let behind_count = length (filter is_behind sources);
              ending = (if 0 < behind_count then Exit 2 else Done)
          in if json
             then (case pretty (available, updated_at, sources) of
                     None \<Rightarrow> (JsonFailed, []) | Some j \<Rightarrow> (ending, [Printed j]))
             else if \<not> available then (Done, [Note NoSnapshot])
             else (ending,
                   (case updated_at of Some ts \<Rightarrow> [Printed (''# snapshot updated at '' @ ts)] | None \<Rightarrow> [])
                   @ map (Printed \<circ> drift_line) sources)
      | _ \<Rightarrow> other_response r)"

section \<open>Seeding the pin file\<close>

definition pin_init_tmp :: "os_env \<Rightarrow> path \<Rightarrow> path" where
  "pin_init_tmp env p = with_file_name p (''atoms.pins.toml.tmp.'' @ show_u32 (process_id env))"

definition pin_init_bytes :: "os_env \<Rightarrow> path \<Rightarrow> string \<Rightarrow> (os_error, unit) io" where
  "pin_init_bytes env p content =
     (let tmp = pin_init_tmp env p
      in io_bind (case p of [] \<Rightarrow> io_ret () | _ \<Rightarrow> sys_create_dir_all env (butlast p)) (\<lambda>_.
         io_bind (sys_create_new env 0x1B6 tmp) (\<lambda>_.
         io_bind (io_catch (sys_write_all env tmp content) (cleanup env tmp)) (\<lambda>_.
         io_bind (sys_chmod env tmp 0x1A4) (\<lambda>_.
         io_bind (io_catch (sys_sync env tmp) (cleanup env tmp)) (\<lambda>_.
         io_bind (io_catch (sys_rename env tmp p) (cleanup env tmp)) (\<lambda>_.
         fsync_parent_dir env p)))))))"

text \<open>\<open>template\<close> is the bundled example file.\<close>

definition handle_pin_init :: "os_env \<Rightarrow> string \<Rightarrow> bool \<Rightarrow> world \<Rightarrow> outcome \<times> world" where
  "handle_pin_init env template force w =
     (if euid env \<noteq> 0 then ((Exit 1, [Note PinNeedsSudo]), w)
      else case sys_exists env DEFAULT_PIN_FILE w of (there, w) \<Rightarrow>
        if there \<and> \<not> force then ((Exit 1, [Note PinExists]), w)
        else case pin_init_bytes env DEFAULT_PIN_FILE template w of
               (Inl e, w) \<Rightarrow> ((PinFailed e, []), w)
             | (Inr _, w) \<Rightarrow> ((Done, [Note PinCreated]), w))"

section \<open>Dispatch\<close>

text \<open>The disk is reached through \<open>disk\<close>, which runs an operation on it.\<close>

record 's surroundings =
  su_send :: "'s link"
  su_disk :: "(world \<Rightarrow> outcome \<times> world) \<Rightarrow> 's \<Rightarrow> outcome \<times> 's"
  su_os :: os_env
  su_template :: string
  su_pretty :: "bool \<times> string option \<times> drift_entry list \<Rightarrow> string option"

definition list_scope :: "bool \<Rightarrow> bool \<Rightarrow> bool \<Rightarrow> bool \<Rightarrow> AtomScope" where
  "list_scope system fetched user session =
     (if system then SystemScope else if fetched then FetchedScope else if session then SessionScope else UserScope)"

fun dispatch_atoms :: "'s surroundings \<Rightarrow> u32 option \<Rightarrow> AtomsOp \<Rightarrow> 's \<Rightarrow> outcome \<times> 's" where
  "dispatch_atoms su target (AtomsOpAdd pat) = send_and_check (su_send su) (AtomsAdd pat target)"
| "dispatch_atoms su target (AtomsOpRemove pat) = send_and_check (su_send su) (AtomsRemove pat target)"
| "dispatch_atoms su target (AtomsOpList system fetched user session) =
     cli_atoms_list (su_send su) (list_scope system fetched user session) target"
| "dispatch_atoms su target (AtomsOpDrift json) = cli_atoms_drift (su_pretty su) (su_send su) json"
| "dispatch_atoms su target (AtomsOpPinInit force) = su_disk su (handle_pin_init (su_os su) (su_template su) force)"

fun cli_dispatch :: "'s surroundings \<Rightarrow> cli_env \<Rightarrow> Subcommand \<Rightarrow> 's \<Rightarrow> outcome \<times> 's" where
  "cli_dispatch su ci (AtomsCommand a) = dispatch_atoms su (sudo_target_uid ci) a"
| "cli_dispatch su ci (UrlsCommand (UrlsOpAllow host)) = send_and_check (su_send su) (UrlsAllow host (sudo_target_uid ci))"
| "cli_dispatch su ci (UrlsCommand (UrlsOpBlock host)) = send_and_check (su_send su) (UrlsBlock host (sudo_target_uid ci))"
| "cli_dispatch su ci (UrlsCommand UrlsOpList) = cli_urls_list (su_send su) (sudo_target_uid ci)"
| "cli_dispatch su ci (SessionCommand SessionOpList) = cli_session_list (su_send su) (sudo_target_uid ci)"
| "cli_dispatch su ci (SessionCommand SessionOpClear) = send_and_check (su_send su) (SessionClear (sudo_target_uid ci))"
| "cli_dispatch su ci (SessionCommand SessionOpWrite) = send_and_check (su_send su) (SessionWrite (sudo_target_uid ci))"
| "cli_dispatch su ci (TrustCommand TrustOpList) = cli_trust_list (su_send su) (sudo_target_uid ci)"
| "cli_dispatch su ci (TrustCommand (TrustOpAdd hash)) = send_and_check (su_send su) (TrustAdd hash (sudo_target_uid ci))"
| "cli_dispatch su ci (ProfileCommand ProfileGet) = cli_profile (su_send su) GetProfile ''active profile''"
| "cli_dispatch su ci (ProfileCommand (ProfileSet p)) = cli_profile (su_send su) (SetProfile p) ''switched to''"

section \<open>The pin file is published whole\<close>

definition public_file :: "os_env \<Rightarrow> string \<Rightarrow> fs_file \<Rightarrow> bool" where
  "public_file env c f \<longleftrightarrow> f = \<lparr>f_bytes = c, f_mode = 0x1A4, f_owner = euid env, f_synced = True\<rparr>"

lemma pin_tmp_neq: "p \<noteq> [] \<Longrightarrow> last p = ''atoms.pins.toml'' \<Longrightarrow> pin_init_tmp env p \<noteq> p"
  by (auto simp: pin_init_tmp_def with_file_name_def dest: arg_cong [where f = last])

lemma pin_tail:
  assumes "io_bind (sys_chmod env t 0x1A4) (\<lambda>_.
         io_bind (io_catch (sys_sync env t) (cleanup env t)) (\<lambda>_.
         io_bind (io_catch (sys_rename env t p) (cleanup env t)) (\<lambda>_. fsync_parent_dir env p))) w = (r, w')"
    and t: "t \<noteq> p" and f: "lookup_file w t = Some f" "f_bytes f = c" "f_owner f = euid env"
  shows "publishes (public_file env c) (\<lambda>_. True) t p w r w'"
  using assms(1) t
proof (rule publishes_step)
  let ?P = "\<lambda>_ :: fs_file option. True"
  show "only_tmp ?P t w w1" if "sys_chmod env t 0x1A4 w = (r1, w1)" for r1 w1
    using chmod_step [OF that f(1), of ?P] by (cases "r1 = Inr ()") simp_all
  fix a w1
  assume "sys_chmod env t 0x1A4 w = (Inr a, w1)"
  from chmod_step [OF this f(1), of ?P] have g: "lookup_file w1 t = Some (f\<lparr>f_mode := 0x1A4\<rparr>)" by simp
  assume "io_bind (io_catch (sys_sync env t) (cleanup env t)) (\<lambda>_.
         io_bind (io_catch (sys_rename env t p) (cleanup env t)) (\<lambda>_. fsync_parent_dir env p)) w1 = (r, w')"
  then show "publishes (public_file env c) ?P t p w1 r w'"
  proof (rule publishes_guarded [OF _ t])
    show "only_tmp ?P t w1 w2 \<and> True" if "sys_sync env t w1 = (r2, w2)" for r2 w2
      using sync_step [OF that g, of ?P] by simp
    fix a2 w2
    assume "sys_sync env t w1 = (Inr a2, w2)"
    from sync_step [OF this g, of ?P] have "lookup_file w2 t = Some (f\<lparr>f_mode := 0x1A4, f_synced := True\<rparr>)" by simp
    moreover assume "io_bind (io_catch (sys_rename env t p) (cleanup env t)) (\<lambda>_. fsync_parent_dir env p) w2 = (r, w')"
    ultimately show "publishes (public_file env c) ?P t p w2 r w'"
      using f t by (intro publishes_guarded_rename [of env t p w2 r w' "f\<lparr>f_mode := 0x1A4, f_synced := True\<rparr>"])
        (simp_all add: public_file_def)
  qed simp
qed

lemma pin_init_publishes:
  assumes "pin_init_bytes env p c w = (r, w')" and t: "pin_init_tmp env p \<noteq> p"
  shows "publishes (public_file env c) (\<lambda>_. True) (pin_init_tmp env p) p w r w'"
proof -
  let ?t = "pin_init_tmp env p"
  let ?P = "\<lambda>_ :: fs_file option. True"
  have T: "?P None" by simp
  let ?mk = "case p of [] \<Rightarrow> io_ret () | _ \<Rightarrow> sys_create_dir_all env (butlast p)"
  have mk: "only_tmp ?P ?t w w1" if "?mk w = (r1, w1)" for r1 w1
    using that create_dir_all_step [of env "butlast p" w r1 w1 ?P ?t] by (cases p) (auto simp: io_ret_def)
  show ?thesis
    using assms(1) unfolding pin_init_bytes_def Let_def
  proof (rule publishes_step [OF _ t mk])
    fix a w1
    assume "io_bind (sys_create_new env 0x1B6 ?t) (\<lambda>_.
         io_bind (io_catch (sys_write_all env ?t c) (cleanup env ?t)) (\<lambda>_.
         io_bind (sys_chmod env ?t 0x1A4) (\<lambda>_.
         io_bind (io_catch (sys_sync env ?t) (cleanup env ?t)) (\<lambda>_.
         io_bind (io_catch (sys_rename env ?t p) (cleanup env ?t)) (\<lambda>_. fsync_parent_dir env p))))) w1 = (r, w')"
    then show "publishes (public_file env c) ?P ?t p w1 r w'"
    proof (rule publishes_step [OF _ t])
      show "only_tmp ?P ?t w1 w2" if "sys_create_new env 0x1B6 ?t w1 = (r2, w2)" for r2 w2
        using create_new_step [OF that, of ?P] by simp
      fix a2 w2
      assume "sys_create_new env 0x1B6 ?t w1 = (Inr a2, w2)"
      from create_new_step [OF this, of ?P] have f2: "lookup_file w2 ?t = Some (scratch env 0x1B6)" by simp
      assume "io_bind (io_catch (sys_write_all env ?t c) (cleanup env ?t)) (\<lambda>_.
         io_bind (sys_chmod env ?t 0x1A4) (\<lambda>_.
         io_bind (io_catch (sys_sync env ?t) (cleanup env ?t)) (\<lambda>_.
         io_bind (io_catch (sys_rename env ?t p) (cleanup env ?t)) (\<lambda>_. fsync_parent_dir env p)))) w2 = (r, w')"
      then show "publishes (public_file env c) ?P ?t p w2 r w'"
      proof (rule publishes_guarded [OF _ t T])
        show "only_tmp ?P ?t w2 w3 \<and> True" if "sys_write_all env ?t c w2 = (r3, w3)" for r3 w3
          using write_all_step [OF that f2, of ?P] by simp
        fix a3 w3
        assume "sys_write_all env ?t c w2 = (Inr a3, w3)"
        from write_all_step [OF this f2, of ?P] have f3: "lookup_file w3 ?t = Some (scratch env 0x1B6\<lparr>f_bytes := c\<rparr>)"
          by simp
        assume "io_bind (sys_chmod env ?t 0x1A4) (\<lambda>_.
           io_bind (io_catch (sys_sync env ?t) (cleanup env ?t)) (\<lambda>_.
           io_bind (io_catch (sys_rename env ?t p) (cleanup env ?t)) (\<lambda>_. fsync_parent_dir env p))) w3 = (r, w')"
        then show "publishes (public_file env c) ?P ?t p w3 r w'"
          by (rule pin_tail [OF _ t f3]) simp_all
      qed
    qed
  qed
qed

lemma pin_file_neq: "pin_init_tmp env DEFAULT_PIN_FILE \<noteq> DEFAULT_PIN_FILE"
  by (rule pin_tmp_neq) (simp_all add: DEFAULT_PIN_FILE_def)

lemma gate_0644: "(0x1A4 :: u32) AND 0x1FF AND 0x12 = 0"
  by simp

lemma pin_init_cases:
  assumes "handle_pin_init env template force w = ((e, out), w')"
  shows "(euid env \<noteq> 0 \<and> w' = w \<and> e = Exit 1)
    \<or> (euid env = 0 \<and> \<not> force \<and> fst (sys_exists env DEFAULT_PIN_FILE w) \<and> w' = commit w \<and> e = Exit 1)
    \<or> (euid env = 0 \<and> (force \<or> \<not> fst (sys_exists env DEFAULT_PIN_FILE w))
        \<and> (\<exists>r. pin_init_bytes env DEFAULT_PIN_FILE template (commit w) = (r, w') \<and> (e = Done \<longleftrightarrow> is_Ok r) \<and> (e \<noteq> Done \<longrightarrow> (\<exists>x. e = PinFailed x))))"
  using assms by (auto simp: handle_pin_init_def sys_exists_def split: if_splits prod.splits sum.splits)

lemma pin_init_files:
  assumes "handle_pin_init env template force w = ((e, out), w')"
  shows "\<forall>q. q \<noteq> DEFAULT_PIN_FILE \<and> q \<noteq> pin_init_tmp env DEFAULT_PIN_FILE \<longrightarrow> lookup_file w' q = lookup_file w q"
  using pin_init_cases [OF assms] pin_init_publishes [OF _ pin_file_neq]
  by (auto simp: publishes_def commit_def split: if_splits) fastforce+

text \<open>
  Seeding the pin file never tears it, never replaces one that is there unless forced, and what it writes is accepted.
  Under every schedule of failing system calls: a caller that is not root changes nothing; without the flag an existing file is refused
  and stays; at every moment the file is the old one or the complete template, flushed; no other file but the scratch file
  changes. On success the daemon's loader reads back exactly the template, with no objection to owner or mode.
\<close>

theorem pin_init_safe:
  assumes "handle_pin_init env template force w = ((e, out), w')"
  shows "(euid env \<noteq> 0 \<longrightarrow> w' = w \<and> cli_status e = 1)
    \<and> (\<not> force \<and> fault env (ticks w) = None \<and> lookup_file w DEFAULT_PIN_FILE \<noteq> None \<longrightarrow> files w' = files w \<and> cli_status e = 1)
    \<and> (\<forall>q. q \<noteq> DEFAULT_PIN_FILE \<and> q \<noteq> pin_init_tmp env DEFAULT_PIN_FILE \<longrightarrow> lookup_file w' q = lookup_file w q)
    \<and> (\<exists>ts. trace w' = ts @ trace w \<and> (\<forall>s\<in>set ts. map_of s DEFAULT_PIN_FILE = lookup_file w DEFAULT_PIN_FILE
          \<or> (\<exists>f. map_of s DEFAULT_PIN_FILE = Some f \<and> public_file env template f)))
    \<and> (cli_status e \<noteq> 0 \<longrightarrow> lookup_file w' DEFAULT_PIN_FILE = lookup_file w DEFAULT_PIN_FILE)
    \<and> (cli_status e = 0 \<longrightarrow> (\<forall>env'. (\<forall>n. fault env' n = None) \<longrightarrow>
         fst (load_pins env' toml DEFAULT_PIN_FILE w') = (case parse_pins toml template of Inl x \<Rightarrow> Inl x | Inr pins \<Rightarrow> Inr (Some pins))))"
proof -
  let ?p = DEFAULT_PIN_FILE and ?t = "pin_init_tmp env DEFAULT_PIN_FILE"
  consider (user) "euid env \<noteq> 0" "w' = w" "e = Exit 1"
    | (there) "\<not> force" "fst (sys_exists env ?p w)" "w' = commit w" "e = Exit 1" "euid env = 0"
    | (written) r where "euid env = 0" "force \<or> \<not> fst (sys_exists env ?p w)" "pin_init_bytes env ?p template (commit w) = (r, w')"
        "e = Done \<longleftrightarrow> is_Ok r" "e \<noteq> Done \<longrightarrow> (\<exists>x. e = PinFailed x)"
    using pin_init_cases [OF assms] by blast
  then show ?thesis
  proof cases
    case user
    then show ?thesis by simp
  next
    case there
    then show ?thesis by (simp add: commit_def)
  next
    case written
    note P = pin_init_publishes [OF written(3) pin_file_neq]
    have st: "cli_status e = 0 \<longleftrightarrow> is_Ok r" using written(4,5) by (cases e) auto
    have load: "fst (load_pins env' toml ?p w') = (case parse_pins toml template of Inl x \<Rightarrow> Inl x | Inr pins \<Rightarrow> Inr (Some pins))"
      if "is_Ok r" "\<forall>n. fault env' n = None" for env'
    proof -
      have "if is_Ok r then \<exists>f. public_file env template f \<and> lookup_file w' = (lookup_file (commit w))(?t := None, ?p \<mapsto> f)
          else \<forall>q. q \<noteq> ?t \<longrightarrow> lookup_file w' q = lookup_file (commit w) q"
        using P unfolding publishes_def by (rule conjunct1)
      with that(1) obtain f where f: "lookup_file w' = (lookup_file (commit w))(?t := None, ?p \<mapsto> f)" "public_file env template f"
        by (cases r) auto
      have "lookup_file w' ?p = Some f" by (simp add: f(1))
      then show ?thesis using that(2) written(1) f(2)
        by (auto simp: load_pins_def load_pins_with_owner_def sys_metadata_def sys_read_def sys_def public_file_def commit_def
            check_pin_file_perms_def Let_def gate_0644 split: sum.splits)
    qed
    have other: "\<not> is_Ok r \<longrightarrow> lookup_file w' ?p = lookup_file w ?p"
      using P pin_file_neq pin_file_neq [symmetric] by (auto simp: publishes_def commit_def split: if_splits)
    have ex: "\<exists>ts. trace w' = ts @ trace w \<and> (\<forall>s\<in>set ts. map_of s ?p = lookup_file w ?p
          \<or> (\<exists>f. map_of s ?p = Some f \<and> public_file env template f))"
    proof -
      obtain ts where "trace w' = ts @ trace (commit w)"
        "\<forall>s\<in>set ts. map_of s ?p = lookup_file w ?p \<or> (\<exists>f. map_of s ?p = Some f \<and> public_file env template f)"
        using P unfolding publishes_def by (auto simp: commit_def)
      then show ?thesis by (intro exI [of _ "ts @ [files w]"]) (auto simp: commit_def)
    qed
    have free: "\<not> (\<not> force \<and> fault env (ticks w) = None \<and> lookup_file w ?p \<noteq> None)"
      using written(2) by (auto simp: sys_exists_def)
    show ?thesis
    proof (intro conjI, goal_cases)
      case 2
      show ?case using free by blast
    next
      case 4
      show ?case by (rule ex)
    qed (use written(1) st other load pin_init_files [OF assms] in simp_all)
  qed
qed

text \<open>What it does when no call fails, and when only the change of the mode does.\<close>

lemma pin_init_steps:
  assumes "\<forall>n. fault env n = (if failing \<and> n = ticks w + 3 then Some e else None)" and "p \<noteq> []" and "pin_init_tmp env p \<noteq> p"
    and "\<forall>q\<in>set (prefixes (butlast p)). is_dir w q"
    and "lookup_file w (pin_init_tmp env p) = None" and "\<not> is_dir w (pin_init_tmp env p)" and "\<not> is_dir w p"
  shows "fst (pin_init_bytes env p c w) = (if failing then Inl e else Inr ())
    \<and> (failing \<longrightarrow> lookup_file (snd (pin_init_bytes env p c w)) (pin_init_tmp env p) \<noteq> None)
    \<and> dirs (snd (pin_init_bytes env p c w)) = dirs w"
proof -
  obtain t where t: "t = pin_init_tmp env p" by blast
  have b: "butlast t = butlast p" "t \<noteq> p" using assms(3) by (simp_all add: t pin_init_tmp_def with_file_name_def)
  have d: "is_dir w (butlast p)" using assms(4) by simp
  have first: "(case p of [] \<Rightarrow> io_ret () | _ \<Rightarrow> sys_create_dir_all env (butlast p)) = sys_create_dir_all env (butlast p)"
    using assms(2) by (cases p) simp_all
  have mk: "mkdirs env q (prefixes (butlast p)) v = (Inr (), v)" if "dirs v = dirs w" for v q
    using assms(4) that by (intro mkdirs_existing) (simp add: is_dir_def)
  show ?thesis
    using assms(1,5,6,7) b d unfolding pin_init_bytes_def Let_def first t [symmetric]
    by (cases failing) (simp_all add: io_defs sys_defs sys_create_dir_all_def mk)
qed

lemma pin_init_blocked:
  assumes "\<forall>n. fault env n = None" and "p \<noteq> []" and "\<forall>q\<in>set (prefixes (butlast p)). is_dir w q"
    and "lookup_file w (pin_init_tmp env p) \<noteq> None"
  shows "fst (pin_init_bytes env p c w) = Inl EAlreadyExists"
proof -
  have first: "(case p of [] \<Rightarrow> io_ret () | _ \<Rightarrow> sys_create_dir_all env (butlast p)) = sys_create_dir_all env (butlast p)"
    using assms(2) by (cases p) simp_all
  have "mkdirs env q (prefixes (butlast p)) v = (Inr (), v)" if "dirs v = dirs w" for v q
    using assms(3) that by (intro mkdirs_existing) (simp add: is_dir_def)
  then show ?thesis using assms(1,4) unfolding pin_init_bytes_def Let_def first
    by (simp add: io_defs sys_create_dir_all_def sys_def sys_create_new_def)
qed

abbreviation root_env :: "(nat \<Rightarrow> os_error option) \<Rightarrow> os_env" where
  "root_env fl \<equiv> (calm_env fl)\<lparr>euid := 0\<rparr>"

abbreviation etc_world :: world where
  "etc_world \<equiv> demo_world\<lparr>dirs := [([], 0x1ED), ([''etc''], 0x1ED), ([''etc'', ''atty-guard''], 0x1ED)]\<rparr>"

lemma etc_world_ready:
  "DEFAULT_PIN_FILE \<noteq> []" "\<forall>q\<in>set (prefixes (butlast DEFAULT_PIN_FILE)). is_dir etc_world q"
  "lookup_file etc_world (pin_init_tmp env DEFAULT_PIN_FILE) = None" "\<not> is_dir etc_world (pin_init_tmp env DEFAULT_PIN_FILE)"
  "lookup_file etc_world DEFAULT_PIN_FILE = None" "\<not> is_dir etc_world DEFAULT_PIN_FILE"
  by (simp_all add: DEFAULT_PIN_FILE_def is_dir_def pin_init_tmp_def with_file_name_def)

lemma commit_frame [simp]: "is_dir (commit w) q = is_dir w q" "lookup_file (commit w) q = lookup_file w q"
  by (simp_all add: is_dir_def commit_def)

lemma pin_init_runs: "\<exists>w'. handle_pin_init (root_env (\<lambda>_. None)) template False etc_world = ((Done, [Note PinCreated]), w')"
proof -
  have "fst (pin_init_bytes (root_env (\<lambda>_. None)) DEFAULT_PIN_FILE template (commit etc_world)) = Inr ()"
    using pin_init_steps [where failing = False and env = "root_env (\<lambda>_. None)" and w = "commit etc_world", OF _ etc_world_ready(1) pin_file_neq]
      etc_world_ready by simp
  then show ?thesis using etc_world_ready(5,6)
    by (cases "pin_init_bytes (root_env (\<lambda>_. None)) DEFAULT_PIN_FILE template (commit etc_world)")
       (simp add: handle_pin_init_def sys_exists_def del: commit_simps)
qed

text \<open>The template without an entry is refused until it is edited.\<close>

theorem pin_init_safe_witness:
  "\<exists>w'. handle_pin_init (root_env (\<lambda>_. None)) ''# pins'' False etc_world = ((Done, [Note PinCreated]), w')
     \<and> fst (load_pins (root_env (\<lambda>_. None)) (\<lambda>_. Some \<lparr>pins_gtfobins = None, pins_sigma = None\<rparr>) DEFAULT_PIN_FILE w')
       = Inl (ParseError PinNoEntry)"
proof -
  obtain w' where h: "handle_pin_init (root_env (\<lambda>_. None)) ''# pins'' False etc_world = ((Done, [Note PinCreated]), w')"
    using pin_init_runs by blast
  have "utf8_valid ''# pins''" by (rule ascii_valid) (simp add: ascii_def)
  then have "parse_pins (\<lambda>_. Some \<lparr>pins_gtfobins = None, pins_sigma = None\<rparr>) ''# pins'' = Inl (ParseError PinNoEntry)"
    by (simp add: parse_pins_def validate_pins_def is_ascii_whitespace_def)
  with h pin_init_safe [OF h, of "\<lambda>_. Some \<lparr>pins_gtfobins = None, pins_sigma = None\<rparr>"] show ?thesis by simp
qed

text \<open>
  When the mode cannot be set the scratch file stays behind, and a later run under the same process number, whose calls all
  succeed, is refused by it.
\<close>

theorem pin_init_leaves_scratch:
  assumes "env = root_env (\<lambda>n. if n = 4 then Some e else None)"
  shows "fst (handle_pin_init env template False etc_world) = (PinFailed e, [])
    \<and> fst (handle_pin_init (root_env (\<lambda>_. None)) template False (snd (handle_pin_init env template False etc_world))) = (PinFailed EAlreadyExists, [])"
proof -
  let ?p = DEFAULT_PIN_FILE
  obtain r w1 where b: "pin_init_bytes env ?p template (commit etc_world) = (r, w1)" by fastforce
  have "\<forall>n. fault env n = (if True \<and> n = ticks (commit etc_world) + 3 then Some e else None)"
    by (simp add: assms commit_def)
  from pin_init_steps [OF this etc_world_ready(1) pin_file_neq, of template] etc_world_ready b
  have S: "r = Inl e" "lookup_file w1 (pin_init_tmp env ?p) \<noteq> None" "dirs w1 = dirs etc_world"
    by simp_all
  have h: "handle_pin_init env template False etc_world = ((PinFailed e, []), w1)"
    using b S(1) etc_world_ready(5,6) by (simp add: handle_pin_init_def sys_exists_def assms del: commit_simps)
  have none: "lookup_file w1 ?p = None" "\<not> is_dir w1 ?p"
    using pin_init_publishes [OF b pin_file_neq] S(1,3) etc_world_ready(5,6) pin_file_neq [of env]
    by (auto simp: publishes_def is_dir_def)
  have tmp: "pin_init_tmp (root_env (\<lambda>_. None)) ?p = pin_init_tmp env ?p" by (simp add: pin_init_tmp_def assms)
  have "\<forall>q\<in>set (prefixes (butlast ?p)). is_dir w1 q" using etc_world_ready(2) S(3) by (simp add: is_dir_def)
  with pin_init_blocked [of "root_env (\<lambda>_. None)" ?p "commit w1" template] S(2) tmp etc_world_ready(1)
  have "fst (pin_init_bytes (root_env (\<lambda>_. None)) ?p template (commit w1)) = Inl EAlreadyExists" by simp
  with none h show ?thesis
    by (cases "pin_init_bytes (root_env (\<lambda>_. None)) ?p template (commit w1)")
       (simp add: handle_pin_init_def sys_exists_def del: commit_simps)
qed

section \<open>The status of the drift report\<close>

lemma behind_printed: "drift_status e = ''BEHIND'' \<longleftrightarrow> is_behind e"
  by (auto simp: drift_status_def split: option.splits)

text \<open>In both modes the status is 2 exactly if some source is behind; scripts need not read the text.\<close>

lemma drift_exit_status:
  assumes "send AtomsDrift s = (Inr (RAtomsDrift available updated sources), s')" and "\<not> available \<longrightarrow> sources = []"
    and "\<And>x. pretty x \<noteq> None" and "cli_atoms_drift pretty send json s = ((e, out), s'')"
  shows "cli_status e = (if \<exists>x\<in>set sources. is_behind x then 2 else 0) \<and> s'' = s'"
proof -
  have "0 < length (filter is_behind sources) \<longleftrightarrow> (\<exists>x\<in>set sources. is_behind x)"
    by (simp add: filter_empty_conv)
  moreover obtain j where "pretty (available, updated, sources) = Some j" using assms(3) by blast
  ultimately show ?thesis using assms(1,2,4)
    by (auto simp: cli_atoms_drift_def on_response_def Let_def simp del: is_behind.simps split: if_splits)
qed

end
