(* ===== verification/Cli_Daemon.thy ===== *)
theory Cli_Daemon
  imports Cli
begin

text \<open>
  Client and daemon together: a call of the client over the socket is one step of the daemon on its request, and each
  subcommand acts for the user who invoked it and for nobody else.
\<close>

section \<open>A call is a step of the daemon\<close>

text \<open>The daemon at the other end of the socket; the connection is served until the client, done, closes it.\<close>

definition daemon_socket ::
    "'j conn_env \<Rightarrow> (u64 \<Rightarrow> request \<Rightarrow> string option) \<Rightarrow> (string \<Rightarrow> response option) \<Rightarrow> daemon socket" where
  "daemon_socket ce ser par =
     \<lparr>so_connect = None, so_clone = None, so_serialize = ser,
      so_talk = (\<lambda>b d. case handle_conn (length b + 1) ce b d of
                         Some (e, c, d) \<Rightarrow> (Inr (cn_out c), d) | None \<Rightarrow> (Inr [], d)),
      so_parse = par\<rparr>"

text \<open>Client and daemon read each other's JSON as it was meant, on this request and this response.\<close>

definition faithful_codec ::
    "'j conn_env \<Rightarrow> (u64 \<Rightarrow> request \<Rightarrow> string option) \<Rightarrow> (string \<Rightarrow> response option) \<Rightarrow> request \<Rightarrow> response \<Rightarrow> bool" where
  "faithful_codec ce ser par req r \<longleftrightarrow>
     (\<exists>b j a. ser 1 req = Some b \<and> line_ok b \<and> str_trim (b @ [NL]) = b \<and> b \<noteq> []
        \<and> ce_parse ce b = Some j \<and> ce_id ce j = Some 1 \<and> ce_request ce j = Some req
        \<and> ce_render ce 1 r = Some a \<and> NL \<notin> set a \<and> utf8_valid (a @ [NL]) \<and> par (str_trim (a @ [NL])) = Some r)"

lemma first_line_terminated: "NL \<notin> set a \<Longrightarrow> first_line (a @ NL # rest) = a @ [NL]"
  by (simp add: first_line_def takeWhile_line(1))

text \<open>
  C14. A call of the client is one step of the daemon. Over a connection whose reads and writes work and with a faithful JSON layer,
  what the client gets for its request is exactly the response of the daemon's dispatch for the uid of its process, root exactly if that
  is 0, the daemon ends in the state that dispatch leaves (and what other threads did since), and the slot of the connection is given back.
\<close>

theorem call_is_dispatch:
  assumes "well_behaved ce" and "ce_cred ce = (0, UCRED_LEN, uid)" and "\<not> ce_clone_fails ce"
    and "dispatch (ce_env ce 0) req \<lparr>peer_uid = uid, peer_root = (uid = 0)\<rparr> (dm_server d) = Some (r, s')"
    and "faithful_codec ce ser par req r" and "d' = ce_others ce 0 (d\<lparr>dm_server := s'\<rparr>)"
  shows "send_request (daemon_socket ce ser par) req d = (Inr r, d'\<lparr>dm_in_flight := dm_in_flight d' - 1\<rparr>)"
proof -
  let ?peer = "\<lparr>peer_uid = uid, peer_root = (uid = 0)\<rparr>"
  obtain b j a where b: "ser 1 req = Some b" "line_ok b" "str_trim (b @ [NL]) = b" "b \<noteq> []"
      "ce_parse ce b = Some j" "ce_id ce j = Some 1" "ce_request ce j = Some req"
    and a: "ce_render ce 1 r = Some a" "NL \<notin> set a" "utf8_valid (a @ [NL])" "par (str_trim (a @ [NL])) = Some r"
    using assms(5) by (auto simp: faithful_codec_def)
  let ?c = "\<lparr>cn_in = b @ [NL], cn_out = [], cn_writes = 0, cn_armed = True\<rparr>"
  have "answer_line ce 0 ?peer (b @ [NL]) d = Some ([(1, r)], d\<lparr>dm_server := s'\<rparr>)"
    using b assms(4) by (simp add: answer_line_def Let_def)
  then have lines: "answer_lines ce 0 ?peer (raw_lines [b] []) d = Some ([(1, r)], d')"
    by (simp add: raw_lines_def assms(6))
  have "line_ok []" by (simp add: line_ok_def MAX_LINE_BYTES_def)
  then obtain n where "handle_loop (length (b @ [NL]) + 1) ce 0 ?peer ?c d
      = Some (ClosedOk, ?c\<lparr>cn_in := [], cn_out := cn_out ?c @ rendered ce [(1, r)], cn_writes := n\<rparr>, d')"
    using handle_loop_lines [OF assms(1) _ _ lines, of ?c "length (b @ [NL]) + 1"] b(2) by (auto simp: raw_lines_def)
  then have "handle_conn (length (b @ [NL]) + 1) ce (b @ [NL]) d
      = Some (ClosedOk, ?c\<lparr>cn_in := [], cn_out := a @ [NL], cn_writes := n, cn_armed := False\<rparr>, d'\<lparr>dm_in_flight := dm_in_flight d' - 1\<rparr>)"
    using assms(2,3) a(1) by (simp add: handle_conn_def peer_from_stream_def close_conn_def drop_guard_def rendered_def)
  then show ?thesis
    using b(1) a first_line_terminated [OF a(2), of "[]"] by (simp add: send_request_def daemon_socket_def Let_def)
qed

abbreviation client_conn :: "u32 \<Rightarrow> request \<Rightarrow> string conn_env" where
  "client_conn uid req \<equiv> \<lparr>ce_parse = Some, ce_id = (\<lambda>_. Some 1), ce_request = (\<lambda>_. Some req), ce_render = (\<lambda>_ _. Some ''y''),
     ce_cred = (0, 12, uid), ce_clone_fails = False, ce_broken = False, ce_short = (\<lambda>_. None), ce_env = (\<lambda>_. demo_env),
     ce_others = (\<lambda>_ d. d), ce_received = []\<rparr>"

text \<open>A user who is not root asks for an atom to be added, over the socket.\<close>

theorem call_is_dispatch_witness:
  "fst (send_request (daemon_socket (client_conn 1000 (AtomsAdd ''curl evil'' None)) (\<lambda>_ _. Some ''q'') (\<lambda>_. Some (RError (MRequiresRoot ''atoms add''))))
     (AtomsAdd ''curl evil'' None) \<lparr>dm_server = demo_server, dm_in_flight = 1\<rparr>) = Inr (RError (MRequiresRoot ''atoms add''))"
proof -
  let ?r = "RError (MRequiresRoot ''atoms add'')" and ?q = "AtomsAdd ''curl evil'' None"
  have refused: "dispatch demo_env ?q \<lparr>peer_uid = 1000, peer_root = False\<rparr> demo_server = Some (?r, demo_server)"
    by (simp add: handle_atoms_add_def require_root_error_def)
  have "utf8_valid ''q''" "utf8_valid (''y'' @ [NL])" by (rule ascii_valid, simp add: ascii_def)+
  moreover have "str_trim (''q'' @ [NL]) = ''q''" by code_simp
  ultimately have "faithful_codec (client_conn 1000 ?q) (\<lambda>_ _. Some ''q'') (\<lambda>_. Some ?r) ?q ?r"
    by (simp add: faithful_codec_def line_ok_def MAX_LINE_BYTES_def)
  with refused show ?thesis
    using call_is_dispatch [where ce = "client_conn 1000 ?q" and uid = 1000 and req = ?q and r = ?r and s' = demo_server
        and d = "\<lparr>dm_server = demo_server, dm_in_flight = 1\<rparr>" and ser = "\<lambda>_ _. Some ''q''" and par = "\<lambda>_. Some ?r", OF _ _ _ _ _ refl]
    by (simp add: well_behaved_def UCRED_LEN_def)
qed

section \<open>The client acts for the user who invoked it\<close>

definition acting_uid :: "cli_env \<Rightarrow> u32" where
  "acting_uid ci = (case sudo_target_uid ci of Some u \<Rightarrow> u | None \<Rightarrow> ci_euid ci)"

definition cli_peer :: "cli_env \<Rightarrow> peer_cred" where
  "cli_peer ci = \<lparr>peer_uid = ci_euid ci, peer_root = (ci_euid ci = 0)\<rparr>"

text \<open>A call that panics in the daemon closes the connection without an answer.\<close>

definition daemon_link :: "server_env \<Rightarrow> peer_cred \<Rightarrow> server link" where
  "daemon_link env peer req s =
     (case dispatch env req peer s of Some (r, s') \<Rightarrow> (Inr r, s') | None \<Rightarrow> (Inl NotAResponse, s))"

definition client :: "server_env \<Rightarrow> string \<Rightarrow> (bool \<times> string option \<times> drift_entry list \<Rightarrow> string option) \<Rightarrow> os_env \<Rightarrow> cli_env \<Rightarrow> server surroundings" where
  "client env template pretty os ci =
     \<lparr>su_send = daemon_link env (cli_peer ci),
      su_disk = (\<lambda>f s. case f (sv_world s) of (o', w) \<Rightarrow> (o', s\<lparr>sv_world := w\<rparr>)),
      su_os = os, su_template = template, su_pretty = pretty\<rparr>"

text \<open>The subcommands documented to need root.\<close>

fun needs_root :: "Subcommand \<Rightarrow> bool" where
  "needs_root (AtomsCommand (AtomsOpAdd p)) = True"
| "needs_root (AtomsCommand (AtomsOpRemove p)) = True"
| "needs_root (AtomsCommand (AtomsOpPinInit force)) = True"
| "needs_root (UrlsCommand (UrlsOpAllow h)) = True"
| "needs_root (UrlsCommand (UrlsOpBlock h)) = True"
| "needs_root (SessionCommand SessionOpWrite) = True"
| "needs_root _ = False"

lemma sudo_target:
  "sudo_target_uid ci = Some u \<Longrightarrow>
     ci_euid ci = 0 \<and> (\<exists>name. ci_var ci ''SUDO_USER'' = Some name \<and> ci_passwd ci name = Some u)"
  by (auto simp: sudo_target_uid_def sudo_user_matches_uid_def Option.bind_eq_Some_conv split: if_splits option.splits)

lemma target_resolved: "resolve_target_uid (cli_peer ci) (sudo_target_uid ci) = Inr (acting_uid ci)"
  using sudo_target [of ci]
  by (auto simp: resolve_target_uid_def acting_uid_def cli_peer_def split: option.splits)

text \<open>What differs belongs to one user, or to a set of paths besides.\<close>

definition acts_for :: "u32 \<Rightarrow> path set \<Rightarrow> server \<Rightarrow> server \<Rightarrow> bool" where
  "acts_for uid ps s s' \<longleftrightarrow>
     (\<forall>v. v \<noteq> uid \<longrightarrow> user_states (sv_trust s') v = user_states (sv_trust s) v)
     \<and> (\<forall>q. lookup_file (sv_world s') q \<noteq> lookup_file (sv_world s) q \<longrightarrow> prefix (user_dir (data_root (sv_trust s)) uid) q \<or> q \<in> ps)"

lemma acts_for_refl [simp]: "acts_for uid ps s s"
  by (simp add: acts_for_def)

lemma acts_for_confined: "confined uid s s' \<Longrightarrow> acts_for uid ps s s'"
  by (auto simp: confined_def acts_for_def)

lemma acts_for_on_trust:
  assumes "\<And>dr. isop uid dr m" and "on_trust m s = (r, s')"
  shows "acts_for uid ps s s'"
proof -
  obtain r1 ts w where m: "m (sv_trust s) (sv_world s) = (r1, ts, w)" by (cases "m (sv_trust s) (sv_world s)") auto
  with isop_isolated [OF assms(1), of "sv_trust s" "sv_world s"] have "isolated uid (sv_trust s, sv_world s) (ts, w)" by simp
  with m assms(2) show ?thesis by (auto simp: on_trust_def acts_for_def isolated_def)
qed

lemma acts_for_others [simp]:
  "acts_for uid ps s (s'\<lparr>sv_threat := t\<rparr>) = acts_for uid ps s s'" "acts_for uid ps s (s'\<lparr>sv_profile := p\<rparr>) = acts_for uid ps s s'"
  "acts_for uid ps s (s'\<lparr>sv_path_armed := n\<rparr>) = acts_for uid ps s s'" "acts_for uid ps s (s'\<lparr>sv_name_armed := n\<rparr>) = acts_for uid ps s s'"
  by (simp_all add: acts_for_def)

lemma acts_for_session: "acts_for uid ps s (s\<lparr>sv_trust := session_clear uid (sv_trust s)\<rparr>)"
  using session_ops_isolated(4) [where s = "sv_trust s" and w = "sv_world s" and uid = uid]
  by (auto simp: acts_for_def isolated_def)

text \<open>The requests a subcommand makes, with the user they are made for.\<close>

inductive cli_request :: "u32 option \<Rightarrow> request \<Rightarrow> bool" for target where
  "cli_request target (AtomsAdd p target)"
| "cli_request target (AtomsRemove p target)"
| "cli_request target (AtomsList scope target)"
| "cli_request target AtomsDrift"
| "cli_request target (UrlsAllow h target)"
| "cli_request target (UrlsBlock h target)"
| "cli_request target (UrlsList target)"
| "cli_request target (SessionListReq target)"
| "cli_request target (SessionClear target)"
| "cli_request target (SessionWrite target)"
| "cli_request target (TrustList target None)"
| "cli_request target (TrustAdd h target)"
| "cli_request target GetProfile"
| "cli_request target (SetProfile p)"

lemma cli_request_acts_for:
  assumes "cli_request target req" and "dispatch env req peer s = Some (r, s')" and "resolve_target_uid peer target = Inr uid"
    and "\<And>k ts w. isolated uid (ts, w) (se_session_others env k ts, w)"
  shows "acts_for uid ps s s'"
  using assms(1,2)
proof cases
  case (3 scope)
  then show ?thesis using assms(2,3)
    by (cases scope) (auto simp: handle_atoms_list_def Let_def confined_load_fetched confined_load_user intro!: acts_for_confined)
next
  case 4
  have "files (snd (read_snapshot (se_os env) d p w)) = files w" for d p w
    by (auto simp: read_snapshot_def sys_read_def sys_def split: option.splits prod.splits sum.splits os_error.splits)
  with 4 assms(2) show ?thesis
    by (auto simp: handle_atoms_drift_def split: prod.splits intro!: acts_for_confined confined_same) (metis snd_conv)
next
  case 7
  then show ?thesis using assms(2,3) by (auto simp: handle_urls_list_def Let_def intro!: acts_for_confined confined_load_user)
next
  case 9
  then show ?thesis using assms(2,3) acts_for_session by (auto simp: handle_session_clear_def)
next
  case 10
  then show ?thesis using assms(2,3) acts_for_on_trust [OF isop_session_write [OF assms(4)]]
    by (auto simp: handle_session_write_def split: if_splits prod.splits sum.splits)
next
  case 11
  then show ?thesis using assms(2,3) by (auto simp: handle_trust_list_def Let_def intro!: acts_for_confined confined_load_user)
next
  case (14 p)
  with assms(2) show ?thesis
    by (auto simp: handle_set_profile_def store_armed_def Let_def split: prod.splits option.splits DenyAction.splits if_splits)
qed (use assms(2,3) in \<open>auto simp: handle_atoms_add_def handle_atoms_remove_def handle_urls_allow_def handle_urls_block_def handle_urls_def
       handle_session_list_def handle_trust_add_def split: if_splits prod.splits sum.splits bool.splits
       intro: acts_for_on_trust [OF isop_persistent_add_atom] acts_for_on_trust [OF isop_persistent_remove_atom]
         acts_for_on_trust [OF isop_persistent_add_url] acts_for_on_trust [OF isop_persistent_add_trust]\<close>)

lemma on_response_state: "on_response send req f s = (o', s') \<Longrightarrow> s' = snd (send req s)"
  by (auto simp: on_response_def split: prod.splits sum.splits)

lemmas cli_handlers = send_and_check_def cli_profile_def cli_trust_list_def cli_atoms_list_def cli_urls_list_def cli_session_list_def
  cli_atoms_drift_def

lemma cli_one_request:
  assumes "cli_dispatch su ci cmd s = (o', s')"
  shows "(\<exists>force. cmd = AtomsCommand (AtomsOpPinInit force))
    \<or> (\<exists>req. cli_request (sudo_target_uid ci) req \<and> s' = snd (su_send su req s))"
proof (cases cmd)
  case (AtomsCommand a)
  then show ?thesis using assms
    by (cases a) (auto simp: cli_handlers dest!: on_response_state intro: cli_request.intros)
next
  case (UrlsCommand a)
  then show ?thesis using assms by (cases a) (auto simp: cli_handlers dest!: on_response_state intro: cli_request.intros)
next
  case (SessionCommand a)
  then show ?thesis using assms by (cases a) (auto simp: cli_handlers dest!: on_response_state intro: cli_request.intros)
next
  case (TrustCommand a)
  then show ?thesis using assms by (cases a) (auto simp: cli_handlers dest!: on_response_state intro: cli_request.intros)
next
  case (ProfileCommand a)
  then show ?thesis using assms by (cases a) (auto simp: cli_handlers dest!: on_response_state intro: cli_request.intros)
qed

lemma refused_exit: "on_response send req f s = ((e, out), s') \<Longrightarrow> send req s = (Inr (RError m), s) \<Longrightarrow>
    f (RError m) = other_response (RError m) \<Longrightarrow> s' = s \<and> e = Exit 1"
  by (simp add: on_response_def other_response_def)

lemma needs_root_refused:
  assumes "cli_dispatch (client env template pretty os ci) ci cmd s = ((e, out), s')" and "needs_root cmd"
    and "ci_euid ci \<noteq> 0" and "euid os = ci_euid ci"
  shows "s' = s \<and> e = Exit 1"
  using assms
  by (cases cmd rule: needs_root.cases)
     (auto simp: client_def send_and_check_def on_response_def other_response_def daemon_link_def cli_peer_def
        handle_atoms_add_def handle_atoms_remove_def handle_urls_allow_def handle_urls_block_def handle_urls_def
        handle_session_write_def require_root_error_def handle_pin_init_def)

text \<open>
  C2. Every subcommand acts for the user who invoked it and for nobody else. Whichever subcommand runs, with whatever environment, the
  atoms, URLs, trusted hashes and session of every other user are as before, and of the files only those below that user's directory
  may differ, and for the seeding of the pin file, which root must run, that file and its scratch file. The user is the caller,
  or, for root with the three variables of \<open>sudo\<close>, the one they name, and then only if the password database agrees; a caller
  that is not root cannot name anybody else, and what needs root ends with status 1 and changes nothing.
\<close>

theorem client_acts_for_caller:
  assumes "cli_dispatch (client env template pretty os ci) ci cmd s = ((e, out), s')" and "euid os = ci_euid ci"
    and "\<And>k ts w. isolated (acting_uid ci) (ts, w) (se_session_others env k ts, w)"
  shows "(\<forall>v. v \<noteq> acting_uid ci \<longrightarrow> (\<forall>scope. list_atoms (sv_trust s') v scope = list_atoms (sv_trust s) v scope)
        \<and> list_urls (sv_trust s') v = list_urls (sv_trust s) v
        \<and> list_persistent_trust (sv_trust s') v = list_persistent_trust (sv_trust s) v
        \<and> session_summary (sv_trust s') v = session_summary (sv_trust s) v)
    \<and> (\<forall>q. lookup_file (sv_world s') q \<noteq> lookup_file (sv_world s) q \<longrightarrow>
          prefix (user_dir (data_root (sv_trust s)) (acting_uid ci)) q
          \<or> (ci_euid ci = 0 \<and> (\<exists>force. cmd = AtomsCommand (AtomsOpPinInit force)) \<and> q \<in> {DEFAULT_PIN_FILE, pin_init_tmp os DEFAULT_PIN_FILE}))
    \<and> (ci_euid ci \<noteq> 0 \<longrightarrow> acting_uid ci = ci_euid ci \<and> (needs_root cmd \<longrightarrow> s' = s \<and> cli_status e = 1))
    \<and> (acting_uid ci \<noteq> ci_euid ci \<longrightarrow>
          (\<exists>name. ci_var ci ''SUDO_USER'' = Some name \<and> ci_passwd ci name = Some (acting_uid ci)))"
proof -
  let ?ps = "if ci_euid ci = 0 \<and> (\<exists>force. cmd = AtomsCommand (AtomsOpPinInit force)) then {DEFAULT_PIN_FILE, pin_init_tmp os DEFAULT_PIN_FILE} else {}"
  have "acts_for (acting_uid ci) ?ps s s'"
  proof (cases "\<exists>force. cmd = AtomsCommand (AtomsOpPinInit force)")
    case True
    then obtain force where c: "cmd = AtomsCommand (AtomsOpPinInit force)" by blast
    obtain o' w where h: "handle_pin_init os template force (sv_world s) = (o', w)" by fastforce
    with assms(1) c have s': "s' = s\<lparr>sv_world := w\<rparr>" and h': "handle_pin_init os template force (sv_world s) = ((e, out), w)"
      by (simp_all add: client_def)
    have "q = DEFAULT_PIN_FILE \<or> q = pin_init_tmp os DEFAULT_PIN_FILE" if "lookup_file w q \<noteq> lookup_file (sv_world s) q" for q
      using pin_init_files [OF h'] that by blast
    moreover have "ci_euid ci \<noteq> 0 \<Longrightarrow> w = sv_world s" using h' assms(2) by (simp add: handle_pin_init_def)
    ultimately show ?thesis using True by (auto simp: acts_for_def s')
  next
    case False
    with cli_one_request [OF assms(1)] obtain req where
      r: "cli_request (sudo_target_uid ci) req" and s': "s' = snd (daemon_link env (cli_peer ci) req s)"
      by (auto simp: client_def)
    show ?thesis
    proof (cases "dispatch env req (cli_peer ci) s")
      case (Some a)
      with s' cli_request_acts_for [OF r _ target_resolved assms(3)] show ?thesis by (cases a) (simp add: daemon_link_def)
    qed (use s' in \<open>simp add: daemon_link_def\<close>)
  qed
  then have "\<forall>v. v \<noteq> acting_uid ci \<longrightarrow> user_states (sv_trust s') v = user_states (sv_trust s) v"
    "\<forall>q. lookup_file (sv_world s') q \<noteq> lookup_file (sv_world s) q \<longrightarrow> prefix (user_dir (data_root (sv_trust s)) (acting_uid ci)) q \<or> q \<in> ?ps"
    unfolding acts_for_def by blast+
  moreover have "ci_euid ci \<noteq> 0 \<longrightarrow> acting_uid ci = ci_euid ci" by (simp add: acting_uid_def sudo_target_uid_def)
  moreover have "acting_uid ci \<noteq> ci_euid ci \<longrightarrow>
      (\<exists>name. ci_var ci ''SUDO_USER'' = Some name \<and> ci_passwd ci name = Some (acting_uid ci))"
    using sudo_target [of ci] by (auto simp: acting_uid_def split: option.splits)
  ultimately show ?thesis
    using needs_root_refused [OF assms(1) _ _ assms(2)]
    by (auto simp: list_atoms_def list_urls_def list_persistent_trust_def session_summary_def split: if_splits)
qed

text \<open>Root under \<open>sudo\<close> for user 1000, and the same with a name that the database gives another number.\<close>

abbreviation sudo_env :: "u32 \<Rightarrow> cli_env" where
  "sudo_env u \<equiv> \<lparr>ci_euid = 0, ci_var = [''SUDO_UID'' \<mapsto> ''1000'', ''SUDO_USER'' \<mapsto> ''ann'', ''SUDO_GID'' \<mapsto> ''1000''],
     ci_passwd = [''ann'' \<mapsto> u]\<rparr>"

lemma sudo_env_acts: "acting_uid (sudo_env 1000) = 1000" "acting_uid (sudo_env 7) = 0"
proof -
  have "show_nat 1000 = ''1000''" by code_simp
  with parse_uint_show_nat [of 1000 32] have "parse_uint 32 ''1000'' = Some 1000" by simp
  then show "acting_uid (sudo_env 1000) = 1000" "acting_uid (sudo_env 7) = 0"
    by (simp_all add: acting_uid_def sudo_target_uid_def sudo_user_matches_uid_def)
qed

theorem client_acts_for_caller_witness:
  "\<exists>e out s'. cli_dispatch (client demo_env [] (\<lambda>_. None) (root_env (\<lambda>_. None)) (sudo_env 1000)) (sudo_env 1000)
       (AtomsCommand (AtomsOpAdd ''curl evil'')) demo_server = ((e, out), s')
     \<and> list_urls (sv_trust s') 2 = [] \<and> lookup_file (sv_world s') (user_atoms_path (sv_trust demo_server) 0)
         = lookup_file demo_world (user_atoms_path (sv_trust demo_server) 0)"
proof -
  obtain e out s' where c: "cli_dispatch (client demo_env [] (\<lambda>_. None) (root_env (\<lambda>_. None)) (sudo_env 1000)) (sudo_env 1000)
       (AtomsCommand (AtomsOpAdd ''curl evil'')) demo_server = ((e, out), s')"
    by (metis prod_cases3 surj_pair)
  have e: "euid (root_env (\<lambda>_. None)) = ci_euid (sudo_env 1000)" by simp
  have others: "\<And>k ts w. isolated (acting_uid (sudo_env 1000)) (ts, w) (se_session_others demo_env k ts, w)" by simp
  note C = client_acts_for_caller [OF c e others, unfolded sudo_env_acts(1)]
  have "list_urls (sv_trust s') 2 = list_urls (sv_trust demo_server) 2"
    using conjunct1 [OF C, THEN spec, of 2] by simp
  moreover have "list_urls (sv_trust demo_server) 2 = []" by (simp add: list_urls_def trust_store_new_def)
  moreover have "\<not> prefix (user_dir (data_root (sv_trust demo_server)) 1000) (user_atoms_path (sv_trust demo_server) 0)"
    by (simp add: user_atoms_path_def user_dir_def show_u32_inj)
  then have "lookup_file (sv_world s') (user_atoms_path (sv_trust demo_server) 0) = lookup_file (sv_world demo_server) (user_atoms_path (sv_trust demo_server) 0)"
    using conjunct1 [OF conjunct2 [OF C], THEN spec, of "user_atoms_path (sv_trust demo_server) 0"] by (simp del: server_new_simps)
  ultimately show ?thesis using c by (metis server_new_simps(4))
qed

end
