(* ===== verification/Patterns.thy ===== *)
theory Patterns
  imports Classifier Trust_Format
begin

text \<open>
  The patterns of the detectors (\<open>Tier1::new\<close> and \<open>HeuristicBackend::new\<close> in \<open>classifier.rs\<close>). The \<open>regex\<close> crate is a parameter, an engine
  that is given a pattern and a text; what its documentation says of the syntax the patterns use is the definition \<open>regex_search\<close>: the
  leftmost match, and of the matches there the one a backtracking search meets first. A relation between start and end of a match is
  the reference; with it the patterns are read as shapes of commands. Of Unicode's tables those of word characters and digits outside
  ASCII are parameters.
\<close>

section \<open>Patterns and what they match\<close>

record unicode =
  un_word :: "string \<Rightarrow> bool"
  un_digit :: "string \<Rightarrow> bool"

datatype char_class = Space | Digit | OneOf string | Union char_class char_class | Negated char_class

text \<open>A character is given by its UTF-8 bytes.\<close>

fun in_class :: "unicode \<Rightarrow> char_class \<Rightarrow> string \<Rightarrow> bool" where
  "in_class u Space ch \<longleftrightarrow> ch \<in> set ws_chars"
| "in_class u Digit ch \<longleftrightarrow> (case ch of [c] \<Rightarrow> is_digit c | _ \<Rightarrow> un_digit u ch)"
| "in_class u (OneOf cs) ch \<longleftrightarrow> (case ch of [c] \<Rightarrow> c \<in> set cs | _ \<Rightarrow> False)"
| "in_class u (Union a b) ch \<longleftrightarrow> in_class u a ch \<or> in_class u b ch"
| "in_class u (Negated a) ch \<longleftrightarrow> \<not> in_class u a ch"

definition word_char :: "unicode \<Rightarrow> string \<Rightarrow> bool" where
  "word_char u ch \<longleftrightarrow> (case ch of [] \<Rightarrow> False | [c] \<Rightarrow> ascii_alnum c \<or> c = CHR ''_'' | _ \<Rightarrow> un_word u ch \<and> ch \<notin> set ws_chars)"

datatype regex =
    Nothing | Cls char_class | Seq regex regex | Alt regex regex | Star bool regex \<comment> \<open>greedy or not\<close>
  | TextStart | TextEnd | WordEdge | Group nat regex

text \<open>The character that starts at a byte, and whether the text before and from a byte ends and starts with a word character.\<close>

definition char_at :: "string \<Rightarrow> nat \<Rightarrow> string" where
  "char_at s i = take (utf8_len (drop i s)) (drop i s)"

definition word_before :: "unicode \<Rightarrow> string \<Rightarrow> nat \<Rightarrow> bool" where
  "word_before u s i \<longleftrightarrow> 0 < i \<and> word_char u (char_at s (boundary_down s (i - 1)))"

definition word_after :: "unicode \<Rightarrow> string \<Rightarrow> nat \<Rightarrow> bool" where
  "word_after u s i \<longleftrightarrow> word_char u (char_at s i)"

text \<open>The reference: where a match that starts at a byte can end.\<close>

primrec regex_match :: "unicode \<Rightarrow> string \<Rightarrow> regex \<Rightarrow> nat \<Rightarrow> nat \<Rightarrow> bool" where
  "regex_match u s Nothing = (\<lambda>i j. j = i)"
| "regex_match u s (Cls c) = (\<lambda>i j. char_at s i \<noteq> [] \<and> in_class u c (char_at s i) \<and> j = i + length (char_at s i))"
| "regex_match u s (Seq a b) = regex_match u s a OO regex_match u s b"
| "regex_match u s (Alt a b) = (\<lambda>i j. regex_match u s a i j \<or> regex_match u s b i j)"
| "regex_match u s (Star greedy r) = (regex_match u s r)\<^sup>*\<^sup>*"
| "regex_match u s TextStart = (\<lambda>i j. i = 0 \<and> j = i)"
| "regex_match u s TextEnd = (\<lambda>i j. i = length s \<and> j = i)"
| "regex_match u s WordEdge = (\<lambda>i j. word_before u s i \<noteq> word_after u s i \<and> j = i)"
| "regex_match u s (Group n r) = regex_match u s r"

section \<open>The search\<close>

type_synonym groups = "nat \<rightharpoonup> nat \<times> nat"

text \<open>The ends of the matches with their groups, in the order a backtracking search meets them. No repeated pattern matches the empty text.\<close>

definition chain :: "(nat \<Rightarrow> (nat \<times> groups) list) \<Rightarrow> (nat \<times> groups) list \<Rightarrow> (nat \<times> groups) list" where
  "chain f xs = concat (map (\<lambda>(j, g). map (\<lambda>(k, h). (k, g ++ h)) (f j)) xs)"

fun star_ends :: "(nat \<Rightarrow> (nat \<times> groups) list) \<Rightarrow> bool \<Rightarrow> nat \<Rightarrow> nat \<Rightarrow> (nat \<times> groups) list" where
  "star_ends f greedy 0 i = [(i, Map.empty)]"
| "star_ends f greedy (Suc n) i =
     (let more = chain (star_ends f greedy n) (filter (\<lambda>(j, _). i < j) (f i))
      in if greedy then more @ [(i, Map.empty)] else (i, Map.empty) # more)"

fun ends :: "unicode \<Rightarrow> string \<Rightarrow> regex \<Rightarrow> nat \<Rightarrow> (nat \<times> groups) list" where
  "ends u s Nothing i = [(i, Map.empty)]"
| "ends u s (Cls c) i =
     (let ch = char_at s i in if ch \<noteq> [] \<and> in_class u c ch then [(i + length ch, Map.empty)] else [])"
| "ends u s (Seq a b) i = chain (\<lambda>j. ends u s b j) (ends u s a i)"
| "ends u s (Alt a b) i = ends u s a i @ ends u s b i"
| "ends u s (Star greedy r) i = star_ends (\<lambda>j. ends u s r j) greedy (length s - i) i"
| "ends u s TextStart i = (if i = 0 then [(i, Map.empty)] else [])"
| "ends u s TextEnd i = (if i = length s then [(i, Map.empty)] else [])"
| "ends u s WordEdge i = (if word_before u s i \<noteq> word_after u s i then [(i, Map.empty)] else [])"
| "ends u s (Group n r) i = map (\<lambda>(j, g). (j, g(n \<mapsto> (i, j)))) (ends u s r i)"

fun search_from :: "unicode \<Rightarrow> regex \<Rightarrow> string \<Rightarrow> nat list \<Rightarrow> ((nat \<times> nat) \<times> groups) option" where
  "search_from u r s [] = None"
| "search_from u r s (i # is) =
     (case (if is_char_boundary s i then ends u s r i else []) of
        [] \<Rightarrow> search_from u r s is
      | (j, g) # _ \<Rightarrow> Some ((i, j), g))"

definition regex_search :: "unicode \<Rightarrow> regex \<Rightarrow> string \<Rightarrow> ((nat \<times> nat) \<times> groups) option" where
  "regex_search u r s = search_from u r s [0..<length s + 1]"

section \<open>The search meets the reference\<close>

lemma char_at_le: "i + length (char_at s i) \<le> length s \<or> char_at s i = []"
  using utf8_len_le [of "drop i s"] by (auto simp: char_at_def)

lemma match_le: "regex_match u s r i j \<Longrightarrow> i \<le> j \<and> (i \<le> length s \<longrightarrow> j \<le> length s)"
proof (induction r arbitrary: i j)
  case (Cls c)
  then show ?case using char_at_le [of i s] by auto
next
  case (Seq a b)
  then show ?case by fastforce
next
  case (Star g r)
  from Star.prems have "(regex_match u s r)\<^sup>*\<^sup>* i j" by simp
  then show ?case by (induction rule: rtranclp_induct) (auto dest: Star.IH)
qed auto

lemma fst_chain: "fst ` set (chain f xs) = (\<Union>j\<in>fst ` set xs. fst ` set (f j))"
  by (force simp: chain_def)

lemma reach_progress:
  assumes "\<And>i j. R i j \<Longrightarrow> i \<le> (j :: nat)"
  shows "R\<^sup>*\<^sup>* i k \<longleftrightarrow> k = i \<or> (\<exists>j. R i j \<and> i < j \<and> R\<^sup>*\<^sup>* j k)"
proof
  show "R\<^sup>*\<^sup>* i k \<Longrightarrow> k = i \<or> (\<exists>j. R i j \<and> i < j \<and> R\<^sup>*\<^sup>* j k)"
    by (induction rule: converse_rtranclp_induct) (use assms le_neq_implies_less in blast)+
qed (auto intro: converse_rtranclp_into_rtranclp)

lemma star_ends_reach:
  assumes "\<And>i j. i \<le> l \<Longrightarrow> j \<in> fst ` set (f i) \<longleftrightarrow> R i j" and "\<And>i j. R i j \<Longrightarrow> i \<le> j \<and> (i \<le> l \<longrightarrow> j \<le> l)"
    and "l - i \<le> n" and "i \<le> l"
  shows "k \<in> fst ` set (star_ends f greedy n i) \<longleftrightarrow> R\<^sup>*\<^sup>* i k"
  using assms(3,4)
proof (induction n arbitrary: i)
  case 0
  have "R\<^sup>*\<^sup>* i k \<Longrightarrow> k = i"
    by (induction rule: rtranclp_induct) (use 0 assms(2) in \<open>auto dest!: assms(2)\<close>)
  then show ?case by auto
next
  case (Suc n)
  have step: "k \<in> fst ` set (star_ends f greedy n j) \<longleftrightarrow> R\<^sup>*\<^sup>* j k" if "R i j" "i < j" for j
    using Suc.IH [of j] Suc.prems assms(2) [OF that(1)] that(2) by simp
  have "fst ` set (filter (\<lambda>(j, _). i < j) (f i)) = {j. R i j \<and> i < j}"
    using assms(1) [OF Suc.prems(2)] by (force simp: image_def)
  then have "fst ` set (star_ends f greedy (Suc n) i) = insert i (\<Union>j\<in>{j. R i j \<and> i < j}. fst ` set (star_ends f greedy n j))"
    by (simp add: Let_def fst_chain image_Un)
  then have "k \<in> fst ` set (star_ends f greedy (Suc n) i)
      \<longleftrightarrow> k = i \<or> (\<exists>j. R i j \<and> i < j \<and> k \<in> fst ` set (star_ends f greedy n j))"
    by (simp only: insert_iff UN_iff mem_Collect_eq bex_simps conj_assoc)
  then have "k \<in> fst ` set (star_ends f greedy (Suc n) i) \<longleftrightarrow> k = i \<or> (\<exists>j. R i j \<and> i < j \<and> R\<^sup>*\<^sup>* j k)"
    using step by blast
  then show ?case using reach_progress [of R i k] assms(2) by blast
qed

lemma ends_match:
  "i \<le> length s \<Longrightarrow> j \<in> fst ` set (ends u s r i) \<longleftrightarrow> regex_match u s r i j"
proof (induction r arbitrary: i j)
  case (Seq a b)
  have A: "fst ` set (ends u s a i) = {k. regex_match u s a i k}" using Seq.IH(1) [OF Seq.prems] by blast
  have B: "fst ` set (ends u s b k) = {j. regex_match u s b k j}" if "regex_match u s a i k" for k
    using Seq.IH(2) match_le [OF that] Seq.prems by blast
  have "fst ` set (ends u s (Seq a b) i) = (\<Union>k\<in>{k. regex_match u s a i k}. fst ` set (ends u s b k))"
    by (simp add: fst_chain A)
  also have "\<dots> = {j. regex_match u s (Seq a b) i j}" using B by auto
  finally show ?case by simp
next
  case (Star g r)
  show ?case
    using star_ends_reach [where R = "regex_match u s r" and l = "length s", OF Star.IH match_le order.refl Star.prems] by simp
next
  case (Alt a b)
  then show ?case by (simp add: image_Un)
next
  case (Group n r)
  then show ?case by (simp add: image_image case_prod_unfold)
qed (auto simp: Let_def image_iff)

section \<open>Matches as pieces of a text\<close>

definition spans :: "unicode \<Rightarrow> regex \<Rightarrow> string \<Rightarrow> string \<Rightarrow> string \<Rightarrow> bool" where
  "spans u r x m y \<longleftrightarrow> regex_match u (x @ m @ y) r (length x) (length (x @ m))"

definition utf8_char :: "string \<Rightarrow> bool" where
  "utf8_char m \<longleftrightarrow> m \<noteq> [] \<and> utf8_len m = length m"

definition spelled :: "unicode \<Rightarrow> char_class \<Rightarrow> string \<Rightarrow> bool" where
  "spelled u c m \<longleftrightarrow> (\<exists>ws. m = concat ws \<and> (\<forall>w\<in>set ws. utf8_char w \<and> in_class u c w))"

lemma utf8_char_len: "utf8_char m \<Longrightarrow> utf8_len (m @ y) = length m"
  using utf8_len_take [of m y] by (simp add: utf8_char_def)

lemma char_at_append: "char_at (x @ y) (length x) = take (utf8_len y) y"
  by (simp add: char_at_def)

lemma char_at_char: "utf8_char m \<Longrightarrow> char_at (x @ m @ y) (length x) = m"
  using utf8_char_len [of m y] by (simp add: char_at_append)

lemma char_at_is_char:
  assumes "char_at (x @ m @ y) (length x) \<noteq> []" and "length (char_at (x @ m @ y) (length x)) = length m"
  shows "utf8_char m"
proof -
  let ?n = "utf8_len (m @ y)"
  have "length (take ?n (m @ y)) = ?n" using utf8_len_le [of "m @ y"] by simp
  then have n: "?n = length m" using assms(2) by (simp add: char_at_append)
  then have "0 < ?n" using assms(1) by (auto simp: char_at_append)
  from utf8_len_take [OF this, of "[]"] have "utf8_len m = length m" by (simp add: n)
  then show ?thesis using \<open>0 < ?n\<close> n by (auto simp: utf8_char_def)
qed

lemma spans_Cls [simp]: "spans u (Cls c) x m y \<longleftrightarrow> utf8_char m \<and> in_class u c m"
proof
  assume "spans u (Cls c) x m y"
  then have c: "char_at (x @ m @ y) (length x) \<noteq> []" "length (char_at (x @ m @ y) (length x)) = length m"
    "in_class u c (char_at (x @ m @ y) (length x))" by (auto simp: spans_def)
  from char_at_is_char [OF c(1,2)] c(3) char_at_char [of m x y] show "utf8_char m \<and> in_class u c m" by simp
next
  assume "utf8_char m \<and> in_class u c m"
  then show "spans u (Cls c) x m y" using char_at_char [of m x y] by (simp add: spans_def utf8_char_def)
qed

lemma spans_simps [simp]:
  "spans u Nothing x m y \<longleftrightarrow> m = []"
  "spans u (Alt a b) x m y \<longleftrightarrow> spans u a x m y \<or> spans u b x m y"
  "spans u TextStart x m y \<longleftrightarrow> x = [] \<and> m = []"
  "spans u TextEnd x m y \<longleftrightarrow> y = [] \<and> m = []"
  "spans u WordEdge x m y \<longleftrightarrow> word_before u (x @ y) (length x) \<noteq> word_after u (x @ y) (length x) \<and> m = []"
  "spans u (Group n r) x m y \<longleftrightarrow> spans u r x m y"
  by (auto simp: spans_def)

lemma spans_cut:
  assumes "regex_match u (x @ m @ y) r (length x) k" and "k \<le> length (x @ m)"
  obtains m1 m2 where "m = m1 @ m2" and "k = length (x @ m1)"
proof
  show "m = take (k - length x) m @ drop (k - length x) m" by simp
  show "k = length (x @ take (k - length x) m)" using match_le [OF assms(1)] assms(2) by auto
qed

lemma spans_Seq [simp]:
  "spans u (Seq a b) x m y \<longleftrightarrow> (\<exists>m1 m2. m = m1 @ m2 \<and> spans u a x m1 (m2 @ y) \<and> spans u b (x @ m1) m2 y)"
proof
  assume "spans u (Seq a b) x m y"
  then obtain k where k: "regex_match u (x @ m @ y) a (length x) k" "regex_match u (x @ m @ y) b k (length (x @ m))"
    by (auto simp: spans_def)
  from spans_cut [OF k(1)] match_le [OF k(2)] obtain m1 m2 where "m = m1 @ m2" "k = length (x @ m1)" by auto
  with k show "\<exists>m1 m2. m = m1 @ m2 \<and> spans u a x m1 (m2 @ y) \<and> spans u b (x @ m1) m2 y"
    by (auto simp: spans_def)
qed (auto simp: spans_def)

lemma spans_SeqI: "spans u a x m1 (m2 @ y) \<Longrightarrow> spans u b (x @ m1) m2 y \<Longrightarrow> spans u (Seq a b) x (m1 @ m2) y"
  by (simp only: spans_Seq) blast

lemma spans_SeqE:
  assumes "spans u (Seq a b) x m y"
  obtains m1 m2 where "m = m1 @ m2" "spans u a x m1 (m2 @ y)" "spans u b (x @ m1) m2 y"
  using assms by (auto simp only: spans_Seq)

lemma spans_Star:
  "spans u (Star g r) x m y \<longleftrightarrow> m = [] \<or>
     (\<exists>m1 m2. m = m1 @ m2 \<and> m1 \<noteq> [] \<and> spans u r x m1 (m2 @ y) \<and> spans u (Star g r) (x @ m1) m2 y)"
proof
  let ?R = "regex_match u (x @ m @ y) r"
  assume "spans u (Star g r) x m y"
  with reach_progress [of ?R "length x" "length (x @ m)"] match_le have "m = [] \<or> (\<exists>k. ?R (length x) k \<and> length x < k \<and> ?R\<^sup>*\<^sup>* k (length (x @ m)))"
    by (auto simp: spans_def)
  then show "m = [] \<or> (\<exists>m1 m2. m = m1 @ m2 \<and> m1 \<noteq> [] \<and> spans u r x m1 (m2 @ y) \<and> spans u (Star g r) (x @ m1) m2 y)"
  proof
    assume "\<exists>k. ?R (length x) k \<and> length x < k \<and> ?R\<^sup>*\<^sup>* k (length (x @ m))"
    then obtain k where k: "?R (length x) k" "length x < k" "?R\<^sup>*\<^sup>* k (length (x @ m))" by blast
    have "k \<le> length (x @ m)" using k(3) match_le [of u "x @ m @ y" "Star g r"] by auto
    from spans_cut [OF k(1) this] obtain m1 m2 where "m = m1 @ m2" "k = length (x @ m1)" .
    with k show ?thesis by (auto simp: spans_def)
  qed blast
next
  assume "m = [] \<or> (\<exists>m1 m2. m = m1 @ m2 \<and> m1 \<noteq> [] \<and> spans u r x m1 (m2 @ y) \<and> spans u (Star g r) (x @ m1) m2 y)"
  then show "spans u (Star g r) x m y" by (auto simp: spans_def intro: converse_rtranclp_into_rtranclp)
qed

lemma spelled_Nil [simp]: "spelled u c []"
  by (auto simp: spelled_def intro: exI [of _ "[]"])

lemma spelled_step:
  "spelled u c m \<longleftrightarrow> m = [] \<or> (\<exists>m1 m2. m = m1 @ m2 \<and> utf8_char m1 \<and> in_class u c m1 \<and> spelled u c m2)"
proof
  assume "spelled u c m"
  then obtain ws where ws: "m = concat ws" "\<forall>w\<in>set ws. utf8_char w \<and> in_class u c w" by (auto simp: spelled_def)
  then show "m = [] \<or> (\<exists>m1 m2. m = m1 @ m2 \<and> utf8_char m1 \<and> in_class u c m1 \<and> spelled u c m2)"
    by (cases ws) (auto simp: spelled_def)
next
  assume "m = [] \<or> (\<exists>m1 m2. m = m1 @ m2 \<and> utf8_char m1 \<and> in_class u c m1 \<and> spelled u c m2)"
  then show "spelled u c m"
  proof
    assume "\<exists>m1 m2. m = m1 @ m2 \<and> utf8_char m1 \<and> in_class u c m1 \<and> spelled u c m2"
    then obtain m1 ws where "m = m1 @ concat ws" "utf8_char m1 \<and> in_class u c m1" "\<forall>w\<in>set ws. utf8_char w \<and> in_class u c w"
      by (auto simp: spelled_def)
    then show ?thesis unfolding spelled_def by (intro exI [of _ "m1 # ws"]) simp
  qed simp
qed

text \<open>Repeating a pattern that does not look around repeats its pieces.\<close>

lemma spans_Star_pieces:
  assumes "\<And>x m y. spans u r x m y \<longleftrightarrow> P m"
  shows "spans u (Star g r) x m y \<longleftrightarrow> (\<exists>ws. m = concat ws \<and> (\<forall>w\<in>set ws. P w))"
proof
  show "spans u (Star g r) x m y \<Longrightarrow> \<exists>ws. m = concat ws \<and> (\<forall>w\<in>set ws. P w)"
  proof (induction "length m" arbitrary: x m rule: less_induct)
    case less
    from less.prems consider "m = []" | m1 m2 where "m = m1 @ m2" "m1 \<noteq> []" "P m1" "spans u (Star g r) (x @ m1) m2 y"
      unfolding spans_Star [of u g r x m y] assms by blast
    then show ?case
    proof cases
      case 1
      then show ?thesis by (intro exI [of _ "[]"]) simp
    next
      case 2
      with less.hyps [of m2 "x @ m1"] obtain ws where "m2 = concat ws" "\<forall>w\<in>set ws. P w" by auto
      with 2 show ?thesis by (intro exI [of _ "m1 # ws"]) simp
    qed
  qed
next
  have "spans u (Star g r) x (concat ws) y" if "\<forall>w\<in>set ws. P w" for ws
    using that
  proof (induction ws arbitrary: x)
    case (Cons w ws)
    show ?case
    proof (cases "w = []")
      case True
      then show ?thesis using Cons.IH [of x] Cons.prems by simp
    next
      case False
      have "spans u r x w (concat ws @ y)" "spans u (Star g r) (x @ w) (concat ws) y"
        using Cons.IH [of "x @ w"] Cons.prems assms by simp_all
      with False show ?thesis unfolding spans_Star [of u g r x "concat (w # ws)" y] by (metis concat.simps(2))
    qed
  next
    case Nil
    show ?case unfolding spans_Star [of u g r x "concat []" y] by simp
  qed
  then show "\<exists>ws. m = concat ws \<and> (\<forall>w\<in>set ws. P w) \<Longrightarrow> spans u (Star g r) x m y" by blast
qed

lemma spans_Star_Cls [simp]: "spans u (Star g (Cls c)) x m y \<longleftrightarrow> spelled u c m"
  unfolding spelled_def by (rule spans_Star_pieces) simp

section \<open>The patterns\<close>

fun lit :: "string \<Rightarrow> regex" where
  "lit [] = Nothing"
| "lit [c] = Cls (OneOf [c])"
| "lit (c # cs) = Seq (Cls (OneOf [c])) (lit cs)"

fun any_of :: "string list \<Rightarrow> regex" where
  "any_of [] = Cls (OneOf [])"
| "any_of [w] = lit w"
| "any_of (w # ws) = Alt (lit w) (any_of ws)"

definition plus :: "bool \<Rightarrow> char_class \<Rightarrow> regex" where "plus greedy c = Seq (Cls c) (Star greedy (Cls c))"
abbreviation many :: "char_class \<Rightarrow> regex" where "many c \<equiv> Star True (Cls c)"
abbreviation dot :: char_class where "dot \<equiv> Negated (OneOf [NL])"
abbreviation black :: char_class where "black \<equiv> Negated Space"

definition token_start :: regex where
  "token_start = Alt TextStart (Cls (Union Space (OneOf '';&|'')))"

definition fetchers :: "string list" where "fetchers = [''curl'', ''wget'', ''fetch'']"
definition shells :: "string list" where "shells = [''sh'', ''bash'', ''zsh'', ''fish'', ''dash'', ''ksh'']"

definition shell_end :: regex where
  "shell_end = Alt WordEdge (Alt (Cls Space) (Alt TextEnd (Cls (OneOf '';|''))))"

definition curl_pipe_sh_pattern :: regex where
  "curl_pipe_sh_pattern =
     Seq token_start (Seq (any_of fetchers) (Seq (Cls Space) (Seq (plus False dot) (Seq (lit ''|'') (Seq (many Space)
       (Seq (any_of shells) shell_end))))))"

definition npm_unsafe_pattern :: regex where
  "npm_unsafe_pattern =
     Seq token_start (Seq (any_of [''npm'', ''pnpm'', ''yarn'']) (Seq (plus True Space) (Seq (any_of [''install'', ''i'', ''add'']) WordEdge)))"

definition quoted :: "nat \<Rightarrow> char \<Rightarrow> regex" where
  "quoted n q = Seq (lit [q]) (Seq (Group n (plus True (Negated (OneOf [q])))) (lit [q]))"

definition bash_c_pattern :: regex where
  "bash_c_pattern =
     Seq token_start (Seq (any_of [''bash'', ''sh'', ''zsh'']) (Seq (plus True Space) (Seq (lit ''-c'') (Seq (plus True Space)
       (Alt (quoted 1 CHR 0x22) (Alt (quoted 2 CHR 0x27) (Group 3 (plus True black))))))))"

definition octet :: regex where
  "octet = Seq (Cls Digit) (Alt (Seq (Cls Digit) (Alt (Cls Digit) Nothing)) Nothing)"

definition ip_url_pattern :: regex where
  "ip_url_pattern =
     Seq token_start (Seq (any_of fetchers) (Seq (plus True Space) (Seq (Star False (Cls (Negated (OneOf ''|;'')))) (Seq WordEdge
       (Seq octet (Seq (lit ''.'') (Seq octet (Seq (lit ''.'') (Seq octet (Seq (lit ''.'') (Seq octet WordEdge)))))))))))"

definition insecure_tls_pattern :: regex where
  "insecure_tls_pattern =
     Seq token_start (Seq (any_of fetchers) (Seq (plus True Space) (Seq (Star False (Seq (plus True black) (plus True Space)))
       (Seq (any_of [''--insecure'', ''--no-check-certificate'', ''-k'']) WordEdge))))"

definition chmod_pattern :: regex where
  "chmod_pattern =
     Seq (lit ''chmod'') (Seq (plus True Space) (Seq (lit ''+x'') (Seq (plus True Space) (Group 1 (plus True black)))))"

definition proc_subst_pattern :: regex where
  "proc_subst_pattern =
     Seq (any_of [''bash'', ''sh'', ''zsh'', ''fish'', ''dash'', ''ksh'']) (Seq (plus True Space) (Seq (lit ''<('') (Seq (many Space)
       (Seq (any_of fetchers) WordEdge))))"

section \<open>The detectors\<close>

type_synonym regex_crate = "regex \<Rightarrow> string \<Rightarrow> ((nat \<times> nat) \<times> groups) option"

definition find_span :: "regex_crate \<Rightarrow> regex \<Rightarrow> string \<Rightarrow> (nat \<times> nat) option" where
  "find_span rx r s = map_option fst (rx r s)"

definition tier1_new :: "regex_crate \<Rightarrow> match_iter \<Rightarrow> string \<Rightarrow> string \<Rightarrow> string \<Rightarrow> tier1" where
  "tier1_new rx ac npm_corpus url_corpus atom_corpus =
     \<lparr>curl_pipe_sh = find_span rx curl_pipe_sh_pattern,
      npm_unsafe = find_span rx npm_unsafe_pattern,
      bash_c = (\<lambda>s. map_option (\<lambda>(m, g). (m, [g 1, g 2, g 3])) (rx bash_c_pattern s)),
      flagged_npm_packages = parse_flagged_npm npm_corpus,
      flagged_urls = parse_flagged_urls url_corpus,
      t1_atoms = atom_matcher_new ac atom_corpus\<rparr>"

text \<open>The group of the file name takes part in every match of its pattern.\<close>

definition heuristic_new :: "regex_crate \<Rightarrow> heuristic_rules" where
  "heuristic_new rx =
     \<lparr>ip_url_fetcher = find_span rx ip_url_pattern,
      insecure_tls_fetcher = find_span rx insecure_tls_pattern,
      chmod_then_exec = (\<lambda>s. case rx chmod_pattern s of None \<Rightarrow> None | Some (m, g) \<Rightarrow> Some (m, the (g 1))),
      proc_subst_curl = find_span rx proc_subst_pattern\<rparr>"

section \<open>The engine\<close>

lemma search_from_cases:
  "(search_from u r s is = None \<longleftrightarrow> (\<forall>i\<in>set is. is_char_boundary s i \<longrightarrow> ends u s r i = []))
   \<and> (search_from u r s is = Some ((i, j), g) \<longrightarrow> i \<in> set is \<and> is_char_boundary s i \<and> (j, g) \<in> set (ends u s r i))"
  by (induction "is") (auto split: list.splits if_splits)

lemma ends_none: "i \<le> length s \<Longrightarrow> ends u s r i = [] \<longleftrightarrow> (\<nexists>j. regex_match u s r i j)"
  using ends_match [of i s _ u r] by (metis empty_iff image_is_empty list.set(1) set_empty ex_in_conv)

locale regex_engine =
  fixes u :: unicode and rx :: regex_crate
  assumes documented: "rx r s = regex_search u r s"
begin

lemma find_None: "find_span rx r s = None \<longleftrightarrow> (\<forall>i\<le>length s. is_char_boundary s i \<longrightarrow> (\<nexists>j. regex_match u s r i j))"
proof -
  have "set [0..<length s + 1] = {..length s}" by auto
  then show ?thesis
    using search_from_cases [of u r s "[0..<length s + 1]"] ends_none [of _ s u r]
    by (simp add: find_span_def documented regex_search_def Ball_def del: upt_Suc)
qed

lemma find_Some:
  assumes "find_span rx r s = Some (i, j)"
  shows "i \<le> length s" and "is_char_boundary s i" and "regex_match u s r i j"
proof -
  obtain g where "search_from u r s [0..<length s + 1] = Some ((i, j), g)"
    using assms by (auto simp: find_span_def documented regex_search_def)
  then have "i \<in> set [0..<length s + 1]" "is_char_boundary s i" "(j, g) \<in> set (ends u s r i)"
    using search_from_cases [of u r s "[0..<length s + 1]" i j g] by blast+
  then show "i \<le> length s" "is_char_boundary s i" "regex_match u s r i j"
    using ends_match [of i s j u r] by (force simp: less_Suc_eq_le)+
qed

lemma fires:
  "find_span rx r s \<noteq> None \<longleftrightarrow> (\<exists>x m y. s = x @ m @ y \<and> is_char_boundary s (length x) \<and> spans u r x m y)"
proof
  assume "find_span rx r s \<noteq> None"
  then obtain i j where f: "find_span rx r s = Some (i, j)" by auto
  note F = find_Some [OF f]
  have le: "i \<le> j" "j \<le> length s" using match_le [OF F(3)] F(1) by auto
  have "s = take i s @ take (j - i) (drop i s) @ drop j s"
    using le by (metis append_assoc append_take_drop_id drop_drop le_add_diff_inverse2 take_add)
  moreover have "length (take i s @ take (j - i) (drop i s)) = j" using le by simp
  ultimately show "\<exists>x m y. s = x @ m @ y \<and> is_char_boundary s (length x) \<and> spans u r x m y"
    using F le unfolding spans_def by (metis length_take min.absorb2)
next
  assume "\<exists>x m y. s = x @ m @ y \<and> is_char_boundary s (length x) \<and> spans u r x m y"
  then obtain x m y where d: "s = x @ m @ y" "is_char_boundary s (length x)" "regex_match u s r (length x) (length (x @ m))"
    by (auto simp: spans_def)
  have "length x \<le> length s" by (simp add: d(1))
  with d(2,3) show "find_span rx r s \<noteq> None" unfolding find_None by blast
qed

end

interpretation reference: regex_engine u "regex_search u" for u
  by unfold_locales simp

section \<open>Reading a pattern as the shape of a command\<close>

lemma utf8_char_ascii: "byte_of c < (0x80::nat) \<Longrightarrow> utf8_char [c]"
  by (simp add: utf8_char_def utf8_len_ascii)

lemma utf8_char_ws: "w \<in> set ws_chars \<Longrightarrow> utf8_char w"
  by (auto simp: ws_chars_def utf8_char_def utf8_len_def cont_def)

lemma spans_one: "byte_of c < (0x80::nat) \<Longrightarrow> spans u (Cls (OneOf [c])) x m y \<longleftrightarrow> m = [c]"
  by (auto simp: utf8_char_ascii split: list.splits)

lemma spans_lit [simp]: "ascii w \<Longrightarrow> spans u (lit w) x m y \<longleftrightarrow> m = w"
proof (induction w arbitrary: x m rule: lit.induct)
  case (2 c)
  then show ?case using spans_one [of c] by (simp add: ascii_def del: spans_Cls)
next
  case (3 c d cs)
  then have "byte_of c < (0x80::nat)" "ascii (d # cs)" by (simp_all add: ascii_def)
  then show ?case using 3(1) spans_one [of c] by (simp del: spans_Cls)
qed simp

lemma spans_any_of [simp]: "\<forall>w\<in>set ws. ascii w \<Longrightarrow> spans u (any_of ws) x m y \<longleftrightarrow> m \<in> set ws"
  by (induction ws rule: any_of.induct) (auto split: list.splits)

lemma spans_plus [simp]: "spans u (plus g c) x m y \<longleftrightarrow> m \<noteq> [] \<and> spelled u c m"
  unfolding plus_def spans_Seq spelled_step [of u c m] by (auto simp: utf8_char_def)

declare lit.simps [simp del] any_of.simps [simp del]

lemma ascii_simps [simp]: "ascii []" "ascii (c # s) \<longleftrightarrow> byte_of c < (0x80::nat) \<and> ascii s"
  by (auto simp: ascii_def)

definition token_starts :: "string \<Rightarrow> bool" where
  "token_starts x \<longleftrightarrow> x = [] \<or> (\<exists>p c. x = p @ c \<and> (c \<in> set ws_chars \<or> c \<in> {'';'', ''&'', ''|''}))"

definition word_ends :: "unicode \<Rightarrow> string \<Rightarrow> bool" where
  "word_ends u y \<longleftrightarrow> \<not> word_char u (take (utf8_len y) y)"

lemma spans_token_start [simp]:
  "spans u token_start x m y \<longleftrightarrow> (x = [] \<and> m = []) \<or> m \<in> set ws_chars \<or> m \<in> {'';'', ''&'', ''|''}"
  using utf8_char_ws by (auto simp: token_start_def utf8_char_ascii split: list.splits)

lemma token_first_byte: "c \<in> set ws_chars \<or> c \<in> {'';'', ''&'', ''|''} \<Longrightarrow> c \<noteq> [] \<and> \<not> cont (hd c)"
  by (auto simp: ws_chars_def cont_def)

lemma starts_at_token:
  "(\<exists>x m y. s = x @ m @ y \<and> is_char_boundary s (length x) \<and> spans u (Seq token_start r) x m y)
   \<longleftrightarrow> (\<exists>x m y. s = x @ m @ y \<and> token_starts x \<and> spans u r x m y)"
proof
  assume "\<exists>x m y. s = x @ m @ y \<and> is_char_boundary s (length x) \<and> spans u (Seq token_start r) x m y"
  then obtain x m1 m2 y where d: "s = x @ (m1 @ m2) @ y" "spans u token_start x m1 (m2 @ y)" "spans u r (x @ m1) m2 y"
    unfolding spans_Seq by blast
  then have "s = (x @ m1) @ m2 @ y \<and> token_starts (x @ m1) \<and> spans u r (x @ m1) m2 y"
    by (auto simp: token_starts_def)
  then show "\<exists>x m y. s = x @ m @ y \<and> token_starts x \<and> spans u r x m y" by blast
next
  assume "\<exists>x m y. s = x @ m @ y \<and> token_starts x \<and> spans u r x m y"
  then obtain x m y where d: "s = x @ m @ y" "token_starts x" "spans u r x m y" by blast
  show "\<exists>x m y. s = x @ m @ y \<and> is_char_boundary s (length x) \<and> spans u (Seq token_start r) x m y"
  proof (cases "x = []")
    case True
    then show ?thesis using d by (intro exI [of _ "[]"] exI [of _ m] exI [of _ y]) (auto simp: is_char_boundary_def)
  next
    case False
    then obtain p c where x: "x = p @ c" "c \<in> set ws_chars \<or> c \<in> {'';'', ''&'', ''|''}" using d(2) by (auto simp: token_starts_def)
    then have "is_char_boundary s (length p)"
      using token_first_byte [OF x(2)] d(1) by (auto simp: is_char_boundary_def nth_append hd_conv_nth)
    moreover have "spans u (Seq token_start r) p (c @ m) y" using d(3) x by auto
    ultimately show ?thesis using d(1) x(1) by (intro exI [of _ p] exI [of _ "c @ m"] exI [of _ y]) simp
  qed
qed

lemma word_before_last:
  assumes "x \<noteq> []" and "byte_of (last x) < (0x80::nat)"
  shows "word_before u (x @ y) (length x) \<longleftrightarrow> word_char u [last x]"
proof -
  let ?i = "length x - 1"
  have x: "x @ y = butlast x @ [last x] @ y" "?i = length (butlast x)" using assms(1) by simp_all
  have "(x @ y) ! ?i = last x" using assms(1) by (simp add: nth_append last_conv_nth)
  then have "is_char_boundary (x @ y) ?i" using assms by (auto simp: is_char_boundary_def cont_def)
  then have "boundary_down (x @ y) ?i = ?i" by (cases ?i) auto
  moreover have "char_at (x @ y) ?i = [last x]" unfolding x by (rule char_at_char [OF utf8_char_ascii [OF assms(2)]])
  ultimately show ?thesis using assms(1) by (simp add: word_before_def)
qed

lemma word_after_append: "word_after u (x @ y) (length x) \<longleftrightarrow> \<not> word_ends u y"
  by (simp add: word_after_def word_ends_def char_at_append)

lemma spans_edge_after_word:
  assumes "w \<noteq> []" and "ascii_alnum (last w)"
  shows "spans u WordEdge (x @ w) m y \<longleftrightarrow> m = [] \<and> word_ends u y"
proof -
  have "byte_of (last w) < (0x80::nat)" using assms(2) by (auto simp: ascii_alnum_def is_digit_def)
  then show ?thesis using word_before_last [of "x @ w" u y] word_after_append [of u "x @ w" y] assms
    by (auto simp: word_char_def)
qed

end
