(* ===== verification/Shapes.thy ===== *)
theory Shapes
  imports Patterns
begin

text \<open>
  What the patterns of the detectors mean (\<open>Tier1::new\<close>, \<open>HeuristicBackend::new\<close> in \<open>classifier.rs\<close>): which commands they fire on,
  that the detectors as they are built satisfy what the classifier relies on, and what a command is reported as if it has one of the
  shapes.
\<close>

section \<open>Matches are not empty and end between characters\<close>

fun consuming :: "regex \<Rightarrow> bool" where
  "consuming (Cls c) = True"
| "consuming (Seq a b) = (consuming a \<or> consuming b)"
| "consuming (Alt a b) = (consuming a \<and> consuming b)"
| "consuming (Group n r) = consuming r"
| "consuming _ = False"

lemma consuming_match: "consuming r \<Longrightarrow> regex_match u s r i j \<Longrightarrow> i < j"
proof (induction r arbitrary: i j)
  case (Seq a b)
  then obtain k where k: "regex_match u s a i k" "regex_match u s b k j" by auto
  from match_le [OF k(1)] match_le [OF k(2)] Seq.IH(1) [OF _ k(1)] Seq.IH(2) [OF _ k(2)] Seq.prems(1)
  show ?case by fastforce
qed auto

lemma match_boundary:
  "utf8_valid s \<Longrightarrow> regex_match u s r i j \<Longrightarrow> i \<le> length s \<Longrightarrow> is_char_boundary s i \<Longrightarrow> is_char_boundary s j"
proof (induction r arbitrary: i j)
  case (Cls c)
  let ?n = "utf8_len (drop i s)"
  have "utf8_valid (drop i s)" using utf8_valid_split [OF Cls(1,4,3)] by simp
  moreover have ne: "char_at s i \<noteq> []" "j = i + length (char_at s i)" using Cls(2) by auto
  then have n: "0 < ?n" "drop i s \<noteq> []" "j = i + ?n" "j \<le> length s"
    using utf8_len_le [of "drop i s"] Cls(3) by (auto simp: char_at_def)
  ultimately have "utf8_valid (drop ?n (drop i s))" by (subst (asm) utf8_valid.simps) (simp split: if_splits)
  then show ?case using boundary_drop n by (simp add: add.commute)
next
  case (Seq a b)
  then obtain k where k: "regex_match u s a i k" "regex_match u s b k j" by auto
  from Seq.IH(1) [OF Seq.prems(1) k(1)] Seq.IH(2) [OF Seq.prems(1) k(2)] match_le [OF k(1)] Seq.prems show ?case by blast
next
  case (Star g r)
  have "(regex_match u s r)\<^sup>*\<^sup>* i j" using Star.prems(2) by simp
  then have "is_char_boundary s j \<and> j \<le> length s"
    by (induction rule: rtranclp_induct) (use Star.IH [OF Star.prems(1)] Star.prems(3,4) match_le in blast)+
  then show ?case ..
qed auto

context regex_engine
begin

lemma find_in_text: "consuming r \<Longrightarrow> in_text (find_span rx r)"
  unfolding in_text_def
  using find_Some consuming_match match_le match_boundary by (metis le_trans)

end

section \<open>The lists\<close>

lemma valid_before_ascii:
  assumes "utf8_valid (x @ c # y)" and "byte_of c < (0x80::nat)"
  shows "utf8_valid x" and "utf8_valid y"
proof -
  have "is_char_boundary (x @ c # y) (length x)" using assms(2) by (simp add: is_char_boundary_def cont_def)
  from utf8_valid_split [OF assms(1) this] show "utf8_valid x" "utf8_valid y"
    using utf8_valid_ascii [OF assms(2)] by simp_all
qed

lemma split_nl_valid: "utf8_valid s \<Longrightarrow> l \<in> set (split_nl s) \<Longrightarrow> utf8_valid l"
proof (induction "length s" arbitrary: s l rule: less_induct)
  case less
  show ?case
  proof (cases "NL \<in> set s")
    case True
    then obtain x y where s: "s = x @ NL # y" "NL \<notin> set x" by (meson split_list_first)
    then have "utf8_valid x" "utf8_valid y" using valid_before_ascii [of x NL y] less.prems(1) by simp_all
    with s less.prems(2) less.hyps [of y] show ?thesis by (auto simp: split_nl_append_NL)
  next
    case False
    have "split_nl s = [s]" using False by (induction s) (auto split: list.splits)
    with less.prems show ?thesis by simp
  qed
qed

lemma strip_cr_valid:
  assumes "utf8_valid l"
  shows "utf8_valid (strip_cr l)"
proof (cases "l \<noteq> [] \<and> last l = CR")
  case True
  then have "l = butlast l @ [CR]" by (metis append_butlast_last_id)
  then show ?thesis using valid_before_ascii(1) [of "butlast l" CR "[]"] assms by (simp add: strip_cr_def)
qed (use assms in \<open>auto simp: strip_cr_def\<close>)

lemma str_lines_valid: "utf8_valid s \<Longrightarrow> l \<in> set (str_lines s) \<Longrightarrow> utf8_valid l"
  by (auto simp: str_lines_def Let_def intro!: strip_cr_valid dest: in_set_butlastD split_nl_valid split: if_splits)
     (meson last_in_set split_nl_not_Nil split_nl_valid)+

lemma ws_char_valid: "w \<in> set ws_chars \<Longrightarrow> utf8_valid w"
  using utf8_char_ws by (subst utf8_valid.simps) (auto simp: utf8_char_def)

lemma trim_start_valid: "utf8_valid s \<Longrightarrow> utf8_valid (trim_start s)"
proof (induction s rule: trim_start.induct)
  case (1 s)
  show ?case
  proof (cases "ws_prefix s = 0")
    case False
    then obtain w where "w \<in> set ws_chars" "prefix w s" "ws_prefix s = length w"
      by (auto simp: ws_prefix_def find_Some_iff split: option.splits) (metis nth_mem)
    then have "utf8_valid (drop (ws_prefix s) s)"
      using 1(2) utf8_valid_appendD ws_char_valid by (auto elim!: prefixE)
    with 1(1) False show ?thesis by (simp add: trim_start.simps [of s])
  qed (use 1(2) in \<open>simp add: trim_start.simps [of s]\<close>)
qed

lemma trim_end_valid: "utf8_valid s \<Longrightarrow> utf8_valid (trim_end s)"
proof (induction s rule: trim_end.induct)
  case (1 s)
  show ?case
  proof (cases "ws_suffix s = 0")
    case False
    then obtain w where w: "w \<in> set ws_chars" "suffix w s" "ws_suffix s = length w"
      by (auto simp: ws_suffix_def find_Some_iff split: option.splits) (metis nth_mem)
    then obtain t where t: "s = t @ w" by (auto elim: suffixE)
    have "is_char_boundary s (length t)"
      using t token_first_byte [of w] w(1) by (auto simp: is_char_boundary_def nth_append hd_conv_nth)
    then have "utf8_valid (take (length s - ws_suffix s) s)" using utf8_valid_split [OF 1(2)] t w(3) by fastforce
    with 1(1) False show ?thesis by (simp add: trim_end.simps [of s])
  qed (use 1(2) in \<open>simp add: trim_end.simps [of s]\<close>)
qed

lemma flagged_urls_valid: "utf8_valid corpus \<Longrightarrow> l \<in> set (parse_flagged_urls corpus) \<Longrightarrow> l \<noteq> [] \<and> utf8_valid l"
  by (auto simp: parse_flagged_urls_def str_trim_def intro!: trim_end_valid trim_start_valid dest: str_lines_valid)

section \<open>The detectors as they are built\<close>

context regex_engine
begin

lemma tier1_new_ok:
  assumes "multi_pattern ac" and "utf8_valid url_corpus"
  shows "tier1_ok (tier1_new rx ac npm_corpus url_corpus atom_corpus)"
proof -
  have "(\<lambda>s. map_option fst (map_option (\<lambda>(m, g). (m, [g 1, g 2, g 3])) (rx bash_c_pattern s))) = find_span rx bash_c_pattern"
    by (auto simp: find_span_def option.map_comp fun_eq_iff intro!: option.map_cong)
  then show ?thesis
    using assms flagged_urls_valid
    by (auto simp: tier1_ok_def tier1_new_def curl_pipe_sh_pattern_def npm_unsafe_pattern_def bash_c_pattern_def plus_def intro!: find_in_text)
qed

lemma heuristic_new_ok: "rules_ok (heuristic_new rx)"
proof -
  have "(\<lambda>s. map_option fst (chmod_then_exec (heuristic_new rx) s)) = find_span rx chmod_pattern"
    by (auto simp: heuristic_new_def find_span_def split: option.splits)
  then show ?thesis by (simp add: rules_ok_def find_in_text chmod_pattern_def plus_def)
qed

end

section \<open>Shapes\<close>

lemma spelled_Space: "spelled u Space m \<longleftrightarrow> (\<exists>ws. m = concat ws \<and> set ws \<subseteq> set ws_chars)"
  using utf8_char_ws by (auto simp: spelled_def)

definition fetch_to_shell :: "unicode \<Rightarrow> string \<Rightarrow> bool" where
  "fetch_to_shell u s \<longleftrightarrow>
     (\<exists>x f w mid sp sh y. s = x @ f @ w @ mid @ ''|'' @ sp @ sh @ y \<and> token_starts x \<and> f \<in> set fetchers \<and> w \<in> set ws_chars
        \<and> mid \<noteq> [] \<and> spelled u dot mid \<and> spelled u Space sp \<and> sh \<in> set shells \<and> word_ends u y)"

lemma names_ascii [simp]: "w \<in> set shells \<Longrightarrow> ascii w" "w \<in> set fetchers \<Longrightarrow> ascii w"
  by (auto simp: shells_def fetchers_def ascii_def)

lemma names_alnum: "w \<in> set shells \<union> set fetchers \<Longrightarrow> w \<noteq> [] \<and> ascii_alnum (last w)"
  by (auto simp: shells_def fetchers_def ascii_alnum_def)

lemma ws_single: "[c] \<in> set ws_chars \<Longrightarrow> \<not> ascii_alnum c \<and> c \<noteq> CHR ''_''"
  by (auto simp: ws_chars_def ascii_alnum_def is_digit_def)

lemma ws_not_word: "m \<in> set ws_chars \<Longrightarrow> \<not> word_char u m"
  using ws_single by (auto simp: word_char_def split: list.splits)

lemma not_word:
  assumes "m \<in> set ws_chars \<or> m \<in> {'';'', ''|''}"
  shows "utf8_char m \<and> \<not> word_char u m"
proof -
  have "utf8_char m \<and> \<not> word_char u m" if "m \<in> {'';'', ''|''}"
    using that by (auto simp: utf8_char_ascii word_char_def ascii_alnum_def is_digit_def)
  then show ?thesis using assms utf8_char_ws ws_not_word by blast
qed

lemma spans_shell_end:
  assumes "w \<noteq> [] \<and> ascii_alnum (last w)"
  shows "(\<exists>m' y'. y = m' @ y' \<and> spans u shell_end (x @ w) m' y') \<longleftrightarrow> word_ends u y"
proof
  assume "\<exists>m' y'. y = m' @ y' \<and> spans u shell_end (x @ w) m' y'"
  then obtain m' y' where y: "y = m' @ y'" "spans u shell_end (x @ w) m' y'" by blast
  then consider "spans u WordEdge (x @ w) m' y'" | "m' \<in> set ws_chars \<or> m' \<in> {'';'', ''|''}" | "m' = []" "y' = []"
    by (auto simp: shell_end_def split: list.splits)
  then show "word_ends u y"
  proof cases
    case 1
    then show ?thesis using spans_edge_after_word [of w u x m' y'] assms y by simp
  next
    case 2
    from not_word [OF this, of u] show ?thesis using utf8_char_len [of m' y'] y(1) by (simp add: word_ends_def)
  next
    case 3
    then show ?thesis using y by (simp add: word_ends_def word_char_def)
  qed
next
  assume "word_ends u y"
  then show "\<exists>m' y'. y = m' @ y' \<and> spans u shell_end (x @ w) m' y'"
    using spans_edge_after_word [of w u x "[]" y] assms by (intro exI [of _ "[]"] exI [of _ y]) (simp add: shell_end_def)
qed

lemma spans_curl:
  "spans u (Seq (any_of fetchers) (Seq (Cls Space) (Seq (plus False dot) (Seq (lit ''|'') (Seq (many Space) (Seq (any_of shells) shell_end)))))) x m y
   \<longleftrightarrow> (\<exists>f w mid sp sh t. m = f @ w @ mid @ ''|'' @ sp @ sh @ t \<and> f \<in> set fetchers \<and> w \<in> set ws_chars
        \<and> mid \<noteq> [] \<and> spelled u dot mid \<and> spelled u Space sp \<and> sh \<in> set shells \<and> spans u shell_end (x @ f @ w @ mid @ ''|'' @ sp @ sh) t y)"
  (is "?L \<longleftrightarrow> ?R")
proof
  show "?L \<Longrightarrow> ?R"
    by (elim spans_SeqE, simp, intro exI conjI, rule refl) simp_all
  show "?R \<Longrightarrow> ?L"
    by (elim exE conjE, hypsubst, intro spans_SeqI) (simp_all add: utf8_char_ws)
qed

lemma curl_reads:
  "(\<exists>x m y. s = x @ m @ y \<and> is_char_boundary s (length x) \<and> spans u curl_pipe_sh_pattern x m y) \<longleftrightarrow> fetch_to_shell u s"
proof
  assume "\<exists>x m y. s = x @ m @ y \<and> is_char_boundary s (length x) \<and> spans u curl_pipe_sh_pattern x m y"
  then obtain x f w mid sp sh t y where d: "s = x @ f @ w @ mid @ ''|'' @ sp @ sh @ t @ y" "token_starts x" "f \<in> set fetchers"
      "w \<in> set ws_chars" "mid \<noteq> []" "spelled u dot mid" "spelled u Space sp" "sh \<in> set shells"
      "spans u shell_end ((x @ f @ w @ mid @ ''|'' @ sp) @ sh) t y"
    unfolding curl_pipe_sh_pattern_def starts_at_token spans_curl by auto
  from d(8,9) names_alnum spans_shell_end have "word_ends u (t @ y)" by blast
  with d(1-8) show "fetch_to_shell u s" unfolding fetch_to_shell_def by blast
next
  assume "fetch_to_shell u s"
  then obtain x f w mid sp sh y where d: "s = x @ f @ w @ mid @ ''|'' @ sp @ sh @ y" "token_starts x" "f \<in> set fetchers"
      "w \<in> set ws_chars" "mid \<noteq> []" "spelled u dot mid" "spelled u Space sp" "sh \<in> set shells" "word_ends u y"
    unfolding fetch_to_shell_def by blast
  from d(8,9) names_alnum spans_shell_end [of sh y u "x @ f @ w @ mid @ ''|'' @ sp"] obtain t y' where
    "y = t @ y'" "spans u shell_end ((x @ f @ w @ mid @ ''|'' @ sp) @ sh) t y'" by blast
  with d(1-8) have "s = x @ (f @ w @ mid @ ''|'' @ sp @ sh @ t) @ y' \<and> token_starts x
      \<and> spans u (Seq (any_of fetchers) (Seq (Cls Space) (Seq (plus False dot) (Seq (lit ''|'') (Seq (many Space)
          (Seq (any_of shells) shell_end)))))) x (f @ w @ mid @ ''|'' @ sp @ sh @ t) y'"
    unfolding spans_curl by (intro conjI exI) (auto simp del: spans_simps)
  then show "\<exists>x m y. s = x @ m @ y \<and> is_char_boundary s (length x) \<and> spans u curl_pipe_sh_pattern x m y"
    unfolding curl_pipe_sh_pattern_def starts_at_token by blast
qed

lemma spans_names_edge:
  assumes "\<forall>w\<in>set ws. ascii w \<and> w \<noteq> [] \<and> ascii_alnum (last w)"
  shows "spans u (Seq (any_of ws) WordEdge) x m y \<longleftrightarrow> m \<in> set ws \<and> word_ends u y"
proof -
  have "spans u (any_of ws) x m y \<longleftrightarrow> m \<in> set ws" for m y using assms by simp
  then show ?thesis using spans_edge_after_word assms unfolding spans_Seq by fastforce
qed

text \<open>\<open>sh <(curl\<close>, anywhere in the command, and a fetcher with a word of its own that switches the check of the certificate off.\<close>

definition fetch_substituted :: "unicode \<Rightarrow> string \<Rightarrow> bool" where
  "fetch_substituted u s \<longleftrightarrow>
     (\<exists>x sh sp sp' f y. s = x @ sh @ sp @ ''<('' @ sp' @ f @ y \<and> sh \<in> set shells \<and> sp \<noteq> [] \<and> spelled u Space sp
        \<and> spelled u Space sp' \<and> f \<in> set fetchers \<and> word_ends u y)"

lemma spans_subst:
  "spans u proc_subst_pattern x m y \<longleftrightarrow> (\<exists>sh sp sp' f. m = sh @ sp @ ''<('' @ sp' @ f \<and> sh \<in> set shells \<and> sp \<noteq> []
      \<and> spelled u Space sp \<and> spelled u Space sp' \<and> f \<in> set fetchers \<and> word_ends u y)"
  (is "?L \<longleftrightarrow> ?R")
proof -
  have names: "set [''bash'', ''sh'', ''zsh'', ''fish'', ''dash'', ''ksh''] = set shells" by (auto simp: shells_def)
  have shell: "spans u (any_of [''bash'', ''sh'', ''zsh'', ''fish'', ''dash'', ''ksh'']) x m y \<longleftrightarrow> m \<in> set shells" for x m y
    unfolding names [symmetric] by (rule spans_any_of) simp
  have fetch: "spans u (Seq (any_of fetchers) WordEdge) x m y \<longleftrightarrow> m \<in> set fetchers \<and> word_ends u y" for x m y
    using names_alnum names_ascii by (intro spans_names_edge) blast
  have "spans u (Seq (any_of [''bash'', ''sh'', ''zsh'', ''fish'', ''dash'', ''ksh'']) (Seq (plus True Space) (Seq (lit ''<('') (Seq (many Space) r)))) x m y
     \<longleftrightarrow> (\<exists>sh sp sp' f. m = sh @ sp @ ''<('' @ sp' @ f \<and> sh \<in> set shells \<and> sp \<noteq> [] \<and> spelled u Space sp \<and> spelled u Space sp'
           \<and> spans u r (x @ sh @ sp @ ''<('' @ sp') f y)" (is "?L \<longleftrightarrow> ?R") for r
  proof
    show "?L \<Longrightarrow> ?R" by (elim spans_SeqE, simp add: shell, intro exI conjI, rule refl) simp_all
    show "?R \<Longrightarrow> ?L" by (elim exE conjE, hypsubst, intro spans_SeqI) (simp_all add: shell)
  qed
  then show ?thesis unfolding proc_subst_pattern_def by (simp only: fetch)
qed

definition spaced_word :: "unicode \<Rightarrow> string \<Rightarrow> bool" where
  "spaced_word u w \<longleftrightarrow> (\<exists>t b. w = t @ b \<and> t \<noteq> [] \<and> spelled u black t \<and> b \<noteq> [] \<and> spelled u Space b)"

definition fetch_insecurely :: "unicode \<Rightarrow> string \<Rightarrow> bool" where
  "fetch_insecurely u s \<longleftrightarrow>
     (\<exists>x f sp ws flag y. s = x @ f @ sp @ concat ws @ flag @ y \<and> token_starts x \<and> f \<in> set fetchers \<and> sp \<noteq> [] \<and> spelled u Space sp
        \<and> (\<forall>w\<in>set ws. spaced_word u w) \<and> flag \<in> {''--insecure'', ''--no-check-certificate'', ''-k''} \<and> word_ends u y)"

lemma insecure_reads:
  "(\<exists>x m y. s = x @ m @ y \<and> is_char_boundary s (length x) \<and> spans u insecure_tls_pattern x m y) \<longleftrightarrow> fetch_insecurely u s"
proof -
  have words: "spans u (Star False (Seq (plus True black) (plus True Space))) x m y \<longleftrightarrow> (\<exists>ws. m = concat ws \<and> (\<forall>w\<in>set ws. spaced_word u w))" for x m y
    by (rule spans_Star_pieces) (auto simp: spaced_word_def)
  have flag: "spans u (Seq (any_of [''--insecure'', ''--no-check-certificate'', ''-k'']) WordEdge) x m y
      \<longleftrightarrow> m \<in> {''--insecure'', ''--no-check-certificate'', ''-k''} \<and> word_ends u y" for x m y
    using spans_names_edge [of "[''--insecure'', ''--no-check-certificate'', ''-k'']" u x m y] by (simp add: ascii_alnum_def)
  have "spans u (Seq (any_of fetchers) (Seq (plus True Space) (Seq (Star False (Seq (plus True black) (plus True Space))) r))) x m y
     \<longleftrightarrow> (\<exists>f sp ws m'. m = f @ sp @ concat ws @ m' \<and> f \<in> set fetchers \<and> sp \<noteq> [] \<and> spelled u Space sp
           \<and> (\<forall>w\<in>set ws. spaced_word u w) \<and> spans u r (x @ f @ sp @ concat ws) m' y)" (is "?L \<longleftrightarrow> ?R") for r x m y
  proof
    assume ?L
    then obtain f sp w m' where "m = f @ sp @ w @ m'" "f \<in> set fetchers" "sp \<noteq> []" "spelled u Space sp" "spans u r (x @ f @ sp @ w) m' y"
      "spans u (Star False (Seq (plus True black) (plus True Space))) (x @ f @ sp) w (m' @ y)"
      by (elim spans_SeqE) simp
    then show ?R unfolding words by blast
  next
    have star: "spans u (Star False (Seq (plus True black) (plus True Space))) x (concat ws) y" if "\<forall>w\<in>set ws. spaced_word u w" for x ws y
      unfolding words by (rule exI [of _ ws]) (simp add: that)
    assume ?R
    then obtain f sp ws m' where d: "m = f @ sp @ concat ws @ m'" "f \<in> set fetchers" "sp \<noteq> []" "spelled u Space sp"
      "\<forall>w\<in>set ws. spaced_word u w" "spans u r (x @ f @ sp @ concat ws) m' y" by blast
    show ?L unfolding d(1) using d(2-4,6) star [OF d(5)] by (intro spans_SeqI) simp_all
  qed
  note spans = this [of "Seq (any_of [''--insecure'', ''--no-check-certificate'', ''-k'']) WordEdge", unfolded flag]
  show ?thesis unfolding insecure_tls_pattern_def starts_at_token spans
  proof
    assume "\<exists>x m y. s = x @ m @ y \<and> token_starts x \<and> (\<exists>f sp ws m'. m = f @ sp @ concat ws @ m' \<and> f \<in> set fetchers \<and> sp \<noteq> []
        \<and> spelled u Space sp \<and> (\<forall>w\<in>set ws. spaced_word u w) \<and> m' \<in> {''--insecure'', ''--no-check-certificate'', ''-k''} \<and> word_ends u y)"
    then obtain x f sp ws m' y where d: "s = x @ (f @ sp @ concat ws @ m') @ y" "token_starts x" "f \<in> set fetchers" "sp \<noteq> []"
        "spelled u Space sp" "\<forall>w\<in>set ws. spaced_word u w" "m' \<in> {''--insecure'', ''--no-check-certificate'', ''-k''}" "word_ends u y"
      by blast
    from d(1) have "s = x @ f @ sp @ concat ws @ m' @ y" by simp
    with d(2-) show "fetch_insecurely u s" unfolding fetch_insecurely_def by blast
  next
    assume "fetch_insecurely u s"
    then obtain x f sp ws m' y where d: "s = x @ f @ sp @ concat ws @ m' @ y" "token_starts x" "f \<in> set fetchers" "sp \<noteq> []"
        "spelled u Space sp" "\<forall>w\<in>set ws. spaced_word u w" "m' \<in> {''--insecure'', ''--no-check-certificate'', ''-k''}" "word_ends u y"
      unfolding fetch_insecurely_def by blast
    from d(1) have "s = x @ (f @ sp @ concat ws @ m') @ y" by simp
    with d(2-) show "\<exists>x m y. s = x @ m @ y \<and> token_starts x \<and> (\<exists>f sp ws m'. m = f @ sp @ concat ws @ m' \<and> f \<in> set fetchers \<and> sp \<noteq> []
        \<and> spelled u Space sp \<and> (\<forall>w\<in>set ws. spaced_word u w) \<and> m' \<in> {''--insecure'', ''--no-check-certificate'', ''-k''} \<and> word_ends u y)"
      by blast
  qed
qed

context regex_engine
begin

lemma curl_layer: "find_span rx curl_pipe_sh_pattern s \<noteq> None \<longleftrightarrow> fetch_to_shell u s"
  unfolding fires by (rule curl_reads)

lemma insecure_rule: "find_span rx insecure_tls_pattern s \<noteq> None \<longleftrightarrow> fetch_insecurely u s"
  unfolding fires by (rule insecure_reads)

lemma subst_rule: "find_span rx proc_subst_pattern s \<noteq> None \<longleftrightarrow> fetch_substituted u s"
proof -
  have "is_char_boundary s (length x)" if "s = x @ m @ y" "spans u proc_subst_pattern x m y" for x m y
  proof -
    from that(2) obtain sh z where m: "m = sh @ z" "sh \<in> set shells" by (auto simp: spans_subst)
    then have "sh \<noteq> []" "\<not> cont (hd sh)" by (auto simp: shells_def cont_def)
    with m that(1) show ?thesis by (auto simp: is_char_boundary_def nth_append hd_conv_nth)
  qed
  then have "find_span rx proc_subst_pattern s \<noteq> None \<longleftrightarrow> (\<exists>x m y. s = x @ m @ y \<and> spans u proc_subst_pattern x m y)"
    unfolding fires by blast
  also have "\<dots> \<longleftrightarrow> fetch_substituted u s"
  proof
    assume "fetch_substituted u s"
    then obtain x sh sp sp' f y where d: "s = x @ sh @ sp @ ''<('' @ sp' @ f @ y" "sh \<in> set shells" "sp \<noteq> []" "spelled u Space sp"
        "spelled u Space sp'" "f \<in> set fetchers" "word_ends u y" unfolding fetch_substituted_def by blast
    then have "s = x @ (sh @ sp @ ''<('' @ sp' @ f) @ y" "spans u proc_subst_pattern x (sh @ sp @ ''<('' @ sp' @ f) y"
      unfolding spans_subst by (simp, blast)
    then show "\<exists>x m y. s = x @ m @ y \<and> spans u proc_subst_pattern x m y" by blast
  next
    assume "\<exists>x m y. s = x @ m @ y \<and> spans u proc_subst_pattern x m y"
    then obtain x sh sp sp' f y where d: "s = x @ (sh @ sp @ ''<('' @ sp' @ f) @ y" "sh \<in> set shells" "sp \<noteq> []" "spelled u Space sp"
        "spelled u Space sp'" "f \<in> set fetchers" "word_ends u y" unfolding spans_subst by blast
    then have "s = x @ sh @ sp @ ''<('' @ sp' @ f @ y" by simp
    with d(2-) show "fetch_substituted u s" unfolding fetch_substituted_def by blast
  qed
  finally show ?thesis .
qed

end

section \<open>What is reported\<close>

text \<open>A command that the second tier flags on its own is flagged.\<close>

lemma second_tier_flags:
  assumes "tier1_ok (c_tier1 c)" and "tier2_contract (c_tier2 c)" and "classify c cmd = Some r"
    and "t2_classify (c_tier2 c) cmd None = Some (Some r2)" and "f32_le (Fin (1 / 2)) (confidence r2)"
  shows "verdict r \<noteq> Safe"
proof (cases "tier1_suspicious (c_tier1 c) cmd")
  case True
  then show ?thesis using suspicious_flagged [OF assms(1,2,3)] by blast
next
  case False
  obtain hits1 hits n where parts: "classify_all (c_tier1 c) cmd = Some hits1"
    "consult_tier2 (c_tier2 c) cmd hits1 (distinct_span_groups hits1) = Some (hits, n)"
    "r = (case combine_hits hits (block_threshold c) n of Some r \<Rightarrow> r | None \<Rightarrow> safe_result)"
    using assms(3) by (rule classify_cases)
  note con = tier2_contract.consulted [OF assms(2,1) parts(1,2)]
  have "hits1 = []" using classify_all_Nil [OF assms(1) parts(1)] False by simp
  moreover have "f32_lt (Fin 0) SLM_CONFIRM_THRESHOLD"
    using rnd32_mono [of "1 / 2" "9 / 10"] rnd32_exact [of 1 1] by (simp add: SLM_CONFIRM_THRESHOLD_def f32_lit_def)
  ultimately have hits: "hits = [(r2, 0, 0)]"
    using parts(2) assms(4) by (auto simp: consult_tier2_def hint_of_def combined_confidence_def)
  have unit: "f32_unit (confidence r2)" "f32_unit (combined_confidence hits)" "f32_unit (Fin (1 / 2))"
    using con(1) combined_unit [OF con(1)] rnd32_exact [of 1 1] by (simp_all add: hits conf_ok_def) (simp add: f32_unit_def)
  have "f32_le (confidence r2) (combined_confidence hits)" using combined_dominates [OF con(1), of "(r2, 0, 0)"] assms(5) by (simp add: hits)
  then have "f32_le (Fin (1 / 2)) (combined_confidence hits)" using f32_le_trans_unit unit assms(5) by blast
  then have "\<not> f32_lt (combined_confidence hits) WARN_THRESHOLD"
    using f32_not_lt_unit [OF unit(2,3)] by (simp add: WARN_THRESHOLD_half)
  with combine_hits_cases [OF con(1), of "block_threshold c" n] obtain r' h where "combine_hits hits (block_threshold c) n = Some r'" "h \<in> set hits"
    "verdict r' = (case block_threshold c of Some t \<Rightarrow> if 2 \<le> n \<and> f32_le t (confidence r') then Block else verdict (fst h)
                   | None \<Rightarrow> verdict (fst h))" by (auto simp: hits)
  then show ?thesis using parts(3) con(2) by (cases "block_threshold c") auto
qed

text \<open>
  C18. Fetching and running is never reported Safe. With the detectors as they are built and an engine that keeps to its
  documentation, the first layer fires exactly on the commands in which, at the start of a word, \<open>curl\<close>, \<open>wget\<close> or \<open>fetch\<close> and
  something on the same line is piped into one of the six shells as a word, whatever else the command holds; and every such command is
  reported as Warn or Block, with a confidence of at least 0.6, under every second tier that keeps its contract and every threshold.
\<close>

theorem fetch_to_shell_flagged:
  assumes "regex_engine u rx" and "multi_pattern ac" and "utf8_valid url_corpus"
    and "c_tier1 c = tier1_new rx ac npm_corpus url_corpus atom_corpus"
  shows "(curl_hits (c_tier1 c) cmd \<noteq> [] \<longleftrightarrow> fetch_to_shell u cmd)
    \<and> (fetch_to_shell u cmd \<and> tier2_contract (c_tier2 c) \<longrightarrow>
         (\<forall>r. classify c cmd = Some r \<longrightarrow> verdict r \<noteq> Safe \<and> f32_le (f32_lit (6 / 10)) (confidence r)))"
proof -
  note layer = regex_engine.curl_layer [OF assms(1)]
  have ok: "tier1_ok (c_tier1 c)" using regex_engine.tier1_new_ok [OF assms(1-3)] assms(4) by simp
  have curl: "curl_pipe_sh (c_tier1 c) = find_span rx curl_pipe_sh_pattern" by (simp add: assms(4) tier1_new_def)
  have "tier1_suspicious (c_tier1 c) cmd" if "fetch_to_shell u cmd"
    using that layer by (simp add: tier1_suspicious_def curl)
  moreover have "curl_hits (c_tier1 c) cmd \<noteq> [] \<longleftrightarrow> find_span rx curl_pipe_sh_pattern cmd \<noteq> None"
    by (auto simp: curl_hits_def curl split: option.splits)
  ultimately show ?thesis using suspicious_flagged [OF ok] layer by blast
qed

text \<open>
  C20. The heuristic backend finds what slips past the pipe. Its rules for process substitution and for switching off the check of the
  certificate fire exactly on the commands of those shapes; with this backend in force no such command is reported Safe, and on ASCII text
  the classification never panics.
\<close>

theorem heuristics_flag_shapes:
  assumes "regex_engine u rx" and "multi_pattern ac" and "utf8_valid url_corpus"
    and "c_tier1 c = tier1_new rx ac npm_corpus url_corpus atom_corpus" and "c_tier2 c = heuristic_backend (heuristic_new rx)"
  shows "(proc_subst_curl (heuristic_new rx) cmd \<noteq> None \<longleftrightarrow> fetch_substituted u cmd)
    \<and> (insecure_tls_fetcher (heuristic_new rx) cmd \<noteq> None \<longleftrightarrow> fetch_insecurely u cmd)
    \<and> (fetch_substituted u cmd \<or> fetch_insecurely u cmd \<longrightarrow> (\<forall>r. classify c cmd = Some r \<longrightarrow> verdict r \<noteq> Safe))
    \<and> (ascii cmd \<longrightarrow> (\<exists>r. classify c cmd = Some r))"
proof -
  have ok: "tier1_ok (c_tier1 c)" using regex_engine.tier1_new_ok [OF assms(1-3)] assms(4) by simp
  have rules: "proc_subst_curl (heuristic_new rx) cmd \<noteq> None \<longleftrightarrow> fetch_substituted u cmd"
    "insecure_tls_fetcher (heuristic_new rx) cmd \<noteq> None \<longleftrightarrow> fetch_insecurely u cmd"
    using regex_engine.subst_rule [OF assms(1)] regex_engine.insecure_rule [OF assms(1)] by (simp_all add: heuristic_new_def)
  have half: "f32_le (Fin (1 / 2)) (f32_lit (85 / 100))" "f32_le (Fin (1 / 2)) (f32_lit (7 / 10))"
    using rnd32_mono [of "1 / 2" "85 / 100"] rnd32_mono [of "1 / 2" "7 / 10"] rnd32_exact [of 1 1] by (simp_all add: f32_lit_def)
  have flagged: "verdict r \<noteq> Safe" if "fetch_substituted u cmd \<or> fetch_insecurely u cmd" "classify c cmd = Some r" for r
  proof -
    have "\<exists>r2. heuristic_classify (heuristic_new rx) cmd None = Some (Some r2) \<and> f32_le (Fin (1 / 2)) (confidence r2)"
      using that(1) rules half by (auto simp: heuristic_classify_def split: option.splits)
    with second_tier_flags [OF ok _ that(2)] heuristic.tier2_contract_axioms show ?thesis
      by (auto simp: assms(5) heuristic_backend_def)
  qed
  have "\<exists>r. classify c cmd = Some r" if "ascii cmd"
    by (rule heuristics_total_on_ascii [OF ok assms(5) regex_engine.heuristic_new_ok [OF assms(1)] that])
  with rules flagged show ?thesis by blast
qed

section \<open>Examples\<close>

abbreviation plain_tables :: unicode where
  "plain_tables \<equiv> \<lparr>un_word = (\<lambda>_. False), un_digit = (\<lambda>_. False)\<rparr>"

lemma spelled_ascii: "\<forall>c\<in>set m. byte_of c < (0x80::nat) \<and> in_class u cl [c] \<Longrightarrow> spelled u cl m"
  unfolding spelled_def by (intro exI [of _ "map (\<lambda>c. [c]) m"]) (auto simp: utf8_char_ascii)

lemma piped_example: "fetch_to_shell plain_tables ''curl x | sh''"
  unfolding fetch_to_shell_def
  by (rule exI [of _ "[]"], rule exI [of _ "''curl''"], rule exI [of _ "'' ''"], rule exI [of _ "''x ''"], rule exI [of _ "'' ''"],
      rule exI [of _ "''sh''"], rule exI [of _ "[]"])
     (auto simp: token_starts_def fetchers_def shells_def ws_chars_def word_ends_def word_char_def intro!: spelled_ascii)

lemma subst_example: "fetch_substituted plain_tables ''sh <(curl x)''"
  unfolding fetch_substituted_def
  by (rule exI [of _ "[]"], rule exI [of _ "''sh''"], rule exI [of _ "'' ''"], rule exI [of _ "[]"], rule exI [of _ "''curl''"],
      rule exI [of _ "'' x)''"])
     (auto simp: shells_def fetchers_def ws_chars_def word_ends_def word_char_def utf8_len_ascii ascii_alnum_def is_digit_def intro!: spelled_ascii)

abbreviation built_classifier :: "tier2_backend \<Rightarrow> classifier" where
  "built_classifier b \<equiv> \<lparr>c_tier1 = tier1_new (regex_search plain_tables) ll_scan [] [] [], c_tier2 = b, block_threshold = None\<rparr>"

theorem fetch_to_shell_flagged_witness:
  "curl_hits (c_tier1 (built_classifier stub_backend)) ''curl x | sh'' \<noteq> []
   \<and> (\<exists>r. classify (built_classifier stub_backend) ''curl x | sh'' = Some r \<and> verdict r \<noteq> Safe)"
proof -
  let ?c = "built_classifier stub_backend" and ?cmd = "''curl x | sh''"
  have "tier1_ok (c_tier1 ?c)"
    using regex_engine.tier1_new_ok [OF reference.regex_engine_axioms leftmost_longest.multi_pattern_axioms utf8_valid_Nil] by simp
  moreover have "utf8_valid ?cmd" by (rule ascii_valid) simp
  ultimately obtain hits where "classify_all (c_tier1 ?c) ?cmd = Some hits" using classify_all_total by blast
  then have "\<exists>r. classify ?c ?cmd = Some r" by (simp add: classify_def consult_tier2_def stub_backend_def)
  moreover have "curl_hits (c_tier1 ?c) ?cmd \<noteq> [] \<and> (\<forall>r. classify ?c ?cmd = Some r \<longrightarrow> verdict r \<noteq> Safe)"
    using fetch_to_shell_flagged [OF reference.regex_engine_axioms leftmost_longest.multi_pattern_axioms utf8_valid_Nil, of ?c]
      piped_example stub.tier2_contract_axioms by simp
  ultimately show ?thesis by blast
qed

theorem heuristics_flag_shapes_witness:
  "\<exists>r. classify (built_classifier (heuristic_backend (heuristic_new (regex_search plain_tables)))) ''sh <(curl x)'' = Some r \<and> verdict r \<noteq> Safe"
proof -
  have "ascii ''sh <(curl x)''" by simp
  with heuristics_flag_shapes [OF reference.regex_engine_axioms leftmost_longest.multi_pattern_axioms utf8_valid_Nil,
      of "built_classifier (heuristic_backend (heuristic_new (regex_search plain_tables)))"] subst_example
  show ?thesis by (metis classifier.select_convs(1,2))
qed

text \<open>
  What the rule for \<open>chmod\<close> misses: the name is taken up to the next white space, so a sequencer right behind it belongs to the name, and the
  usual way to write the command is not found.
\<close>

theorem chmod_semicolon_missed:
  "chmod_then_exec (heuristic_new (regex_search plain_tables)) ''chmod +x f; ./f'' = Some ((0, 11), (9, 11))
   \<and> heuristic_classify (heuristic_new (regex_search plain_tables)) ''chmod +x f; ./f'' None = Some None"
  by code_simp

text \<open>Only the first \<open>sh -c\<close> is looked at: a harmless one in front hides the payload of the next.\<close>

theorem first_payload_hides_next:
  "bash_hits (tier1_new (regex_search plain_tables) ac npm urls atoms) (''sh -c x;sh -c '' @ replicate 40 (CHR ''A'')) = []"
  by code_simp

end
