(* ===== verification/Spec2Isabelle.thy ===== *)
theory Spec2Isabelle
  imports Profile Onnx_Backend Threat_Map Npm_Parser Metrics Osv Exec_Dispatch Atom_Fetch Cli_Daemon Shapes
begin

text \<open>
  The security daemon \<open>atty-guard\<close> of atty (\<open>src/atty-guard/src\<close>, Rust). The terminal proxy asks it before a command runs
  whether the command is suspicious; it marks processes in a table that a kernel hook reads; it keeps for every user the atoms, hosts and command
  hashes the user has decided on; it fetches a corpus of suspicious fragments; and it is operated through a command line of its own.

  \<^bold>\<open>How to read the model.\<close> A struct is a record, an enum a datatype, with the names of the source (a suffix or
  prefix where a name is taken). A string is the list of its UTF-8 bytes; a slice that Rust would refuse is the panic, the value \<^const>\<open>None\<close>. \<open>u8\<close>,
  \<open>u32\<close>, \<open>u64\<close> are words; an \<open>f32\<close> is a rational that binary32 can hold, an infinity or NaN, and every
  operation rounds (\<open>F32\<close>). A fallible function returns a sum, \<^const>\<open>Inl\<close> the error. State is passed explicitly. The disk is a value
  \<open>world\<close> whose trace records its content after each system call, and a schedule \<open>fault\<close> says which call fails: a statement about all schedules is one
  about all failures, and about a crash after any call. \<open>/proc\<close> is a function of time, so that a process can end and its number be given
  away between two reads. Other threads are functions that change the shared state where the code does not hold the lock.

  \<^bold>\<open>The parts, from the bottom.\<close>

  \<^item> \<open>Prelude\<close>, \<open>Rust_Str\<close>, \<open>Rust_Slice\<close>, \<open>Tokens\<close>, \<open>F32\<close>: types, strings, slices, words and floating point, with the lemmas the components share.
  \<^item> \<open>Protocol\<close> (\<open>protocol.rs\<close>): requests, responses, verdicts, drift entries; verdicts are a linear order.
  \<^item> \<open>Profile\<close> (\<open>profile.rs\<close>): the profiles, their byte encoding and the policy that decides what an exec event leads to.
  \<^item> \<open>Civil_Date\<close>: both calendar conversions (\<open>trust_store.rs\<close>, \<open>atom_drift.rs\<close>) against a calendar that is counted day by day.
  \<^item> \<open>Trust_Format\<close>, \<open>Fs_World\<close>, \<open>Trust_Store\<close>, \<open>Trust_Session\<close> (\<open>trust_store.rs\<close>, \<open>fsutil.rs\<close>): file formats, atomic writers, the persistent and
    session layer of every user with their locks, the write of a session while other threads add to it, the fetched corpus with its gate.
  \<^item> \<open>Atom_Matcher\<close>, \<open>Classifier\<close>, \<open>Patterns\<close>, \<open>Shapes\<close> (\<open>atom_matcher.rs\<close>, \<open>classifier.rs\<close>): the atom scan, the signals of the first tier, the second tier, how
    confidences accumulate to a verdict; the seven regular expressions as syntax trees, with a relational meaning and an executable
    backtracking search that meets it, and the commands they fire on.
  \<^item> \<open>Sanitize\<close>, \<open>Onnx_Backend\<close> (\<open>sanitize.rs\<close>, \<open>onnx_backend.rs\<close>): what the language model is shown and how its answer is read.
  \<^item> \<open>Ebpf\<close>, \<open>Proc_Fs\<close>, \<open>Threat_Map\<close>, \<open>Warn_Consumer\<close>, \<open>Exec_Dispatch\<close> (\<open>ebpf.rs\<close>, \<open>threat_map.rs\<close>, \<open>warn_consumer.rs\<close>): the kernel's maps and their keys, the
    identity of a process, the table that is written through to the kernel, the fan-out of events, and the response to an exec event.
  \<^item> \<open>Npm_Parser\<close>, \<open>Osv\<close>, \<open>Metrics\<close> (\<open>npm_parser.rs\<close>, \<open>osv.rs\<close>, \<open>metrics.rs\<close>): the packages a command would install, the
    vulnerability lookup with its cache, the metrics of the running proxies.
  \<^item> \<open>Atom_Pins\<close>, \<open>Atom_Extract\<close>, \<open>Atom_Drift\<close>, \<open>Atom_Fetch\<close> (\<open>atom_fetcher/\<close>, \<open>atom_drift.rs\<close>): the pin file, the walk over an archive and the two parsers, the
    drift snapshot, download with digest check, publication, and the refresh loop.
  \<^item> \<open>Server_State\<close>, \<open>Server_Classify\<close>, \<open>Server_Threat\<close>, \<open>Server_Profile\<close>, \<open>Server_Trust\<close>, \<open>Server\<close>, \<open>Conn\<close> (\<open>server.rs\<close>): the state of the daemon, one definition per
    request handler, the dispatcher, the accept gate, the loop of a connection and the stream of a subscriber.
  \<^item> \<open>Startup\<close> (\<open>main.rs\<close>, \<open>config.rs\<close>, \<open>shutdown.rs\<close>): from the parsed command line to the server that is handed to the accept loop.
  \<^item> \<open>Cli\<close>, \<open>Cli_Daemon\<close> (\<open>cli_client.rs\<close>): the subcommands, and client and daemon composed over the socket.

  \<^bold>\<open>How they interact.\<close> \<open>Startup.daemon_start\<close> builds the \<open>server\<close> record, the state of every handler: the classifier, the table with the kernel's maps,
  the lookup client, the trust store, the disk, the broadcast, metrics and the live profile. \<open>Conn.handle_loop\<close> reads a line,
  \<open>Server.dispatch\<close> calls the handler of the request on that state. \<open>handle_classify\<close> takes the classifier's verdict and
  raises it by the user's atoms (\<open>Trust_Store\<close>), the packages (\<open>Npm_Parser\<close>, \<open>Osv\<close>) and the mark of the process (\<open>Threat_Map\<close>). \<open>handle_set_profile\<close> switches the live profile and arms or
  clears the deny maps (\<open>Ebpf\<close>); \<open>Exec_Dispatch\<close> reads the same profile for every event and sends warnings to the subscribers (\<open>Warn_Consumer\<close>).
  The refresh of \<open>Atom_Fetch\<close> publishes the corpus that \<open>Trust_Store.reload_system_fetched\<close> loads. \<open>Cli.cli_dispatch\<close> sends a request for the user it acts
  for, and \<open>Cli_Daemon\<close> shows that the answer is that of one \<open>dispatch\<close>.

  \<^bold>\<open>What the theorems show.\<close>

  \<^item> Privilege. Users that are not root never affect each other, through any sequence of requests, and no file but their own trust
    file (\<open>Server\<close>, \<open>Trust_Store\<close>); marks, watches and subscriptions are limited to processes the caller really owned, even if numbers are given
    away meanwhile (\<open>Server_Threat\<close>, \<open>Threat_Map\<close>); the client acts for its caller only (\<open>Cli_Daemon\<close>).
  \<^item> Detection. Which commands are flagged and with what (\<open>Classifier\<close>, \<open>Shapes\<close>, \<open>Atom_Matcher\<close>, \<open>Server_Classify\<close>, \<open>Npm_Parser\<close>, \<open>Osv\<close>, \<open>Onnx_Backend\<close>): no signal is lost on the way to
    the answer, Block needs two independent signals and the operator's threshold, nothing panics on well-formed text.
  \<^item> Kernel. The maps mirror the table, strict arms exactly the configured rules from the start on and leaves nothing behind (\<open>Threat_Map\<close>, \<open>Server_Profile\<close>, \<open>Startup\<close>);
    a process is signalled only under a profile that says so (\<open>Exec_Dispatch\<close>).
  \<^item> Disk. Every file is published whole or not at all under every failure; what is read back is what was written; the write of a session
    loses nothing to concurrent additions; files that others can write are refused (\<open>Fs_World\<close>, \<open>Trust_Format\<close>, \<open>Trust_Session\<close>, \<open>Atom_Fetch\<close>, \<open>Cli\<close>).
  \<^item> Service. Each line is answered once and in order, every connection ends and gives its slot back, the bounds on
    connections, subscribers, caches and stores hold in every history (\<open>Conn\<close>, \<open>Server_State\<close>, \<open>Warn_Consumer\<close>, \<open>Metrics\<close>, \<open>Osv\<close>); every request gets an answer of its kind (\<open>Server\<close>); the
    start is refused rather than weakened, and never takes the socket of a running daemon (\<open>Startup\<close>).

  \<^bold>\<open>Interfaces.\<close> A locale states what a part relies on, its lemmas are proved there, and it is interpreted where the provider is: \<open>atomic_publish\<close>
  for the writers of trust files, corpus and snapshot (\<open>Fs_World\<close>); \<open>line_codec\<close> for the formats of atoms, hosts, hashes and of the corpus (\<open>Trust_Format\<close>, \<open>Atom_Fetch\<close>); \<open>user_scoped\<close>
  for the operations of one user and \<open>state_rel\<close> for the relations they keep (\<open>Trust_Store\<close>, \<open>Trust_Session\<close>); \<open>tier2_contract\<close> for the stub, the heuristics and the model
  (\<open>Classifier\<close>, \<open>Onnx_Backend\<close>); \<open>multi_pattern\<close> and \<open>regex_engine\<close> for the two scanning crates, each with an executable instance
  (\<open>Atom_Matcher\<close>, \<open>Patterns\<close>); \<open>process_table\<close> for \<open>/proc\<close> (\<open>Proc_Fs\<close>); \<open>atom_extractor\<close> for the two parsers (\<open>Atom_Extract\<close>); \<open>rounding\<close> for what
  the accumulation needs of binary32 (\<open>F32\<close>).

  \<^bold>\<open>Fuel.\<close> Loops that may not end take a number of iterations and return \<^const>\<open>None\<close> when it is used up; that they return is proved. The loop of a
  connection needs one iteration per byte the peer sends and one more (theory \<open>Conn\<close>); the interruptible sleep one per step of the interval
  (\<open>Startup.sleep_ends\<close>); the retried system calls are bounded by the code itself, eight times. The accept loop of the code is meant not to return,
  and does not (\<open>Startup.signals_ignored_by_server\<close>).

  \<^bold>\<open>Parameters.\<close> Third-party code is an argument, and what is relied on a named hypothesis or locale with an instance: the \<open>regex\<close> and \<open>aho-corasick\<close>
  crates, \<open>serde_json\<close> and the TOML, YAML, gzip and tar readers, the HTTP client and SHA-256, the tokenizer and the ONNX
  session, the kernel's maps and the loading of programs, \<open>getpwnam\<close>, and the tables of Unicode outside ASCII.

  \<^bold>\<open>Not modelled.\<close> The programs in the kernel (\<open>ebpf/atty_guard.bpf.c\<close>), the Zig proxy, the shell scripts and the unit file, being other languages;
  log lines and the wording of messages, which are values here; the clap parser and the serde attributes; \<open>bind\<close>, the mode
  of the socket, the start of threads, the registration of signal handlers and the calls that load eBPF objects, which only hand arguments to the system; poisoned locks
  (a thread that panicked while holding one); running out of memory. The expiry of cache entries is modelled with a clock that does
  not run backwards, as \<open>Instant\<close> documents. Test modules are not part of the program.
\<close>

end
